(* ===== verification/Go_Prelude.thy ===== *)
theory Go_Prelude
  imports Main "HOL-Library.Word"
begin

text \<open>
  What every component shares: bytes and byte streams, Go error values and the
  \<^verbatim>\<open>if err != nil { return err }\<close> idiom, the reading primitives of \<^verbatim>\<open>io\<close>,
  \<^verbatim>\<open>bufio\<close> and \<^verbatim>\<open>encoding/binary\<close>, 64-bit signed arithmetic, decimal
  printing, and the view of a Go string as its bytes.
\<close>

unbundle bit_operations_syntax

type_synonym byte = "8 word"
type_synonym bytes = "byte list"

section \<open>Go error values\<close>

text \<open>
  \<open>Msg\<close> is \<^verbatim>\<open>errors.New\<close> or \<^verbatim>\<open>fmt.Errorf\<close> without \<^verbatim>\<open>%w\<close>,
  \<open>Wrap p e\<close> is \<^verbatim>\<open>fmt.Errorf\<close> with a trailing \<^verbatim>\<open>%w\<close>, \<open>WrapPre e s\<close> one
  with a leading \<^verbatim>\<open>%w\<close>, \<open>Sentinel\<close> a
  package-level error variable, \<open>Env\<close> an error of the operating system, the network or a
  third-party package, and \<open>Panic\<close> a run-time panic of the Go code itself.
\<close>

datatype err =
    EOF
  | UnexpectedEOF
  | ErrShortWrite
  | Canceled
  | DeadlineExceeded
  | NetClosed
  | Sentinel string
  | Msg string
  | Wrap string err
  | WrapPre err string
  | Env string
  | Panic string

fun errors_Is :: "err \<Rightarrow> err \<Rightarrow> bool" where
  "errors_Is (Wrap p e) t = (Wrap p e = t \<or> errors_Is e t)"
| "errors_Is (WrapPre e s) t = (WrapPre e s = t \<or> errors_Is e t)"
| "errors_Is e t = (e = t)"

fun err_text :: "err \<Rightarrow> string" where
  "err_text EOF = ''EOF''"
| "err_text UnexpectedEOF = ''unexpected EOF''"
| "err_text ErrShortWrite = ''short write''"
| "err_text Canceled = ''context canceled''"
| "err_text DeadlineExceeded = ''context deadline exceeded''"
| "err_text NetClosed = ''use of closed network connection''"
| "err_text (Sentinel s) = s"
| "err_text (Msg s) = s"
| "err_text (Wrap p e) = p @ err_text e"
| "err_text (WrapPre e s) = err_text e @ s"
| "err_text (Env s) = s"
| "err_text (Panic s) = s"

section \<open>Early return on errors\<close>

definition bindE :: "'e + 'a \<Rightarrow> ('a \<Rightarrow> 'e + 'b) \<Rightarrow> 'e + 'b" where
  "bindE m f = (case m of Inl e \<Rightarrow> Inl e | Inr x \<Rightarrow> f x)"

section \<open>Readers\<close>

text \<open>
  A reader is the bytes that will ever arrive on it and the error it reports once they are
  used up (\<open>EOF\<close> for an orderly end). \<open>readFull\<close> is \<^verbatim>\<open>io.ReadFull\<close>: an
  orderly end in the middle becomes \<open>UnexpectedEOF\<close>.
\<close>

datatype reader = Reader (avail: bytes) (rerr: err)

fun readFull :: "nat \<Rightarrow> reader \<Rightarrow> err + bytes \<times> reader" where
  "readFull n (Reader bs e) =
     (if n \<le> length bs then Inr (take n bs, Reader (drop n bs) e)
      else if bs \<noteq> [] \<and> e = EOF then Inl UnexpectedEOF
      else Inl e)"

fun readByte :: "reader \<Rightarrow> err + byte \<times> reader" where
  "readByte (Reader [] e) = Inl e"
| "readByte (Reader (b # bs) e) = Inr (b, Reader bs e)"

section \<open>Big-endian integers\<close>

text \<open>
  \<open>be_bytes k v\<close> is what \<^verbatim>\<open>binary.BigEndian.PutUint\<close> writes for the low \<open>k\<close>
  bytes of \<open>v\<close>; \<open>be_nat\<close> is \<^verbatim>\<open>binary.BigEndian.Uint\<close>.
\<close>

primrec be_bytes :: "nat \<Rightarrow> nat \<Rightarrow> bytes" where
  "be_bytes 0 v = []"
| "be_bytes (Suc k) v = word_of_nat (v div 256 ^ k) # be_bytes k v"

definition be_nat :: "bytes \<Rightarrow> nat" where
  "be_nat bs = foldl (\<lambda>v b. v * 256 + unat b) 0 bs"

section \<open>Signed 64-bit arithmetic, decimal printing, strings as bytes\<close>

definition i64 :: "int \<Rightarrow> int" where
  "i64 x = (x + 2 ^ 63) mod 2 ^ 64 - 2 ^ 63"

definition in_i64 :: "int \<Rightarrow> bool" where
  "in_i64 x \<longleftrightarrow> - (2 ^ 63) \<le> x \<and> x < 2 ^ 63"

fun itoa :: "nat \<Rightarrow> string" where
  "itoa n = (if n < 10 then [char_of (48 + n)] else itoa (n div 10) @ [char_of (48 + n mod 10)])"

declare itoa.simps [simp del]

text \<open>The verb \<^verbatim>\<open>%x\<close>.\<close>

fun hex :: "nat \<Rightarrow> string" where
  "hex n =
     (let d = (\<lambda>k. if k < 10 then char_of (48 + k) else char_of (87 + k) :: char)
      in if n < 16 then [d n] else hex (n div 16) @ [d (n mod 16)])"

declare hex.simps [simp del]

definition bytes_of :: "string \<Rightarrow> bytes" where
  "bytes_of s = map (\<lambda>c. word_of_nat (of_char c)) s"

definition string_of :: "bytes \<Rightarrow> string" where
  "string_of bs = map (\<lambda>b. char_of (unat b)) bs"

section \<open>Allocation\<close>

text \<open>
  \<^verbatim>\<open>make([]byte, n)\<close> on a 64-bit platform: the run-time panics when \<open>n\<close> is negative or
  exceeds the address space it manages (48 bits). Running out of memory below that bound is
  not modelled.
\<close>

definition goMaxAlloc :: nat where
  "goMaxAlloc = 2 ^ 48"

definition makePanic :: err where
  "makePanic = Panic ''runtime error: makeslice: len out of range''"

definition makeBytes :: "int \<Rightarrow> err + bytes" where
  "makeBytes n = (if n < 0 \<or> n > int goMaxAlloc then Inl makePanic else Inr (replicate (nat n) 0))"

section \<open>Facts about the primitives\<close>

lemma bindE_simps [simp]:
  "bindE (Inl e) f = Inl e"
  "bindE (Inr x) f = f x"
  by (simp_all add: bindE_def)

lemma bindE_eq_Inr:
  "bindE m f = Inr y \<longleftrightarrow> (\<exists>x. m = Inr x \<and> f x = Inr y)"
  by (cases m) simp_all

lemma bindE_InrE:
  assumes "bindE m f = Inr y"
  obtains x where "m = Inr x" and "f x = Inr y"
  using assms by (cases m) auto

lemma bindE_eq_Inl:
  "bindE m f = Inl e \<longleftrightarrow> m = Inl e \<or> (\<exists>x. m = Inr x \<and> f x = Inl e)"
  by (cases m) auto

lemma bindE_cong [fundef_cong]:
  "m = m' \<Longrightarrow> (\<And>x. m' = Inr x \<Longrightarrow> f x = g x) \<Longrightarrow> bindE m f = bindE m' g"
  by (cases m') simp_all

lemma readFull_append [simp]:
  "length us = n \<Longrightarrow> readFull n (Reader (us @ zs) e) = Inr (us, Reader zs e)"
  by auto

lemma readFull_exact:
  "length us = n \<Longrightarrow> readFull n (Reader us e) = Inr (us, Reader [] e)"
  by auto

lemma readFull_0 [simp]: "readFull 0 r = Inr ([], r)"
  by (cases r) simp

lemma readFull_Inr:
  "readFull n r = Inr (v, r') \<Longrightarrow>
     avail r = v @ avail r' \<and> length v = n \<and> rerr r' = rerr r"
  by (cases r) (auto split: if_splits)

lemma readByte_Inr:
  "readByte r = Inr (b, r') \<Longrightarrow> avail r = b # avail r' \<and> rerr r' = rerr r"
  by (cases r rule: readByte.cases) auto

declare readFull.simps [simp del]

lemma length_be_bytes [simp]: "length (be_bytes k v) = k"
  by (induction k) simp_all

lemma foldl_be: "foldl (\<lambda>v b. v * 256 + unat (b :: byte)) a bs = a * 256 ^ length bs + be_nat bs"
proof (induction bs arbitrary: a)
  case Nil
  then show ?case by (simp add: be_nat_def)
next
  case (Cons b bs)
  have "be_nat (b # bs) = unat b * 256 ^ length bs + be_nat bs"
    using Cons.IH [of "unat b"] by (simp add: be_nat_def)
  with Cons.IH [of "a * 256 + unat b"] show ?case
    by (simp add: algebra_simps)
qed

lemma be_nat_Nil [simp]: "be_nat [] = 0"
  by (simp add: be_nat_def)

lemma be_nat_Cons: "be_nat (b # bs) = unat b * 256 ^ length bs + be_nat bs"
  using foldl_be [of "unat b" bs] by (simp add: be_nat_def)

lemma be_nat_less: "be_nat bs < 256 ^ length bs"
proof (induction bs)
  case Nil
  then show ?case by simp
next
  case (Cons b bs)
  have b: "unat b < 256"
    using unsigned_less [of b, where 'a = nat] by simp
  then have "Suc (unat b) * 256 ^ length bs \<le> 256 * 256 ^ length bs"
    by (intro mult_le_mono1) simp
  then have "unat b * 256 ^ length bs + 256 ^ length bs \<le> 256 ^ length (b # bs)"
    by (simp add: algebra_simps)
  with Cons.IH show ?case
    unfolding be_nat_Cons by linarith
qed

lemma be_nat_be_bytes: "be_nat (be_bytes k v) = v mod 256 ^ k"
proof (induction k)
  case 0
  then show ?case by simp
next
  case (Suc k)
  have "v mod (256 ^ k * 256) = 256 ^ k * (v div 256 ^ k mod 256) + v mod 256 ^ k"
    by (rule mod_mult2_eq)
  then show ?case
    by (simp add: be_nat_Cons Suc unat_of_nat algebra_simps)
qed

lemma be_nat_be_bytes_small [simp]: "v < 256 ^ k \<Longrightarrow> be_nat (be_bytes k v) = v"
  by (simp add: be_nat_be_bytes)

lemma small_len_bits:
  fixes w :: byte
  assumes "unat w < 128"
  shows "w AND 0x7F = w" and "w AND 0x80 = 0"
    and "(w OR 0x80) AND 0x7F = w" and "(w OR 0x80) AND 0x80 = 0x80"
proof -
  have m: "(0x7F :: byte) = mask 7"
    by (simp add: mask_eq_exp_minus_1)
  show a: "w AND 0x7F = w"
    unfolding m using assms
    by (simp flip: take_bit_eq_mask add: word_unat_eq_iff unsigned_take_bit_eq take_bit_nat_eq_self)
  have "w AND 0x80 = (w AND 0x7F) AND 0x80" by (simp add: a)
  also have "\<dots> = 0" by (simp add: and.assoc)
  finally show b: "w AND 0x80 = 0" .
  show "(w OR 0x80) AND 0x7F = w" and "(w OR 0x80) AND 0x80 = 0x80"
    by (simp_all add: bit.conj_disj_distrib2 a b)
qed

lemma i64_id: "in_i64 x \<Longrightarrow> i64 x = x"
  by (simp add: i64_def in_i64_def)

lemma i64_in: "in_i64 (i64 x)"
proof -
  have "0 \<le> (x + 2 ^ 63) mod 2 ^ 64" and "(x + 2 ^ 63) mod 2 ^ 64 < 2 ^ 64"
    by simp_all
  then show ?thesis unfolding in_i64_def i64_def by simp
qed

lemma length_bytes_of [simp]: "length (bytes_of s) = length s"
  by (simp add: bytes_of_def)

lemma length_string_of [simp]: "length (string_of bs) = length bs"
  by (simp add: string_of_def)

lemma string_of_bytes_of [simp]: "string_of (bytes_of s) = s"
proof -
  have "unat (word_of_nat (of_char c) :: byte) = (of_char c :: nat)" for c :: char
    by (simp add: unat_of_nat of_char_mod_256)
  then show ?thesis by (simp add: string_of_def bytes_of_def o_def)
qed

lemma bytes_of_string_of [simp]: "bytes_of (string_of bs) = bs"
proof -
  have "(word_of_nat (of_char (char_of (unat b) :: char)) :: byte) = b" for b :: byte
  proof -
    have "unat b < 256" using unsigned_less [of b, where 'a = nat] by simp
    then show ?thesis by simp
  qed
  then show ?thesis by (simp add: string_of_def bytes_of_def o_def)
qed

lemma bytes_of_append [simp]: "bytes_of (s @ t) = bytes_of s @ bytes_of t"
  by (simp add: bytes_of_def)

end
