(* ===== verification/Codec.thy ===== *)
theory Codec
  imports Go_Prelude
begin

text \<open>
  A small theory of decoders, shared by the WebSocket framing, the HTTP/3 framing and the
  QPACK layer. A decoder is \<^emph>\<open>local\<close> when it looks only at the bytes it consumes and hands
  back exactly the rest; the reading primitives are local and locality is closed under
  sequencing and branching. A \<^emph>\<open>codec\<close> is a local decoder with an encoder it inverts:
  encodings are then prefix-free, a concatenation of encodings decodes item by item, and no
  proper prefix of an encoding decodes.
\<close>

named_theorems dec_intros \<open>closure of local decoders under the reading primitives\<close>

section \<open>Decoders\<close>

text \<open>
  A decoder is local when a success depends only on a prefix it consumes, and it hands back
  exactly the rest. Decoding \<open>n\<close> items in a row is \<open>decodeN\<close>.
\<close>

type_synonym 'a decoder = "reader \<Rightarrow> err + 'a \<times> reader"

definition local_dec :: "'a decoder \<Rightarrow> bool" where
  "local_dec d \<longleftrightarrow>
     (\<forall>bs e v r. d (Reader bs e) = Inr (v, r) \<longrightarrow>
       (\<exists>us rs. r = Reader rs e \<and> bs = us @ rs \<and>
         (\<forall>zs e'. d (Reader (us @ zs) e') = Inr (v, Reader zs e'))))"

primrec decodeN :: "'a decoder \<Rightarrow> nat \<Rightarrow> reader \<Rightarrow> err + 'a list \<times> reader" where
  "decodeN d 0 r = Inr ([], r)"
| "decodeN d (Suc n) r =
     bindE (d r) (\<lambda>(x, r'). bindE (decodeN d n r') (\<lambda>(xs, r''). Inr (x # xs, r'')))"

section \<open>Locality\<close>

lemma local_decI:
  assumes "\<And>bs e v r. d (Reader bs e) = Inr (v, r) \<Longrightarrow>
    \<exists>us rs. r = Reader rs e \<and> bs = us @ rs \<and>
      (\<forall>zs e'. d (Reader (us @ zs) e') = Inr (v, Reader zs e'))"
  shows "local_dec d"
  using assms by (auto simp: local_dec_def)

lemma local_decE:
  assumes "local_dec d" and "d (Reader bs e) = Inr (v, r)"
  obtains us rs where "r = Reader rs e" and "bs = us @ rs"
    and "\<And>zs e'. d (Reader (us @ zs) e') = Inr (v, Reader zs e')"
  using assms unfolding local_dec_def by blast

lemma local_readFull [dec_intros]: "local_dec (readFull n)"
proof (rule local_decI)
  fix bs e v r
  assume "readFull n (Reader bs e) = Inr (v, r)"
  then have "n \<le> length bs" and "v = take n bs" and "r = Reader (drop n bs) e"
    by (auto simp: readFull.simps split: if_splits)
  then show "\<exists>us rs. r = Reader rs e \<and> bs = us @ rs \<and>
      (\<forall>zs e'. readFull n (Reader (us @ zs) e') = Inr (v, Reader zs e'))"
    by (intro exI [of _ "take n bs"] exI [of _ "drop n bs"]) simp
qed

lemma local_readByte [dec_intros]: "local_dec readByte"
proof (rule local_decI)
  fix bs e v r
  assume "readByte (Reader bs e) = Inr (v, r)"
  then obtain cs where "bs = v # cs" and "r = Reader cs e"
    by (cases bs) auto
  then show "\<exists>us rs. r = Reader rs e \<and> bs = us @ rs \<and>
      (\<forall>zs e'. readByte (Reader (us @ zs) e') = Inr (v, Reader zs e'))"
    by (intro exI [of _ "[v]"] exI [of _ cs]) simp
qed

lemma local_return [dec_intros]: "local_dec (\<lambda>r. Inr (v, r))"
  by (rule local_decI) auto

lemma local_fail [dec_intros]: "local_dec (\<lambda>r. Inl e)"
  by (rule local_decI) auto

lemma local_bind [dec_intros]:
  assumes "local_dec d" and "\<And>x. local_dec (f x)"
  shows "local_dec (\<lambda>r. bindE (d r) (\<lambda>(x, r'). f x r'))"
proof (rule local_decI)
  fix bs e v r
  assume "bindE (d (Reader bs e)) (\<lambda>(x, r'). f x r') = Inr (v, r)"
  then obtain x r' where d: "d (Reader bs e) = Inr (x, r')" and f: "f x r' = Inr (v, r)"
    by (auto simp: bindE_eq_Inr)
  from assms(1) d obtain us rs where us: "r' = Reader rs e" "bs = us @ rs"
    "\<And>zs e'. d (Reader (us @ zs) e') = Inr (x, Reader zs e')"
    by (rule local_decE) blast
  from assms(2) f [unfolded us(1)] obtain vs ws where vs: "r = Reader ws e" "rs = vs @ ws"
    "\<And>zs e'. f x (Reader (vs @ zs) e') = Inr (v, Reader zs e')"
    by (rule local_decE) blast
  have "bindE (d (Reader ((us @ vs) @ zs) e')) (\<lambda>(x, r'). f x r') = Inr (v, Reader zs e')" for zs e'
    by (simp add: us(3) vs(3))
  then show "\<exists>us rs. r = Reader rs e \<and> bs = us @ rs \<and>
      (\<forall>zs e'. bindE (d (Reader (us @ zs) e')) (\<lambda>(x, r'). f x r') = Inr (v, Reader zs e'))"
    using us(2) vs(1,2) by (intro exI [of _ "us @ vs"] exI [of _ ws]) simp
qed

lemma local_if [dec_intros]:
  "local_dec d \<Longrightarrow> local_dec d' \<Longrightarrow> local_dec (\<lambda>r. if c then d r else d' r)"
  by (cases c) simp_all

lemma local_dec_shrinks:
  assumes "local_dec d" and "d r = Inr (v, r')"
  shows "length (avail r') \<le> length (avail r)" and "rerr r' = rerr r"
proof -
  obtain bs e where r: "r = Reader bs e" by (cases r)
  from assms(1) assms(2) [unfolded r] obtain us rs where "r' = Reader rs e" "bs = us @ rs"
    by (rule local_decE) blast
  with r show "length (avail r') \<le> length (avail r)" and "rerr r' = rerr r"
    by simp_all
qed

section \<open>Codecs\<close>

locale codec =
  fixes enc :: "'a \<Rightarrow> bytes"
    and dec :: "reader \<Rightarrow> err + 'b \<times> reader"
    and view :: "'a \<Rightarrow> 'b"
    and valid :: "'a \<Rightarrow> bool"
  assumes dec_enc: "valid x \<Longrightarrow> dec (Reader (enc x @ zs) e) = Inr (view x, Reader zs e)"
    and dec_local: "local_dec dec"
begin

lemma prefix_free:
  assumes "valid x" and "valid y" and "enc x @ zs = enc y @ zs'"
  shows "view x = view y \<and> zs = zs'"
proof -
  have "dec (Reader (enc x @ zs) EOF) = dec (Reader (enc y @ zs') EOF)"
    using assms(3) by simp
  then show ?thesis
    by (simp add: dec_enc [OF assms(1)] dec_enc [OF assms(2)])
qed

lemma decodeN_concat:
  "(\<And>x. x \<in> set xs \<Longrightarrow> valid x) \<Longrightarrow>
     decodeN dec (length xs) (Reader (concat (map enc xs) @ zs) e) = Inr (map view xs, Reader zs e)"
  by (induction xs) (simp_all add: dec_enc)

lemma no_proper_prefix:
  assumes "valid x" and "k < length (enc x)"
  shows "\<exists>e'. dec (Reader (take k (enc x)) e) = Inl e'"
proof (cases "dec (Reader (take k (enc x)) e)")
  case (Inl e')
  then show ?thesis by blast
next
  case (Inr vr)
  obtain v r where "vr = (v, r)" by (cases vr)
  with Inr have "dec (Reader (take k (enc x)) e) = Inr (v, r)" by simp
  with dec_local obtain us rs where us: "take k (enc x) = us @ rs"
    "\<And>zs e'. dec (Reader (us @ zs) e') = Inr (v, Reader zs e')"
    by (rule local_decE) blast
  have "enc x = us @ rs @ drop k (enc x)"
    using append_take_drop_id [of k "enc x"] us(1) by simp
  with us(2) [of "rs @ drop k (enc x)" e] dec_enc [OF assms(1), of "[]" e]
  have "rs @ drop k (enc x) = []" by simp
  with assms(2) show ?thesis by simp
qed

end

end
