(* ===== verification/Ws_Frame.thy ===== *)
theory Ws_Frame
  imports Codec
begin

text \<open>
  RFC 6455 framing: \<^verbatim>\<open>internal/ws_api.go\<close> (message types) and the framing helpers
  \<^verbatim>\<open>readFrame\<close> and \<^verbatim>\<open>buildFrame\<close> of \<^verbatim>\<open>internal/ws_h2.go\<close>. The mask key
  that \<^verbatim>\<open>crypto/rand\<close> delivers is an argument of \<open>buildFrame\<close>. Lengths are
  \<^typ>\<open>nat\<close>; the 64-bit length field of the wire is read in full before it is compared
  with the cap.
\<close>

section \<open>Definitions\<close>

type_synonym ws_type = "8 word"

definition WSMessageContinuation :: ws_type where [simp]: "WSMessageContinuation = 0"
definition WSMessageText :: ws_type where [simp]: "WSMessageText = 1"
definition WSMessageBinary :: ws_type where [simp]: "WSMessageBinary = 2"
definition WSMessageClose :: ws_type where [simp]: "WSMessageClose = 8"
definition WSMessagePing :: ws_type where [simp]: "WSMessagePing = 9"
definition WSMessagePong :: ws_type where [simp]: "WSMessagePong = 10"

definition wsMaxFrame :: nat where "wsMaxFrame = 64 * 2 ^ 20"

definition applyMask :: "bytes \<Rightarrow> bytes \<Rightarrow> bytes" where
  "applyMask maskKey payload =
     map (\<lambda>i. payload ! i XOR maskKey ! (i mod 4)) [0..<length payload]"

definition readPlen :: "byte \<Rightarrow> reader \<Rightarrow> err + nat \<times> reader" where
  "readPlen ln r =
     (if ln = 126 then bindE (readFull 2 r) (\<lambda>(b, r). Inr (be_nat b, r))
      else if ln = 127 then bindE (readFull 8 r) (\<lambda>(b, r). Inr (be_nat b, r))
      else Inr (unat ln, r))"

definition readFrame :: "bool \<Rightarrow> reader \<Rightarrow> err + (ws_type \<times> bytes \<times> bool) \<times> reader" where
  "readFrame expectMasked r =
     bindE (readByte r) (\<lambda>(b0, r).
     bindE (readByte r) (\<lambda>(b1, r).
       let fin = (b0 AND 0x80 \<noteq> 0);
           op = b0 AND 0x0F;
           masked = (b1 AND 0x80 \<noteq> 0)
       in if expectMasked \<and> \<not> masked
          then Inl (Msg ''websocket protocol error: expected masked frame'')
          else if \<not> expectMasked \<and> masked
          then Inl (Msg ''websocket protocol error: server frame must not be masked'')
          else
            bindE (readPlen (b1 AND 0x7F) r) (\<lambda>(plen, r).
            bindE (if masked then readFull 4 r else Inr (replicate 4 0, r)) (\<lambda>(maskKey, r).
              if plen > wsMaxFrame then Inl (Msg (''ws frame too large: '' @ itoa plen))
              else bindE (readFull plen r) (\<lambda>(payload, r).
                Inr ((op, (if masked then applyMask maskKey payload else payload), fin), r))))))"

definition frameHeader :: "ws_type \<Rightarrow> nat \<Rightarrow> bytes" where
  "frameHeader typ plen =
     (let b0 = 0x80 OR (typ AND 0x0F)
      in if plen < 126 then [b0, word_of_nat plen]
         else if plen \<le> 0xFFFF then [b0, 126] @ be_bytes 2 plen
         else [b0, 127] @ be_bytes 8 plen)"

definition buildFrame :: "ws_type \<Rightarrow> bytes \<Rightarrow> bool \<Rightarrow> err + bytes \<Rightarrow> err + bytes" where
  "buildFrame typ payload masked rnd =
     (let hdr = frameHeader typ (length payload)
      in if masked
         then bindE rnd (\<lambda>maskKey.
           Inr (hdr[1 := hdr ! 1 OR 0x80] @ maskKey @ applyMask maskKey payload))
         else Inr (hdr @ payload))"

text \<open>
  The reference layout of a frame (RFC 6455, section 5.2), with every header bit free: what a
  peer may put on the wire.
\<close>

definition wire_len :: "nat \<Rightarrow> byte \<times> bytes" where
  "wire_len n =
     (if n < 126 then (word_of_nat n, [])
      else if n < 2 ^ 16 then (126, be_bytes 2 n)
      else (127, be_bytes 8 n))"

definition wire_frame :: "bool \<Rightarrow> ws_type \<Rightarrow> bytes option \<Rightarrow> bytes \<Rightarrow> bytes" where
  "wire_frame fin typ key payload =
     ((if fin then 0x80 else 0) OR (typ AND 0x0F)) #
     (fst (wire_len (length payload)) OR (case key of None \<Rightarrow> 0 | Some _ \<Rightarrow> 0x80)) #
     snd (wire_len (length payload)) @
     (case key of None \<Rightarrow> payload | Some k \<Rightarrow> k @ applyMask k payload)"

section \<open>Masking and header bits\<close>

lemma length_applyMask [simp]: "length (applyMask k p) = length p"
  by (simp add: applyMask_def)

lemma applyMask_involutive [simp]: "applyMask k (applyMask k p) = p"
  by (rule nth_equalityI) (simp_all add: applyMask_def xor.assoc)

lemma op_bits [simp]: "(c OR (t AND 0x0F)) AND 0x0F = t AND 0x0F" if "c AND 0x0F = 0" for c t :: byte
  using that by (simp add: bit.conj_disj_distrib2 and.assoc)

lemma fin_bit [simp]: "(0x80 OR (t AND 0x0F)) AND 0x80 = 0x80" "(t AND 0x0F) AND 0x80 = 0" for t :: byte
  by (simp_all add: bit.conj_disj_distrib2 and.assoc)

lemma wire_len_bound: "n < 2 ^ 64 \<Longrightarrow> unat (fst (wire_len n)) < 128"
  by (simp add: wire_len_def unat_of_nat)

lemma readPlen_wire_len:
  assumes "n < 2 ^ 64"
  shows "readPlen (fst (wire_len n)) (Reader (snd (wire_len n) @ zs) e) = Inr (n, Reader zs e)"
proof -
  have "(word_of_nat n :: byte) \<noteq> 126 \<and> (word_of_nat n :: byte) \<noteq> 127" if "n < 126"
    using that by (auto simp: word_unat_eq_iff unat_of_nat)
  then show ?thesis
    using assms by (auto simp: readPlen_def wire_len_def unat_of_nat)
qed

section \<open>Locality and the codec laws\<close>

lemma local_readPlen [dec_intros]: "local_dec (readPlen ln)"
  unfolding readPlen_def by (intro dec_intros)

lemma local_readFrame [dec_intros]: "local_dec (readFrame m)"
  unfolding readFrame_def Let_def by (intro dec_intros)

lemma readFrame_wire_frame:
  assumes "length p \<le> wsMaxFrame" and "case key of None \<Rightarrow> True | Some k \<Rightarrow> length k = 4"
  shows "readFrame (key \<noteq> None) (Reader (wire_frame fin typ key p @ zs) e) =
    Inr ((typ AND 0x0F, p, fin), Reader zs e)"
proof -
  have n: "length p < 2 ^ 64"
    using assms(1) by (simp add: wsMaxFrame_def)
  note bits = small_len_bits [OF wire_len_bound [OF n]] readPlen_wire_len [OF n]
  show ?thesis
    using assms by (cases fin; cases key) (simp_all add: readFrame_def wire_frame_def bits)
qed

lemma readFrame_masked:
  "length p \<le> wsMaxFrame \<Longrightarrow> length k = 4 \<Longrightarrow>
     readFrame True (Reader (wire_frame fin typ (Some k) p @ zs) e) =
       Inr ((typ AND 0x0F, p, fin), Reader zs e)"
  using readFrame_wire_frame [where key = "Some k"] by simp

lemma readFrame_unmasked:
  "length p \<le> wsMaxFrame \<Longrightarrow>
     readFrame False (Reader (wire_frame fin typ None p @ zs) e) =
       Inr ((typ AND 0x0F, p, fin), Reader zs e)"
  using readFrame_wire_frame [where key = None] by simp

lemma buildFrame_wire_frame:
  "buildFrame typ p True (Inr k) = Inr (wire_frame True typ (Some k) p)"
  "buildFrame typ p False rnd = Inr (wire_frame True typ None p)"
  by (auto simp: buildFrame_def frameHeader_def wire_frame_def wire_len_def)

text \<open>
  A frame to be put on the wire: final bit, type, optional mask key and payload. The frames
  \<open>masked\<close> by a client and the unmasked ones of a server form a codec each.
\<close>

type_synonym wire = "bool \<times> ws_type \<times> bytes option \<times> bytes"

definition wire_enc :: "wire \<Rightarrow> bytes" where
  "wire_enc = (\<lambda>(fin, typ, key, p). wire_frame fin typ key p)"

lemma wire_enc_simp [simp]: "wire_enc (fin, typ, key, p) = wire_frame fin typ key p"
  by (simp add: wire_enc_def)

definition wire_view :: "wire \<Rightarrow> ws_type \<times> bytes \<times> bool" where
  "wire_view = (\<lambda>(fin, typ, key, p). (typ AND 0x0F, p, fin))"

definition wire_valid :: "bool \<Rightarrow> wire \<Rightarrow> bool" where
  "wire_valid m = (\<lambda>(fin, typ, key, p). length p \<le> wsMaxFrame \<and>
     (case key of None \<Rightarrow> \<not> m | Some k \<Rightarrow> m \<and> length k = 4))"

interpretation ws_client: codec wire_enc "readFrame True" wire_view "wire_valid True"
proof
  show "readFrame True (Reader (wire_enc x @ zs) e) = Inr (wire_view x, Reader zs e)"
    if "wire_valid True x" for x zs e
    using that
    by (auto simp: wire_valid_def wire_enc_def wire_view_def readFrame_masked split: option.splits)
qed (rule local_readFrame)

interpretation ws_server: codec wire_enc "readFrame False" wire_view "wire_valid False"
proof
  show "readFrame False (Reader (wire_enc x @ zs) e) = Inr (wire_view x, Reader zs e)"
    if "wire_valid False x" for x zs e
    using that
    by (auto simp: wire_valid_def wire_enc_def wire_view_def readFrame_unmasked split: option.splits)
qed (rule local_readFrame)

lemma readPlen_Inr:
  "readPlen ln r = Inr (n, r') \<Longrightarrow> \<exists>us. avail r = us @ avail r' \<and> length us \<le> 8"
  unfolding readPlen_def
  by (auto simp: bindE_eq_Inr split: if_splits dest!: readFull_Inr)

lemma readFrame_InrE:
  assumes "readFrame m r = Inr ((op, p, fin), r')"
  obtains b0 r1 b1 r2 plen r3 key r4 body where
    "readByte r = Inr (b0, r1)" "readByte r1 = Inr (b1, r2)"
    "b1 AND 0x80 \<noteq> 0 \<longleftrightarrow> m"
    "readPlen (b1 AND 0x7F) r2 = Inr (plen, r3)" "plen \<le> wsMaxFrame"
    "(if m then readFull 4 r3 else Inr (replicate 4 0, r3)) = Inr (key, r4)"
    "readFull plen r4 = Inr (body, r')"
    "op = b0 AND 0x0F" "p = (if m then applyMask key body else body)"
    "fin \<longleftrightarrow> b0 AND 0x80 \<noteq> 0"
  using assms unfolding readFrame_def Let_def
  by (elim bindE_InrE) (clarsimp split: if_split_asm elim!: bindE_InrE)

section \<open>Properties\<close>

text \<open>
  C1. Round trip of the framing: what \<^verbatim>\<open>buildFrame\<close> writes, masked as a client does or
  unmasked as a server does, \<^verbatim>\<open>readFrame\<close> reads back as one final frame with the same
  opcode and payload, leaving the bytes behind it untouched, for every payload up to the 64
  MiB cap and every mask key.
\<close>

theorem buildFrame_readFrame_roundtrip:
  assumes "length p \<le> wsMaxFrame" and "length k = 4"
  shows "\<exists>f. buildFrame typ p m (Inr k) = Inr f \<and>
    (\<forall>zs e. readFrame m (Reader (f @ zs) e) = Inr ((typ AND 0x0F, p, True), Reader zs e))"
  using assms by (cases m) (simp_all add: buildFrame_wire_frame readFrame_masked readFrame_unmasked)

theorem buildFrame_readFrame_roundtrip_witness:
  "length [0x68, 0x69 :: byte] \<le> wsMaxFrame \<and>
   (\<exists>f. buildFrame WSMessageBinary [0x68, 0x69] True (Inr [1, 2, 3, 4]) = Inr f \<and>
     (\<forall>zs e. readFrame True (Reader (f @ zs) e) = Inr ((2, [0x68, 0x69], True), Reader zs e)))"
proof -
  have h: "length [0x68, 0x69 :: byte] \<le> wsMaxFrame" and k: "length [1, 2, 3, 4 :: byte] = 4"
    by (simp_all add: wsMaxFrame_def)
  show ?thesis
    using h buildFrame_readFrame_roundtrip [OF h k, of WSMessageBinary True] by simp
qed

text \<open>
  A truncated frame is never delivered: no proper prefix of a frame that
  \<^verbatim>\<open>buildFrame\<close> wrote decodes, whatever error ends the stream.
\<close>

theorem readFrame_truncated:
  assumes "length p \<le> wsMaxFrame" and "length key = 4"
    and "buildFrame typ p m (Inr key) = Inr f" and "n < length f"
  shows "\<exists>e'. readFrame m (Reader (take n f) e) = Inl e'"
proof (cases m)
  case True
  with assms(1-3) have f: "f = wire_enc (True, typ, Some key, p)"
    and v: "wire_valid True (True, typ, Some key, p)"
    by (simp_all add: buildFrame_wire_frame wire_enc_def wire_valid_def)
  show ?thesis
    using ws_client.no_proper_prefix [OF v, of n e] assms(4) True by (simp add: f)
next
  case False
  with assms(1-3) have f: "f = wire_enc (True, typ, None, p)"
    and v: "wire_valid False (True, typ, None, p)"
    by (simp_all add: buildFrame_wire_frame wire_enc_def wire_valid_def)
  show ?thesis
    using ws_server.no_proper_prefix [OF v, of n e] assms(4) False by (simp add: f)
qed

theorem readFrame_truncated_witness:
  "\<exists>e'. readFrame True (Reader (take 5 [0x82, 0x81, 1, 2, 3, 4, 0x69]) EOF) = Inl e'"
proof -
  have "buildFrame WSMessageBinary [0x68] True (Inr [1, 2, 3, 4]) = Inr [0x82, 0x81, 1, 2, 3, 4, 0x69]"
    by (simp add: buildFrame_def frameHeader_def applyMask_def)
  from readFrame_truncated [OF _ _ this, of 5] show ?thesis
    by (simp add: wsMaxFrame_def)
qed

text \<open>
  C2. Whatever bytes a peer sends, a frame that \<^verbatim>\<open>readFrame\<close> accepts respects the
  64 MiB cap, has its mask bit set exactly when the caller expects masking, carries opcode
  and final bit of its first byte, and its payload is the unmasked body that sits between a
  header of at most 14 bytes and the untouched rest of the stream.
\<close>

theorem readFrame_sound:
  assumes "readFrame m (Reader bs e) = Inr ((op, p, fin), r)"
  shows "length p \<le> wsMaxFrame \<and> (bs ! 1 AND 0x80 \<noteq> 0 \<longleftrightarrow> m) \<and>
    op = bs ! 0 AND 0x0F \<and> (fin \<longleftrightarrow> bs ! 0 AND 0x80 \<noteq> 0) \<and>
    (\<exists>hdr. length hdr \<le> 14 \<and>
      bs = hdr @ (if m then applyMask (drop (length hdr - 4) hdr) p else p) @ avail r)"
proof -
  from assms obtain b0 r1 b1 r2 plen r3 key r4 body where
    b: "readByte (Reader bs e) = Inr (b0, r1)" "readByte r1 = Inr (b1, r2)"
    and m: "b1 AND 0x80 \<noteq> 0 \<longleftrightarrow> m"
    and plen: "readPlen (b1 AND 0x7F) r2 = Inr (plen, r3)" "plen \<le> wsMaxFrame"
    and key: "(if m then readFull 4 r3 else Inr (replicate 4 0, r3)) = Inr (key, r4)"
    and body: "readFull plen r4 = Inr (body, r)"
    and res: "op = b0 AND 0x0F" "p = (if m then applyMask key body else body)"
      "fin \<longleftrightarrow> b0 AND 0x80 \<noteq> 0"
    by (rule readFrame_InrE)
  from readPlen_Inr [OF plen(1)] obtain len where len: "avail r2 = len @ avail r3" "length len \<le> 8"
    by blast
  note rd = readByte_Inr [OF b(1)] readByte_Inr [OF b(2)] readFull_Inr [OF body] len
  show ?thesis
  proof (cases m)
    case True
    with key readFull_Inr have k: "avail r3 = key @ avail r4" "length key = 4"
      by (auto dest: readFull_Inr)
    have "bs = (b0 # b1 # len @ key) @ applyMask (drop (length (b0 # b1 # len @ key) - 4) (b0 # b1 # len @ key)) p @ avail r"
      using rd k True res(2) by simp
    then show ?thesis
      using True m res plen(2) rd k by (intro conjI exI [of _ "b0 # b1 # len @ key"]) simp_all
  next
    case False
    then have "bs = (b0 # b1 # len) @ p @ avail r"
      using rd key res(2) by auto
    then show ?thesis
      using False m res plen(2) rd by (intro conjI exI [of _ "b0 # b1 # len"]) simp_all
  qed
qed

theorem readFrame_sound_witness:
  "readFrame False (Reader [0x01, 2, 7, 8, 9] EOF) = Inr ((1, [7, 8], False), Reader [9] EOF) \<and>
   length [7, 8 :: byte] \<le> wsMaxFrame"
proof -
  have h: "readFrame False (Reader [0x01, 2, 7, 8, 9] EOF) = Inr ((1, [7, 8], False), Reader [9] EOF)"
    by (simp add: readFrame_def readPlen_def readFull.simps wsMaxFrame_def)
  show ?thesis
    using h readFrame_sound [OF h] by simp
qed

end
