(* ===== verification/Stream_IO.thy ===== *)
theory Stream_IO
  imports Codec
begin

text \<open>
  The writing side of \<^verbatim>\<open>io.ReadWriteCloser\<close>. A stream is a state and two operations,
  \<^verbatim>\<open>Write\<close> (bytes taken and an error, if any) and \<^verbatim>\<open>Close\<close>, collected in the
  record \<open>rwc\<close>, the model's view of a Go interface value. The loop that writes a buffer in
  full occurs three times in the source (\<^verbatim>\<open>framedWSConn.writeRaw\<close>,
  \<^verbatim>\<open>framedWSConn.sendClose\<close>, \<^verbatim>\<open>h3wsStream.Write\<close>) and is defined once. The locale
  \<open>io_writer\<close> is the contract of \<^verbatim>\<open>io.Writer\<close> that its users rely on, and the
  \<^verbatim>\<open>io.Pipe\<close> behind \<^verbatim>\<open>h2Stream\<close> is an implementation of it. The locale
  \<open>io_reader\<close> is the contract of \<^verbatim>\<open>io.Reader\<close>: a stream that keeps it behaves, under
  the loop of \<^verbatim>\<open>io.ReadFull\<close>, as the plain byte sequence (\<open>reader\<close>) the decoders of
  this development run on.
\<close>

section \<open>Definitions\<close>

record 's rwc =
  rwc_write :: "'s \<Rightarrow> bytes \<Rightarrow> (int \<times> err option) \<times> 's"
  rwc_close :: "'s \<Rightarrow> err option \<times> 's"

function writeLoop ::
  "('s \<Rightarrow> bytes \<Rightarrow> (int \<times> err option) \<times> 's) \<Rightarrow> 's \<Rightarrow> bytes \<Rightarrow> err option \<times> 's" where
  "writeLoop wr s remaining =
     (if remaining = [] then (None, s)
      else case wr s remaining of ((n, e), s') \<Rightarrow>
        (case e of
           Some e' \<Rightarrow> (Some e', s')
         | None \<Rightarrow>
             if n \<le> 0 then (Some ErrShortWrite, s')
             else if n > int (length remaining)
             then (Some (Panic ''slice bounds out of range''), s')
             else writeLoop wr s' (drop (nat n) remaining)))"
  by pat_completeness auto
termination
  by (relation "measure (\<lambda>(wr, s, remaining). length remaining)") auto

declare writeLoop.simps [simp del]

text \<open>
  The loop of \<^verbatim>\<open>io.ReadFull\<close> over a reading operation that gets the size of the buffer;
  \<open>None\<close> when it never returns.
\<close>

partial_function (option) readFullLoop ::
  "(nat \<Rightarrow> 's \<Rightarrow> (err + bytes) \<times> 's) \<Rightarrow> nat \<Rightarrow> bytes \<Rightarrow> 's \<Rightarrow> ((err + bytes) \<times> 's) option" where
  "readFullLoop rd n acc s =
     (if n \<le> length acc then Some (Inr acc, s)
      else case rd (n - length acc) s of (res, s') \<Rightarrow>
        (case res of
           Inl e \<Rightarrow> Some (Inl (if acc \<noteq> [] \<and> e = EOF then UnexpectedEOF else e), s')
         | Inr bs \<Rightarrow> readFullLoop rd n (acc @ bs) s'))"

text \<open>
  \<^verbatim>\<open>io.Pipe\<close>, the request body of \<^verbatim>\<open>dialRFC8441\<close>: a write hands all its bytes to
  the reading end, or fails once the pipe is closed.
\<close>

record pipe =
  pdata :: bytes
  pclosed :: bool

definition ErrClosedPipe :: err where
  "ErrClosedPipe = Sentinel ''io: read/write on closed pipe''"

definition pipe_write :: "pipe \<Rightarrow> bytes \<Rightarrow> (int \<times> err option) \<times> pipe" where
  "pipe_write s p =
     (if pclosed s then ((0, Some ErrClosedPipe), s)
      else ((int (length p), None), s\<lparr>pdata := pdata s @ p\<rparr>))"

definition pipe_close :: "pipe \<Rightarrow> err option \<times> pipe" where
  "pipe_close s = (None, s\<lparr>pclosed := True\<rparr>)"

section \<open>The contract of a writer\<close>

text \<open>
  \<open>sent\<close> is what has been delivered, \<open>good\<close> holds as long as no write failed half way. A
  write without error takes some prefix of its argument and delivers exactly that. \<open>lim\<close>
  bounds the buffers the caller may pass.
\<close>

locale io_writer =
  fixes wr :: "'s \<Rightarrow> bytes \<Rightarrow> (int \<times> err option) \<times> 's"
    and sent :: "'s \<Rightarrow> bytes"
    and good :: "'s \<Rightarrow> bool"
    and lim :: nat
  assumes wr_ok: "good s \<Longrightarrow> length p \<le> lim \<Longrightarrow> wr s p = ((n, None), s') \<Longrightarrow>
    good s' \<and> 0 \<le> n \<and> n \<le> int (length p) \<and> sent s' = sent s @ take (nat n) p"
begin

lemma writeLoop_sent:
  "good s \<Longrightarrow> length p \<le> lim \<Longrightarrow> writeLoop wr s p = (None, s') \<Longrightarrow> good s' \<and> sent s' = sent s @ p"
proof (induction "length p" arbitrary: s p rule: less_induct)
  case less
  show ?case
  proof (cases "p = []")
    case True
    with less.prems show ?thesis by (simp add: writeLoop.simps)
  next
    case False
    obtain n e s1 where w: "wr s p = ((n, e), s1)"
      by (metis surj_pair)
    from less.prems(3) False w have e: "e = None" and n: "\<not> n \<le> 0" "\<not> n > int (length p)"
      and rec: "writeLoop wr s1 (drop (nat n) p) = (None, s')"
      by (auto simp: writeLoop.simps [of wr s p] split: option.splits if_splits)
    from wr_ok [OF less.prems(1,2) w [unfolded e]] have ok: "good s1"
      and sent: "sent s1 = sent s @ take (nat n) p"
      by blast+
    from False n have "length (drop (nat n) p) < length p" by simp
    from less.hyps [OF this ok _ rec] less.prems(2) sent show ?thesis by simp
  qed
qed

end

interpretation pipe: io_writer pipe_write pdata "\<lambda>_. True" goMaxAlloc
  by unfold_locales (auto simp: pipe_write_def split: if_splits)

section \<open>The contract of a reader\<close>

text \<open>
  A read of a non-empty buffer delivers at least one byte of what is to come, or reports the
  error that ends the stream when nothing is left.
\<close>

locale io_reader =
  fixes rd :: "nat \<Rightarrow> 's \<Rightarrow> (err + bytes) \<times> 's"
    and contents :: "'s \<Rightarrow> reader"
    and inv :: "'s \<Rightarrow> bool"
  assumes rd_ok: "inv s \<Longrightarrow> 0 < n \<Longrightarrow> rd n s = (Inr bs, s') \<Longrightarrow>
      inv s' \<and> bs \<noteq> [] \<and> length bs \<le> n \<and>
      avail (contents s) = bs @ avail (contents s') \<and> rerr (contents s') = rerr (contents s)"
    and rd_err: "inv s \<Longrightarrow> 0 < n \<Longrightarrow> rd n s = (Inl e, s') \<Longrightarrow>
      avail (contents s) = [] \<and> e = rerr (contents s)"
begin

lemma readFullLoop_acc:
  assumes "inv s" and "length acc \<le> n"
  shows "\<exists>s'. case readFull (n - length acc) (contents s) of
      Inr (bs, r) \<Rightarrow> readFullLoop rd n acc s = Some (Inr (acc @ bs), s') \<and> inv s' \<and> contents s' = r
    | Inl e \<Rightarrow> readFullLoop rd n acc s =
        Some (Inl (if acc \<noteq> [] \<and> e = EOF then UnexpectedEOF else e), s')"
  using assms
proof (induction "n - length acc" arbitrary: s acc rule: less_induct)
  case less
  obtain av er where c: "contents s = Reader av er" by (cases "contents s")
  show ?case
  proof (cases "n = length acc")
    case True
    with less.prems show ?thesis
      by (simp add: readFullLoop.simps [of rd "length acc" acc s])
  next
    case False
    with less.prems have pos: "0 < n - length acc" by simp
    obtain res s1 where rd: "rd (n - length acc) s = (res, s1)" by (metis surj_pair)
    note loop = readFullLoop.simps [of rd n acc s]
    show ?thesis
    proof (cases res)
      case (Inl e)
      with rd_err [OF less.prems(1) pos] rd have "av = []" "e = er" by (simp_all add: c)
      with pos Inl rd show ?thesis by (simp add: loop c readFull.simps)
    next
      case (Inr bs)
      with rd_ok [OF less.prems(1) pos, of bs s1] rd c
      have ok: "inv s1" "bs \<noteq> []" "length bs \<le> n - length acc" "av = bs @ avail (contents s1)"
        "rerr (contents s1) = er"
        by simp_all
      have eq: "readFullLoop rd n acc s = readFullLoop rd n (acc @ bs) s1"
        using pos Inr rd by (simp add: loop)
      have m: "n - length (acc @ bs) < n - length acc" "length (acc @ bs) \<le> n"
        using ok(2,3) pos by (auto simp: neq_Nil_conv)
      obtain rest where c1: "contents s1 = Reader rest er" and av: "av = bs @ rest"
        using ok(4,5) by (cases "contents s1") simp
      from less.hyps [OF m(1) ok(1) m(2)] show ?thesis
        using ok(2,3) by (auto simp: eq c c1 av readFull.simps split: if_splits)
    qed
  qed
qed

lemma readFullLoop_readFull:
  assumes "inv s"
  shows "\<exists>s'. case readFull n (contents s) of
      Inr (bs, r) \<Rightarrow> readFullLoop rd n [] s = Some (Inr bs, s') \<and> inv s' \<and> contents s' = r
    | Inl e \<Rightarrow> readFullLoop rd n [] s = Some (Inl e, s')"
  using readFullLoop_acc [OF assms, of "[]" n] by (auto split: sum.splits)

end

lemma writeLoop_pipe:
  "writeLoop pipe_write s p =
     (if p = [] then (None, s)
      else if pclosed s then (Some ErrClosedPipe, s)
      else (None, s\<lparr>pdata := pdata s @ p\<rparr>))"
  by (simp add: writeLoop.simps pipe_write_def)

end
