(* ===== verification/Framed_Conn.thy ===== *)
theory Framed_Conn
  imports Ws_Frame Stream_IO
begin

text \<open>
  \<^verbatim>\<open>framedWSConn\<close> of \<^verbatim>\<open>internal/ws_h2.go\<close>: a WebSocket connection over an
  \<^verbatim>\<open>io.ReadWriteCloser\<close>. The state holds the buffered reader, the stream, the
  \<^verbatim>\<open>closeSent\<close> flag, how many mask keys were drawn (the keys themselves come from the
  argument \<open>rnd\<close>) and how many delayed closes (\<^verbatim>\<open>time.AfterFunc\<close>) are pending. A
  context is the sequence of answers its \<^verbatim>\<open>Err()\<close> gives to the successive checks of
  one call. The mutex only serialises writers, so each operation is one step. A read error
  leaves the buffered reader as it was: every caller gives the connection up on an error.
\<close>

section \<open>Definitions\<close>

record 's framedWSConn =
  br :: reader
  strm :: 's
  closeSent :: bool
  keysDrawn :: nat
  closeTimers :: nat

type_synonym ctx = "nat \<Rightarrow> err option"
type_synonym keysrc = "nat \<Rightarrow> err + bytes"

definition newFramedWSConn :: "reader \<Rightarrow> 's \<Rightarrow> 's framedWSConn" where
  "newFramedWSConn r s =
     \<lparr>br = r, strm = s, closeSent = False, keysDrawn = 0, closeTimers = 0\<rparr>"

definition writeRaw :: "'s rwc \<Rightarrow> 's framedWSConn \<Rightarrow> bytes \<Rightarrow> err option \<times> 's framedWSConn" where
  "writeRaw io c frame =
     (if closeSent c then (Some EOF, c)
      else case writeLoop (rwc_write io) (strm c) frame of (e, s) \<Rightarrow> (e, c\<lparr>strm := s\<rparr>))"

definition sendClose ::
  "'s rwc \<Rightarrow> keysrc \<Rightarrow> 's framedWSConn \<Rightarrow> bytes \<Rightarrow> err option \<times> 's framedWSConn" where
  "sendClose io rnd c payload =
     (let c1 = c\<lparr>keysDrawn := Suc (keysDrawn c)\<rparr>
      in case buildFrame WSMessageClose payload True (rnd (keysDrawn c)) of
           Inl e \<Rightarrow> (Some e, c1)
         | Inr frame \<Rightarrow>
             if closeSent c1 then (None, c1)
             else case writeLoop (rwc_write io) (strm c1) frame of
               (e, s) \<Rightarrow> (e, c1\<lparr>closeSent := True, strm := s\<rparr>))"

definition conn_Write ::
  "'s rwc \<Rightarrow> keysrc \<Rightarrow> err option \<Rightarrow> 's framedWSConn \<Rightarrow> ws_type \<Rightarrow> bytes \<Rightarrow>
     err option \<times> 's framedWSConn" where
  "conn_Write io rnd ctxErr c typ data =
     (case ctxErr of
        Some e \<Rightarrow> (Some e, c)
      | None \<Rightarrow>
          (let c1 = c\<lparr>keysDrawn := Suc (keysDrawn c)\<rparr>
           in case buildFrame typ data True (rnd (keysDrawn c)) of
                Inl e \<Rightarrow> (Some e, c1)
              | Inr frame \<Rightarrow> writeRaw io c1 frame))"

definition closeStream :: "'s rwc \<Rightarrow> 's framedWSConn \<Rightarrow> 's framedWSConn" where
  "closeStream io c = c\<lparr>strm := snd (rwc_close io (strm c))\<rparr>"

definition closePayload :: "16 word \<Rightarrow> bytes \<Rightarrow> bytes" where
  "closePayload code reason = (if code \<noteq> 0 then be_bytes 2 (unat code) @ reason else [])"

definition conn_Close ::
  "'s rwc \<Rightarrow> keysrc \<Rightarrow> 's framedWSConn \<Rightarrow> 16 word \<Rightarrow> bytes \<Rightarrow> err option \<times> 's framedWSConn" where
  "conn_Close io rnd c code reason =
     (let c1 = snd (sendClose io rnd c (closePayload code reason))
      in (None, c1\<lparr>closeTimers := Suc (closeTimers c1)\<rparr>))"

definition closeTimerFires :: "'s rwc \<Rightarrow> 's framedWSConn \<Rightarrow> 's framedWSConn" where
  "closeTimerFires io c =
     (if closeTimers c = 0 then c
      else closeStream io (c\<lparr>closeTimers := closeTimers c - 1\<rparr>))"

lemma writeRaw_frame [simp]:
  "br (snd (writeRaw io c f)) = br c" "closeSent (snd (writeRaw io c f)) = closeSent c"
  by (simp_all add: writeRaw_def split: prod.split)

lemma conn_Write_frame [simp]:
  "br (snd (conn_Write io rnd e c t d)) = br c"
  "closeSent (snd (conn_Write io rnd e c t d)) = closeSent c"
  by (auto simp: conn_Write_def Let_def split: option.split sum.split)

lemma readFrame_shrinks:
  "readFrame m r = Inr (v, r') \<Longrightarrow> length (avail r') < length (avail r)"
  by (cases v)
    (auto elim!: readFrame_InrE split: if_splits
      dest!: readByte_Inr readPlen_Inr readFull_Inr)

text \<open>
  \<^verbatim>\<open>Read\<close> and \<^verbatim>\<open>readFragmentedMessage\<close>. Every turn of a loop consumes a frame, so
  both end on every finite input.
\<close>

function (sequential) fragLoop ::
  "'s rwc \<Rightarrow> keysrc \<Rightarrow> ctx \<Rightarrow> nat \<Rightarrow> 's framedWSConn \<Rightarrow> ws_type \<Rightarrow> bytes \<Rightarrow>
     (err + ws_type \<times> bytes) \<times> 's framedWSConn" where
  "fragLoop io rnd ctx k c firstType buf =
     (case ctx k of
        Some e \<Rightarrow> (Inl e, c)
      | None \<Rightarrow>
          (case readFrame False (br c) of
             Inl e \<Rightarrow> (Inl e, c)
           | Inr ((op2, p2, fin2), r) \<Rightarrow>
               (let c1 = c\<lparr>br := r\<rparr>
                in if op2 = WSMessagePing
                   then fragLoop io rnd ctx (k + 2)
                          (snd (conn_Write io rnd (ctx (k + 1)) c1 WSMessagePong p2)) firstType buf
                   else if op2 = WSMessagePong
                   then fragLoop io rnd ctx (k + 1) c1 firstType buf
                   else if op2 = WSMessageClose
                   then (Inl EOF, closeStream io (snd (sendClose io rnd c1 p2)))
                   else if op2 = WSMessageContinuation
                   then (if fin2 then (Inr (firstType, buf @ p2), c1)
                         else fragLoop io rnd ctx (k + 1) c1 firstType (buf @ p2))
                   else (Inl (Msg (''websocket protocol error: expected continuation, got opcode='' @
                                   itoa (unat op2))), c1))))"
  by pat_completeness auto
termination
  by (relation "measure (\<lambda>(io, rnd, ctx, k, c, t, b). length (avail (br c)))")
    (auto dest!: readFrame_shrinks)

declare fragLoop.simps [simp del]

definition readFragmentedMessage ::
  "'s rwc \<Rightarrow> keysrc \<Rightarrow> ctx \<Rightarrow> nat \<Rightarrow> 's framedWSConn \<Rightarrow> ws_type \<Rightarrow> bytes \<Rightarrow> bool \<Rightarrow>
     (err + ws_type \<times> bytes) \<times> 's framedWSConn" where
  "readFragmentedMessage io rnd ctx k c firstType firstPayload firstFIN =
     (if firstFIN then (Inr (firstType, firstPayload), c)
      else fragLoop io rnd ctx k c firstType firstPayload)"

function (sequential) conn_Read ::
  "'s rwc \<Rightarrow> keysrc \<Rightarrow> ctx \<Rightarrow> nat \<Rightarrow> 's framedWSConn \<Rightarrow>
     (err + ws_type \<times> bytes) \<times> 's framedWSConn" where
  "conn_Read io rnd ctx k c =
     (case ctx k of
        Some e \<Rightarrow> (Inl e, c)
      | None \<Rightarrow>
          (case readFrame False (br c) of
             Inl e \<Rightarrow> (Inl e, c)
           | Inr ((typ, payload, fin), r) \<Rightarrow>
               (let c1 = c\<lparr>br := r\<rparr>
                in if typ = WSMessagePing
                   then conn_Read io rnd ctx (k + 2)
                          (snd (conn_Write io rnd (ctx (k + 1)) c1 WSMessagePong payload))
                   else if typ = WSMessagePong
                   then conn_Read io rnd ctx (k + 1) c1
                   else if typ = WSMessageClose
                   then (Inl EOF, closeStream io (snd (sendClose io rnd c1 payload)))
                   else if typ = WSMessageContinuation
                   then (Inl (Msg ''websocket protocol error: unexpected continuation frame''), c1)
                   else if typ = WSMessageText \<or> typ = WSMessageBinary
                   then (if fin then (Inr (typ, payload), c1)
                         else readFragmentedMessage io rnd ctx (k + 1) c1 typ payload fin)
                   else (Inl (Msg (''websocket protocol error: reserved opcode='' @
                                   itoa (unat typ))), c1))))"
  by pat_completeness auto
termination
  by (relation "measure (\<lambda>(io, rnd, ctx, k, c). length (avail (br c)))")
    (auto dest!: readFrame_shrinks)

declare conn_Read.simps [simp del]

text \<open>
  What a sequence of frames means, without bytes, keys or a stream: the outcome of one
  \<^verbatim>\<open>Read\<close>, the payloads of the pings it has to answer, and the frames left over. The
  first argument is the fragmented message in progress.
\<close>

datatype outcome = Message ws_type bytes | PeerClosed bytes | Violation | Starved

type_synonym frame = "ws_type \<times> bytes \<times> bool"

fun deliver :: "(ws_type \<times> bytes) option \<Rightarrow> frame list \<Rightarrow> outcome \<times> bytes list \<times> frame list" where
  "deliver st [] = (Starved, [], [])"
| "deliver st ((t, p, fin) # fs) =
     (if t = WSMessagePing then (case deliver st fs of (oc, pings, rest) \<Rightarrow> (oc, p # pings, rest))
      else if t = WSMessagePong then deliver st fs
      else if t = WSMessageClose then (PeerClosed p, [], fs)
      else (case st of
              None \<Rightarrow>
                if t = WSMessageText \<or> t = WSMessageBinary
                then (if fin then (Message t p, [], fs) else deliver (Some (t, p)) fs)
                else (Violation, [], fs)
            | Some (t0, buf) \<Rightarrow>
                if t = WSMessageContinuation
                then (if fin then (Message t0 (buf @ p), [], fs) else deliver (Some (t0, buf @ p)) fs)
                else (Violation, [], fs)))"

text \<open>Operations on a connection, and running a sequence of them.\<close>

datatype conn_op =
    OpWrite "err option" ws_type bytes
  | OpRead ctx
  | OpClose "16 word" bytes
  | OpTimer

fun conn_step :: "'s rwc \<Rightarrow> keysrc \<Rightarrow> 's framedWSConn \<Rightarrow> conn_op \<Rightarrow> 's framedWSConn" where
  "conn_step io rnd c (OpWrite e t d) = snd (conn_Write io rnd e c t d)"
| "conn_step io rnd c (OpRead ctx) = snd (conn_Read io rnd ctx 0 c)"
| "conn_step io rnd c (OpClose code reason) = snd (conn_Close io rnd c code reason)"
| "conn_step io rnd c OpTimer = closeTimerFires io c"

section \<open>Reading refines the frame-level meaning\<close>

text \<open>
  \<open>readMsg\<close> covers both loops: no message in progress is \<^verbatim>\<open>Read\<close>, one in progress is the
  loop of \<^verbatim>\<open>readFragmentedMessage\<close>. One turn of it mirrors one equation of \<open>deliver\<close>.
\<close>

definition readMsg ::
  "'s rwc \<Rightarrow> keysrc \<Rightarrow> ctx \<Rightarrow> nat \<Rightarrow> 's framedWSConn \<Rightarrow> (ws_type \<times> bytes) option \<Rightarrow>
     (err + ws_type \<times> bytes) \<times> 's framedWSConn" where
  "readMsg io rnd ctx k c st =
     (case st of None \<Rightarrow> conn_Read io rnd ctx k c | Some (t, b) \<Rightarrow> fragLoop io rnd ctx k c t b)"

definition violation :: "(ws_type \<times> bytes) option \<Rightarrow> ws_type \<Rightarrow> string" where
  "violation st t =
     (case st of
        None \<Rightarrow>
          if t = WSMessageContinuation then ''websocket protocol error: unexpected continuation frame''
          else ''websocket protocol error: reserved opcode='' @ itoa (unat t)
      | Some _ \<Rightarrow> ''websocket protocol error: expected continuation, got opcode='' @ itoa (unat t))"

definition delivers ::
  "outcome \<Rightarrow> (err + ws_type \<times> bytes) \<times> 's framedWSConn \<Rightarrow> bytes \<Rightarrow> err \<Rightarrow> bool" where
  "delivers oc res rest e \<longleftrightarrow>
     (case oc of
        Message t p \<Rightarrow> fst res = Inr (t, p) \<and> br (snd res) = Reader rest e
      | PeerClosed p \<Rightarrow> fst res = Inl EOF \<and> br (snd res) = Reader rest e
      | Violation \<Rightarrow> (\<exists>m. fst res = Inl (Msg m))
      | Starved \<Rightarrow> False)"

lemma sendClose_br [simp]: "br (snd (sendClose io rnd c p)) = br c"
  by (auto simp: sendClose_def Let_def split: sum.split prod.split)

lemma closeStream_br [simp]: "br (closeStream io c) = br c"
  by (simp add: closeStream_def)

lemma readMsg_step:
  assumes "readFrame False (br c) = Inr ((t, p, fin), r)" and "ctx k = None"
  shows "readMsg io rnd ctx k c st =
    (let c1 = c\<lparr>br := r\<rparr>
     in if t = WSMessagePing
        then readMsg io rnd ctx (k + 2) (snd (conn_Write io rnd (ctx (k + 1)) c1 WSMessagePong p)) st
        else if t = WSMessagePong then readMsg io rnd ctx (k + 1) c1 st
        else if t = WSMessageClose then (Inl EOF, closeStream io (snd (sendClose io rnd c1 p)))
        else (case st of
                None \<Rightarrow>
                  if t = WSMessageText \<or> t = WSMessageBinary
                  then (if fin then (Inr (t, p), c1) else readMsg io rnd ctx (k + 1) c1 (Some (t, p)))
                  else (Inl (Msg (violation st t)), c1)
              | Some (t0, buf) \<Rightarrow>
                  if t = WSMessageContinuation
                  then (if fin then (Inr (t0, buf @ p), c1)
                        else readMsg io rnd ctx (k + 1) c1 (Some (t0, buf @ p)))
                  else (Inl (Msg (violation st t)), c1)))"
proof (cases st)
  case None
  then show ?thesis
    by (simp add: readMsg_def conn_Read.simps [of io rnd ctx k c] readFragmentedMessage_def
        violation_def assms Let_def)
next
  case (Some tb)
  then show ?thesis
    by (cases tb) (simp add: readMsg_def fragLoop.simps [of io rnd ctx k c] violation_def assms Let_def)
qed

lemma readFrame_wire:
  "wire_valid False w \<Longrightarrow>
     readFrame False (Reader (concat (map wire_enc (w # ws)) @ zs) e) =
       Inr (wire_view w, Reader (concat (map wire_enc ws) @ zs) e)"
  using ws_server.dec_enc [of w "concat (map wire_enc ws) @ zs" e] by simp

lemma readMsg_delivers:
  assumes "\<And>w. w \<in> set ws \<Longrightarrow> wire_valid False w" and "\<And>k. ctx k = None"
    and "deliver st (map wire_view ws) = (oc, pings, rest)" and "oc \<noteq> Starved"
    and "br c = Reader (concat (map wire_enc ws) @ zs) e"
  shows "\<exists>n. rest = map wire_view (drop n ws) \<and>
    delivers oc (readMsg io rnd ctx k c st) (concat (map wire_enc (drop n ws)) @ zs) e"
  using assms
proof (induction ws arbitrary: st pings c k)
  case Nil
  then show ?case by simp
next
  case (Cons w ws)
  obtain t p fin where w: "wire_view w = (t, p, fin)"
    by (metis surj_pair)
  let ?r = "Reader (concat (map wire_enc ws) @ zs) e"
  have rf: "readFrame False (br c) = Inr ((t, p, fin), ?r)"
    using readFrame_wire [of w ws zs e] Cons.prems(1,5) w by simp
  note step = readMsg_step [OF rf, of ctx k, OF Cons.prems(2)] Let_def delivers_def
  have rec: ?case
    if eq: "readMsg io rnd ctx k c st = readMsg io rnd ctx k' c' st'" and r: "br c' = ?r"
      and d: "deliver st' (map wire_view ws) = (oc, pings', rest)"
    for k' c' st' pings'
  proof -
    obtain n where "rest = map wire_view (drop n ws)"
      "delivers oc (readMsg io rnd ctx k' c' st') (concat (map wire_enc (drop n ws)) @ zs) e"
      using Cons.IH [OF _ Cons.prems(2) d Cons.prems(4) r] Cons.prems(1) by fastforce
    then show ?thesis
      unfolding eq by (intro exI [of _ "Suc n"]) simp
  qed
  have stop: ?case
    if "rest = map wire_view ws"
      and "delivers oc (readMsg io rnd ctx k c st) (concat (map wire_enc ws) @ zs) e"
    using that by (intro exI [of _ 1]) simp
  consider (ping) "t = 9" | (pong) "t = 10"
    | (start) "st = None" "t = 1 \<or> t = 2" "\<not> fin"
    | (more) t0 buf where "st = Some (t0, buf)" "t = 0" "\<not> fin"
    | (stops) "t = 8 \<or> t \<notin> {8, 9, 10} \<and> (st = None \<and> (t \<in> {1, 2} \<longrightarrow> fin) \<or> st \<noteq> None \<and> (t = 0 \<longrightarrow> fin))"
    by (cases st) auto
  then show ?case
  proof cases
    case ping
    with Cons.prems(3) w show ?thesis
      by (intro rec [where st' = st and pings' = "tl pings"]) (auto simp: step split: prod.splits)
  next
    case pong
    with Cons.prems(3) w show ?thesis
      by (intro rec [where st' = st]) (auto simp: step)
  next
    case start
    with Cons.prems(3) w show ?thesis
      by (intro rec [where st' = "Some (t, p)"]) (auto simp: step)
  next
    case more
    with Cons.prems(3) w show ?thesis
      by (intro rec [where st' = "Some (t0, buf @ p)"]) (auto simp: step)
  next
    case stops
    with Cons.prems(3) w show ?thesis
      by (intro stop) (auto simp: step split: option.splits if_splits)
  qed
qed

section \<open>What a read writes back\<close>

text \<open>
  Over the pipe of \<^verbatim>\<open>dialRFC8441\<close>, the frames that answer the pings of one read: one
  pong per ping, masked with the keys in the order they are drawn.
\<close>

definition pipe_io :: "pipe rwc" where
  "pipe_io = \<lparr>rwc_write = pipe_write, rwc_close = pipe_close\<rparr>"

primrec replies :: "keysrc \<Rightarrow> nat \<Rightarrow> bytes list \<Rightarrow> wire list" where
  "replies rnd n [] = []"
| "replies rnd n (p # ps) = (True, WSMessagePong, Some (projr (rnd n)), p) # replies rnd (Suc n) ps"

definition close_reply :: "keysrc \<Rightarrow> nat \<Rightarrow> outcome \<Rightarrow> wire list" where
  "close_reply rnd n oc =
     (case oc of PeerClosed p \<Rightarrow> [(True, WSMessageClose, Some (projr (rnd n)), p)] | _ \<Rightarrow> [])"

lemma wire_frame_neq_Nil [simp]: "wire_frame fin t k p \<noteq> []"
  by (simp add: wire_frame_def)

lemma rwc_pipe [simp]: "rwc_write pipe_io = pipe_write" "rwc_close pipe_io = pipe_close"
  by (simp_all add: pipe_io_def)

lemma conn_Write_pipe:
  assumes "\<not> closeSent c" and "\<not> pclosed (strm c)" and "rnd (keysDrawn c) = Inr key"
  shows "conn_Write pipe_io rnd None c t d =
    (None, c\<lparr>keysDrawn := Suc (keysDrawn c),
      strm := (strm c)\<lparr>pdata := pdata (strm c) @ wire_frame True t (Some key) d\<rparr>\<rparr>)"
  using assms
  by (simp add: conn_Write_def writeRaw_def buildFrame_wire_frame writeLoop_pipe Let_def)

lemma sendClose_pipe:
  assumes "\<not> closeSent c" and "\<not> pclosed (strm c)" and "rnd (keysDrawn c) = Inr key"
  shows "sendClose pipe_io rnd c p =
    (None, c\<lparr>keysDrawn := Suc (keysDrawn c), closeSent := True,
      strm := (strm c)\<lparr>pdata := pdata (strm c) @ wire_frame True WSMessageClose (Some key) p\<rparr>\<rparr>)"
  using assms
  by (simp add: sendClose_def buildFrame_wire_frame writeLoop_pipe Let_def)

lemma readMsg_replies:
  assumes "\<And>w. w \<in> set ws \<Longrightarrow> wire_valid False w" and "\<And>k. ctx k = None"
    and "\<And>n. \<exists>key. rnd n = Inr key"
    and "deliver st (map wire_view ws) = (oc, pings, rest)" and "oc \<noteq> Starved"
    and "br c = Reader (concat (map wire_enc ws) @ zs) e"
    and "\<not> closeSent c" and "\<not> pclosed (strm c)"
  shows "pdata (strm (snd (readMsg pipe_io rnd ctx k c st))) = pdata (strm c) @
    concat (map wire_enc (replies rnd (keysDrawn c) pings @
      close_reply rnd (keysDrawn c + length pings) oc))"
  using assms
proof (induction ws arbitrary: st pings c k)
  case Nil
  then show ?case by simp
next
  case (Cons w ws)
  obtain t p fin where w: "wire_view w = (t, p, fin)"
    by (metis surj_pair)
  let ?r = "Reader (concat (map wire_enc ws) @ zs) e"
  have rf: "readFrame False (br c) = Inr ((t, p, fin), ?r)"
    using readFrame_wire [of w ws zs e] Cons.prems(1,6) w by simp
  obtain key where key: "rnd (keysDrawn c) = Inr key"
    using Cons.prems(3) by blast
  note step = readMsg_step [OF rf, of ctx k, OF Cons.prems(2)] Let_def
  have v: "wire_valid False w'" if "w' \<in> set ws" for w'
    using Cons.prems(1) that by simp
  note IH = Cons.IH [OF v Cons.prems(2,3)]
  note live = Cons.prems(7,8)
  consider (ping) "t = 9" | (pong) "t = 10" | (close) "t = 8"
    | (start) "st = None" "t = 1 \<or> t = 2" "\<not> fin"
    | (more) t0 buf where "st = Some (t0, buf)" "t = 0" "\<not> fin"
    | (stops) "t \<notin> {8, 9, 10} \<and> (st = None \<and> (t \<in> {1, 2} \<longrightarrow> fin) \<or> st \<noteq> None \<and> (t = 0 \<longrightarrow> fin))"
    by (cases st) auto
  then show ?case
  proof cases
    case ping
    with Cons.prems(4) w obtain ps where ps: "pings = p # ps"
      "deliver st (map wire_view ws) = (oc, ps, rest)"
      by (auto split: prod.splits)
    with ping Cons.prems(5) Cons.prems(2) [of "k + 1"] key live show ?thesis
      by (simp add: step conn_Write_pipe IH)
  next
    case pong
    with Cons.prems(4,5) w live show ?thesis
      by (simp add: step IH)
  next
    case close
    with Cons.prems(4) w key live show ?thesis
      by (auto simp: step sendClose_pipe closeStream_def pipe_close_def close_reply_def)
  next
    case start
    with Cons.prems(4,5) w live show ?thesis
      by (auto simp: step IH)
  next
    case more
    with Cons.prems(4,5) w live show ?thesis
      by (auto simp: step IH)
  next
    case stops
    with Cons.prems(4) w show ?thesis
      by (auto simp: step close_reply_def split: option.splits if_splits)
  qed
qed

lemma replies_view:
  "(\<And>p. p \<in> set ps \<Longrightarrow> length p \<le> wsMaxFrame) \<Longrightarrow> (\<And>n. \<exists>key. rnd n = Inr key \<and> length key = 4) \<Longrightarrow>
     (\<forall>w \<in> set (replies rnd n ps). wire_valid True w) \<and>
     map wire_view (replies rnd n ps) = map (\<lambda>p. (WSMessagePong, p, True)) ps"
proof (induction ps arbitrary: n)
  case Nil
  then show ?case by simp
next
  case (Cons p ps)
  from Cons.prems(2) obtain key where "rnd n = Inr key" "length key = 4" by blast
  with Cons.IH [OF _ Cons.prems(2), of "Suc n"] Cons.prems(1) show ?case
    by (simp add: wire_valid_def wire_view_def)
qed

definition payload_bound :: "nat \<Rightarrow> outcome \<Rightarrow> bytes list \<Rightarrow> bool" where
  "payload_bound m oc pings \<longleftrightarrow>
     (\<forall>p \<in> set pings. length p \<le> m) \<and> (case oc of PeerClosed p \<Rightarrow> length p \<le> m | _ \<Rightarrow> True)"

lemma deliver_payloads:
  assumes "deliver st fs = (oc, pings, rest)" and "\<And>f. f \<in> set fs \<Longrightarrow> length (fst (snd f)) \<le> m"
  shows "payload_bound m oc pings"
  using assms
proof (induction fs arbitrary: st pings)
  case Nil
  then show ?case by (auto simp: payload_bound_def)
next
  case (Cons f fs)
  obtain t p fin where f: "f = (t, p, fin)"
    by (metis surj_pair)
  have p: "length p \<le> m"
    using Cons.prems(2) f by fastforce
  have IH: "payload_bound m oc ps" if "deliver st' fs = (oc, ps, rest)" for st' ps
    using Cons.IH [OF that] Cons.prems(2) by simp
  show ?case
  proof (cases "t = WSMessagePing")
    case True
    with Cons.prems(1) f obtain ps where "pings = p # ps" "deliver st fs = (oc, ps, rest)"
      by (auto split: prod.splits)
    with p IH [of st ps] show ?thesis by (simp add: payload_bound_def)
  next
    case False
    with Cons.prems(1) f p IH show ?thesis
      by (simp split: if_splits option.splits prod.splits) (auto simp: payload_bound_def)
  qed
qed

section \<open>After the close frame\<close>

text \<open>
  Once \<^verbatim>\<open>closeSent\<close> is set, an operation can only close the stream: its state is the old
  one after some closes and no write.
\<close>

definition only_closed :: "'s rwc \<Rightarrow> 's \<Rightarrow> 's \<Rightarrow> bool" where
  "only_closed io s s' \<longleftrightarrow> (\<exists>n. s' = ((\<lambda>x. snd (rwc_close io x)) ^^ n) s)"

lemma only_closed_refl [simp]: "only_closed io s s"
  unfolding only_closed_def by (rule exI [of _ 0]) simp

lemma only_closed_close: "only_closed io s s' \<Longrightarrow> only_closed io s (snd (rwc_close io s'))"
  unfolding only_closed_def by (metis funpow.simps(2) o_apply)

lemma only_closed_trans: "only_closed io s s' \<Longrightarrow> only_closed io s' s'' \<Longrightarrow> only_closed io s s''"
  unfolding only_closed_def by (metis funpow_add o_apply)

lemma closed_Write [simp]:
  "closeSent c \<Longrightarrow> strm (snd (conn_Write io rnd e c t d)) = strm c"
  by (auto simp: conn_Write_def writeRaw_def Let_def split: option.split sum.split)

lemma closed_sendClose [simp]:
  "closeSent c \<Longrightarrow> strm (snd (sendClose io rnd c p)) = strm c \<and> closeSent (snd (sendClose io rnd c p))"
  by (auto simp: sendClose_def Let_def split: sum.split prod.split)

lemma closed_fragLoop:
  "closeSent c \<Longrightarrow> closeSent (snd (fragLoop io rnd ctx k c t b)) \<and>
     only_closed io (strm c) (strm (snd (fragLoop io rnd ctx k c t b)))"
proof (induction io rnd ctx k c t b rule: fragLoop.induct)
  case (1 io rnd ctx k c t b)
  show ?case
  proof (cases "ctx k = None \<and> (\<exists>v. readFrame False (br c) = Inr v)")
    case False
    with 1(4) show ?thesis
      by (auto simp: fragLoop.simps [of io rnd ctx k c] split: option.split sum.split)
  next
    case True
    then obtain op p fin r where rf: "ctx k = None" "readFrame False (br c) = Inr ((op, p, fin), r)"
      by (metis surj_pair)
    show ?thesis
      using "1.IH" [OF rf(1) rf(2) refl refl refl refl] 1(4)
      by (auto simp: fragLoop.simps [of io rnd ctx k c] rf closeStream_def Let_def
          intro: only_closed_close)
  qed
qed

lemma closed_Read:
  "closeSent c \<Longrightarrow> closeSent (snd (conn_Read io rnd ctx k c)) \<and>
     only_closed io (strm c) (strm (snd (conn_Read io rnd ctx k c)))"
proof (induction io rnd ctx k c rule: conn_Read.induct)
  case (1 io rnd ctx k c)
  show ?case
  proof (cases "ctx k = None \<and> (\<exists>v. readFrame False (br c) = Inr v)")
    case False
    with 1(3) show ?thesis
      by (auto simp: conn_Read.simps [of io rnd ctx k c] split: option.split sum.split)
  next
    case True
    then obtain op p fin r where rf: "ctx k = None" "readFrame False (br c) = Inr ((op, p, fin), r)"
      by (metis surj_pair)
    show ?thesis
      using "1.IH" [OF rf(1) rf(2) refl refl refl refl] 1(3)
        closed_fragLoop [of "c\<lparr>br := r\<rparr>" io rnd ctx "k + 1" op p]
      by (auto simp: conn_Read.simps [of io rnd ctx k c] rf readFragmentedMessage_def
          closeStream_def Let_def intro: only_closed_close)
  qed
qed

lemma closed_step:
  assumes "closeSent c"
  shows "closeSent (conn_step io rnd c op) \<and> only_closed io (strm c) (strm (conn_step io rnd c op))"
  using assms closed_Read [OF assms]
  by (cases op) (auto simp: conn_Close_def closeTimerFires_def closeStream_def Let_def
      intro: only_closed_close)

lemma closed_run:
  "closeSent c \<Longrightarrow> closeSent (foldl (conn_step io rnd) c ops) \<and>
     only_closed io (strm c) (strm (foldl (conn_step io rnd) c ops))"
proof (induction ops arbitrary: c)
  case Nil
  then show ?case by simp
next
  case (Cons op ops)
  note step = closed_step [OF Cons.prems, of io rnd op]
  with Cons.IH [of "conn_step io rnd c op"] show ?case
    by (auto intro: only_closed_trans)
qed

lemma sendClose_sets:
  "rnd (keysDrawn c) = Inr key \<Longrightarrow> closeSent (snd (sendClose io rnd c p))"
  by (simp add: sendClose_def buildFrame_wire_frame Let_def split: prod.split)

section \<open>Properties\<close>

text \<open>
  C3. Reading implements the frame-level meaning: on any sequence of frames a server may
  send, with an alive context, \<^verbatim>\<open>Read\<close> returns exactly the message, the end or the
  protocol error that \<open>deliver\<close> assigns to the frames (control frames between fragments
  included) and leaves exactly the frames behind it unread, whatever the writing side does.
\<close>

theorem conn_Read_refines_deliver:
  assumes "\<forall>w \<in> set ws. wire_valid False w" and "\<forall>k. ctx k = None"
    and "br c = Reader (concat (map wire_enc ws) @ zs) e"
    and "deliver None (map wire_view ws) = (oc, pings, rest)" and "oc \<noteq> Starved"
  shows "\<exists>n. rest = map wire_view (drop n ws) \<and>
    delivers oc (conn_Read io rnd ctx k c) (concat (map wire_enc (drop n ws)) @ zs) e"
  using readMsg_delivers [of ws ctx None oc pings rest c zs e io rnd k] assms
  by (simp add: readMsg_def)

theorem conn_Read_refines_deliver_witness:
  "\<exists>n. [] = map wire_view (drop n [(False, 1, None, [7]), (True, 9, None, [5]), (True, 0, None, [8 :: byte])]) \<and>
    delivers (Message 1 [7, 8])
      (conn_Read pipe_io (\<lambda>_. Inr [1, 2, 3, 4]) (\<lambda>_. None) 0
        (newFramedWSConn (Reader (concat (map wire_enc
          [(False, 1, None, [7]), (True, 9, None, [5]), (True, 0, None, [8])])) EOF)
          \<lparr>pdata = [], pclosed = False\<rparr>))
      (concat (map wire_enc (drop n
        [(False, 1, None, [7]), (True, 9, None, [5]), (True, 0, None, [8])])) @ []) EOF"
  by (rule conn_Read_refines_deliver [where pings = "[[5]]"])
    (simp_all add: wire_valid_def wsMaxFrame_def newFramedWSConn_def wire_view_def)

text \<open>
  C4. Control frames are answered: over an open stream, the bytes one \<^verbatim>\<open>Read\<close> writes are,
  in the eyes of a server, one pong per ping with the ping's payload and in the order of the
  pings, and, when the peer closes, one close frame that echoes the peer's payload.
\<close>

theorem conn_Read_answers:
  assumes "\<forall>w \<in> set ws. wire_valid False w" and "\<forall>k. ctx k = None"
    and "\<forall>n. \<exists>key. rnd n = Inr key \<and> length key = 4"
    and "br c = Reader (concat (map wire_enc ws) @ zs) e"
    and "\<not> closeSent c" and "\<not> pclosed (strm c)"
    and "deliver None (map wire_view ws) = (oc, pings, rest)" and "oc \<noteq> Starved"
  shows "\<exists>out. pdata (strm (snd (conn_Read pipe_io rnd ctx k c))) = pdata (strm c) @ out \<and>
    (let answers = map (\<lambda>p. (WSMessagePong, p, True)) pings @
           (case oc of PeerClosed p \<Rightarrow> [(WSMessageClose, p, True)] | _ \<Rightarrow> [])
     in decodeN (readFrame True) (length answers) (Reader out EOF) = Inr (answers, Reader [] EOF))"
proof -
  let ?ws = "replies rnd (keysDrawn c) pings @ close_reply rnd (keysDrawn c + length pings) oc"
  have "length (fst (snd f)) \<le> wsMaxFrame" if "f \<in> set (map wire_view ws)" for f
    using that assms(1) by (auto simp: wire_valid_def wire_view_def)
  note small = deliver_payloads [OF assms(7) this]
  obtain key where key: "rnd (keysDrawn c + length pings) = Inr key" "length key = 4"
    using assms(3) by blast
  have rep: "(\<forall>w \<in> set (replies rnd (keysDrawn c) pings). wire_valid True w) \<and>
      map wire_view (replies rnd (keysDrawn c) pings) = map (\<lambda>p. (WSMessagePong, p, True)) pings"
    using small assms(3) by (intro replies_view) (auto simp: payload_bound_def)
  have valid: "wire_valid True w" if "w \<in> set ?ws" for w
    using that rep small key
    by (auto simp: close_reply_def wire_valid_def payload_bound_def split: outcome.splits)
  have view: "map wire_view ?ws = map (\<lambda>p. (WSMessagePong, p, True)) pings @
      (case oc of PeerClosed p \<Rightarrow> [(WSMessageClose, p, True)] | _ \<Rightarrow> [])"
    using rep by (auto simp: close_reply_def wire_view_def split: outcome.split)
  have "pdata (strm (snd (readMsg pipe_io rnd ctx k c None))) = pdata (strm c) @ concat (map wire_enc ?ws)"
    using assms by (intro readMsg_replies) (blast | simp)+
  moreover have "decodeN (readFrame True) (length ?ws) (Reader (concat (map wire_enc ?ws) @ []) EOF) =
      Inr (map wire_view ?ws, Reader [] EOF)"
    using valid by (rule ws_client.decodeN_concat)
  ultimately show ?thesis
    unfolding Let_def view [symmetric] by (auto simp: readMsg_def)
qed

theorem conn_Read_answers_witness:
  "\<exists>out. pdata (strm (snd (conn_Read pipe_io (\<lambda>_. Inr [1, 2, 3, 4]) (\<lambda>_. None) 0
      (newFramedWSConn (Reader (concat (map wire_enc
        [(True, 9, None, [5]), (True, 8, None, [3, 232])])) EOF) \<lparr>pdata = [], pclosed = False\<rparr>)))) = out \<and>
    decodeN (readFrame True) (Suc (Suc 0)) (Reader out EOF) =
      Inr ([(10, [5], True), (8, [3, 232], True)], Reader [] EOF)"
  using conn_Read_answers [where ws = "[(True, 9, None, [5]), (True, 8, None, [3, 232])]"
      and ctx = "\<lambda>_. None" and rnd = "\<lambda>_. Inr [1, 2, 3, 4]" and zs = "[]" and e = EOF and k = 0
      and c = "newFramedWSConn (Reader (concat (map wire_enc
        [(True, 9, None, [5]), (True, 8, None, [3, 232])])) EOF) \<lparr>pdata = [], pclosed = False\<rparr>"
      and oc = "PeerClosed [3, 232]" and pings = "[[5]]" and rest = "[]"]
  by (simp add: wire_valid_def wire_view_def wsMaxFrame_def newFramedWSConn_def)

text \<open>
  C5. Nothing is written after the close frame: a connection that has sent its close frame
  never writes to the stream again, under any further sequence of writes, reads, closes and
  timer events; the stream can only be closed.
\<close>

theorem no_write_after_close:
  assumes "rnd (keysDrawn c) = Inr key"
  shows "only_closed io (strm (snd (conn_Close io rnd c code reason)))
    (strm (foldl (conn_step io rnd) (snd (conn_Close io rnd c code reason)) ops))"
proof -
  have "closeSent (snd (conn_Close io rnd c code reason))"
    using sendClose_sets [of rnd c key io] assms by (simp add: conn_Close_def Let_def)
  then show ?thesis
    by (blast dest: closed_run)
qed

theorem no_write_after_close_witness:
  "only_closed pipe_io
     (strm (snd (conn_Close pipe_io (\<lambda>_. Inr [1, 2, 3, 4])
        (newFramedWSConn (Reader [] EOF) \<lparr>pdata = [], pclosed = False\<rparr>) 1000 [])))
     (strm (foldl (conn_step pipe_io (\<lambda>_. Inr [1, 2, 3, 4]))
        (snd (conn_Close pipe_io (\<lambda>_. Inr [1, 2, 3, 4])
          (newFramedWSConn (Reader [] EOF) \<lparr>pdata = [], pclosed = False\<rparr>) 1000 []))
        [OpWrite None 2 [1, 2, 3], OpTimer]))"
  by (rule no_write_after_close [where key = "[1, 2, 3, 4]"]) simp

end
