(* ===== verification/H3_Varint.thy ===== *)
theory H3_Varint
  imports Codec
begin

text \<open>
  QUIC variable-length integers, \<^verbatim>\<open>appendVarint\<close> and \<^verbatim>\<open>readVarint\<close> of
  \<^verbatim>\<open>internal/ws_h3.go\<close>. A \<^verbatim>\<open>uint64\<close> is a natural number below \<open>2 ^ 64\<close>,
  with the reduction written out where the code shifts. The codec law holds below \<open>2 ^ 62\<close>,
  the largest value the format has; above it the two top bits of the value are overwritten by
  the length tag.
\<close>

section \<open>Definitions\<close>

definition appendVarint :: "bytes \<Rightarrow> nat \<Rightarrow> bytes" where
  "appendVarint b v =
     (if v \<le> 63 then b @ [word_of_nat v]
      else if v \<le> 16383 then b @ [word_of_nat ((v div 2 ^ 8) OR 0x40), word_of_nat v]
      else if v \<le> 1073741823 then
        b @ [word_of_nat ((v div 2 ^ 24) OR 0x80), word_of_nat (v div 2 ^ 16),
             word_of_nat (v div 2 ^ 8), word_of_nat v]
      else
        b @ [word_of_nat ((v div 2 ^ 56) OR 0xC0), word_of_nat (v div 2 ^ 48),
             word_of_nat (v div 2 ^ 40), word_of_nat (v div 2 ^ 32), word_of_nat (v div 2 ^ 24),
             word_of_nat (v div 2 ^ 16), word_of_nat (v div 2 ^ 8), word_of_nat v])"

definition varintValue :: "bytes \<Rightarrow> nat" where
  "varintValue buf = foldl (\<lambda>v b. (v * 2 ^ 8) mod 2 ^ 64 OR unat b) 0 buf"

definition readVarint :: "nat decoder" where
  "readVarint r =
     bindE (readFull 1 r) (\<lambda>(first, r).
       let prefix = drop_bit 6 (first ! 0);
           n = 2 ^ unat prefix
       in bindE (if n > 1 then readFull (n - 1) r else Inr ([], r)) (\<lambda>(rest, r).
            Inr (varintValue ((first ! 0 AND 0x3f) # rest), r)))"

text \<open>The shortest of the four lengths that holds a value (RFC 9000, section 16).\<close>

definition varint_len :: "nat \<Rightarrow> nat" where
  "varint_len v = (if v < 2 ^ 6 then 1 else if v < 2 ^ 14 then 2 else if v < 2 ^ 30 then 4 else 8)"

section \<open>The value of a buffer\<close>

lemma shift_or_add:
  fixes v x :: nat
  assumes "x < 256"
  shows "v * 2 ^ 8 OR x = v * 2 ^ 8 + x"
proof -
  have "push_bit 8 v AND x = 0"
  proof (rule bit_eqI)
    fix n
    have "\<not> bit x n" if "8 \<le> n"
    proof -
      have "x < 2 ^ n"
        using assms power_increasing [OF that, of "2 :: nat"] by simp
      then show ?thesis by (simp add: bit_iff_odd)
    qed
    then show "bit (push_bit 8 v AND x) n \<longleftrightarrow> bit 0 n"
      by (auto simp: bit_and_iff bit_push_bit_iff)
  qed
  then show ?thesis
    by (simp add: disjunctive_add_eq_or push_bit_eq_mult)
qed

lemma foldl_varint:
  fixes a :: nat
  assumes "(a + 1) * 256 ^ length bs \<le> 2 ^ 64"
  shows "foldl (\<lambda>v b. (v * 2 ^ 8) mod 2 ^ 64 OR unat (b :: byte)) a bs = a * 256 ^ length bs + be_nat bs"
  using assms
proof (induction bs arbitrary: a)
  case Nil
  then show ?case by simp
next
  case (Cons b bs)
  have b: "unat b < 256"
    using unsigned_less [of b, where 'a = nat] by simp
  have le: "(a + 1) * 256 \<le> (a + 1) * 256 * 256 ^ length bs"
    by simp
  with Cons.prems have a: "a * 256 < 2 ^ 64"
    by (simp add: algebra_simps)
  have "(a * 256 + unat b + 1) * 256 ^ length bs \<le> (a + 1) * 256 * 256 ^ length bs"
    using b by (intro mult_le_mono1) simp
  also have "\<dots> = (a + 1) * 256 ^ length (b # bs)"
    by (simp add: algebra_simps)
  finally have "(a * 256 + unat b + 1) * 256 ^ length bs \<le> 2 ^ 64"
    using Cons.prems by (rule order.trans)
  from Cons.IH [OF this] show ?case
    using a b shift_or_add [OF b, of a] by (simp add: be_nat_Cons algebra_simps)
qed

lemma varintValue_be_nat: "length bs \<le> 8 \<Longrightarrow> varintValue bs = be_nat bs"
proof -
  assume "length bs \<le> 8"
  then have "(256 :: nat) ^ length bs \<le> 256 ^ 8"
    by (intro power_increasing) simp_all
  then show ?thesis
    using foldl_varint [of 0 bs] by (simp add: varintValue_def)
qed

section \<open>The codec laws\<close>

lemma local_readVarint [dec_intros]: "local_dec readVarint"
  unfolding readVarint_def Let_def by (intro dec_intros)

lemma tag_bits:
  fixes w :: nat
  assumes "w < 64"
  shows "drop_bit 6 (word_of_nat w :: byte) = 0" "(word_of_nat w :: byte) AND 0x3f = word_of_nat w"
    "drop_bit 6 (word_of_nat (w OR 0x40) :: byte) = 1" "(word_of_nat (w OR 0x40) :: byte) AND 0x3f = word_of_nat w"
    "drop_bit 6 (word_of_nat (w OR 0x80) :: byte) = 2" "(word_of_nat (w OR 0x80) :: byte) AND 0x3f = word_of_nat w"
    "drop_bit 6 (word_of_nat (w OR 0xC0) :: byte) = 3" "(word_of_nat (w OR 0xC0) :: byte) AND 0x3f = word_of_nat w"
proof -
  have m: "(0x3f :: byte) = mask 6" by (simp add: mask_eq_exp_minus_1)
  show a: "(word_of_nat w :: byte) AND 0x3f = word_of_nat w"
    unfolding m using assms
    by (simp flip: take_bit_eq_mask add: take_bit_eq_mod word_unat_eq_iff unat_mod_distrib unat_of_nat)
  show b: "drop_bit 6 (word_of_nat w :: byte) = 0"
    using assms by (simp add: drop_bit_eq_div word_unat_eq_iff unat_div_distrib unat_of_nat)
  show "drop_bit 6 (word_of_nat (w OR 0x40) :: byte) = 1" "(word_of_nat (w OR 0x40) :: byte) AND 0x3f = word_of_nat w"
    "drop_bit 6 (word_of_nat (w OR 0x80) :: byte) = 2" "(word_of_nat (w OR 0x80) :: byte) AND 0x3f = word_of_nat w"
    "drop_bit 6 (word_of_nat (w OR 0xC0) :: byte) = 3" "(word_of_nat (w OR 0xC0) :: byte) AND 0x3f = word_of_nat w"
    by (simp_all add: of_nat_or_eq drop_bit_or b bit.conj_disj_distrib2 a)
qed

lemma tag_less: "unat (drop_bit 6 (f :: byte)) < 4"
proof -
  have "unat f < 256"
    using unsigned_less [of f, where 'a = nat] by simp
  then show ?thesis by (simp add: drop_bit_eq_div unat_div_distrib)
qed

lemma value_less:
  fixes f :: byte
  shows "be_nat ((f AND 0x3f) # rest) < 64 * 256 ^ length rest"
proof -
  have m: "(0x3f :: byte) = mask 6" by (simp add: mask_eq_exp_minus_1)
  have "unat (f AND 0x3f) = unat f mod 64"
    unfolding m by (simp flip: take_bit_eq_mask add: take_bit_eq_mod unat_mod_distrib)
  then have "Suc (unat (f AND 0x3f)) * 256 ^ length rest \<le> 64 * 256 ^ length rest"
    by (intro mult_le_mono1) (simp add: Suc_le_eq)
  then show ?thesis
    using be_nat_less [of rest] unfolding be_nat_Cons mult_Suc by linarith
qed

lemma readVarint_first:
  assumes "drop_bit 6 f = t" and "f AND 0x3f = g" and "length rest = 2 ^ unat t - 1"
  shows "readVarint (Reader (f # rest @ zs) e) = Inr (be_nat (g # rest), Reader zs e)"
proof -
  have "unat t < 4"
    using tag_less [of f] assms(1) by simp
  then have "(2 :: nat) ^ unat t \<le> 2 ^ 3"
    by (intro power_increasing) simp_all
  then have len: "length (g # rest) \<le> 8"
    using assms(3) by simp
  have "readFull 1 (Reader (f # rest @ zs) e) = Inr ([f], Reader (rest @ zs) e)"
    by (rule readFull_append [of "[f]" 1, unfolded append_Cons append_Nil]) simp
  then show ?thesis
    using assms varintValue_be_nat [OF len] by (auto simp: readVarint_def Let_def simp del: One_nat_def)
qed

lemma readVarint_appendVarint:
  assumes "v < 2 ^ 62"
  shows "readVarint (Reader (appendVarint [] v @ zs) e) = Inr (v, Reader zs e)"
proof -
  have p2: "unat (2 :: byte) = 2" and p3: "unat (3 :: byte) = 3" by simp_all
  have b2: "be_nat [word_of_nat (v div 2 ^ 8), word_of_nat v] = v" if "v < 2 ^ 14"
    using be_nat_be_bytes_small [of v "Suc (Suc 0)"] that by simp
  have b4: "be_nat [word_of_nat (v div 2 ^ 24), word_of_nat (v div 2 ^ 16), word_of_nat (v div 2 ^ 8), word_of_nat v] = v"
    if "v < 2 ^ 30"
    using be_nat_be_bytes_small [of v "Suc (Suc (Suc (Suc 0)))"] that by simp
  have b8: "be_nat [word_of_nat (v div 2 ^ 56), word_of_nat (v div 2 ^ 48), word_of_nat (v div 2 ^ 40),
     word_of_nat (v div 2 ^ 32), word_of_nat (v div 2 ^ 24), word_of_nat (v div 2 ^ 16), word_of_nat (v div 2 ^ 8), word_of_nat v] = v"
    using be_nat_be_bytes_small [of v "Suc (Suc (Suc (Suc (Suc (Suc (Suc (Suc 0)))))))"] assms by simp
  consider "v \<le> 63" | "63 < v" "v \<le> 16383" | "16383 < v" "v \<le> 1073741823" | "1073741823 < v"
    by linarith
  then show ?thesis
  proof cases
    case 1
    then show ?thesis
      using readVarint_first [OF tag_bits(1,2), of v "[]" zs e]
      by (simp add: appendVarint_def be_nat_Cons unat_of_nat)
  next
    case 2
    then have "v div 2 ^ 8 < 64" by (simp add: less_mult_imp_div_less)
    from readVarint_first [OF tag_bits(3,4) [OF this], of "[word_of_nat v]" zs e] 2 show ?thesis
      by (simp add: appendVarint_def b2 [simplified])
  next
    case 3
    then have "v div 2 ^ 24 < 64" by (simp add: less_mult_imp_div_less)
    from readVarint_first [OF tag_bits(5,6) [OF this],
        of "[word_of_nat (v div 2 ^ 16), word_of_nat (v div 2 ^ 8), word_of_nat v]" zs e] 3 show ?thesis
      by (simp add: appendVarint_def b4 [simplified])
  next
    case 4
    have "v div 2 ^ 56 < 64" using assms by (simp add: less_mult_imp_div_less)
    from readVarint_first [OF tag_bits(7,8) [OF this],
        of "[word_of_nat (v div 2 ^ 48), word_of_nat (v div 2 ^ 40), word_of_nat (v div 2 ^ 32),
         word_of_nat (v div 2 ^ 24), word_of_nat (v div 2 ^ 16), word_of_nat (v div 2 ^ 8), word_of_nat v]" zs e] 4 show ?thesis
      by (simp add: appendVarint_def b8 [simplified])
  qed
qed

lemma appendVarint_append: "appendVarint b v = b @ appendVarint [] v"
  by (simp add: appendVarint_def)

lemma length_appendVarint: "length (appendVarint [] v) = varint_len v"
  by (simp add: appendVarint_def varint_len_def)

interpretation varint: codec "appendVarint []" readVarint "\<lambda>v. v" "\<lambda>v. v < 2 ^ 62"
  by unfold_locales (rule readVarint_appendVarint, assumption, rule local_readVarint)

lemma readVarint_Inr:
  assumes "readVarint r = Inr (v, r')"
  obtains us where "avail r = us @ avail r'" "rerr r' = rerr r" "length us \<in> {1, 2, 4, 8}"
    "v < 2 ^ 62" "varint_len v \<le> length us"
proof -
  from assms obtain fs r1 rest where fs: "readFull 1 r = Inr (fs, r1)"
    and rest: "(if 2 ^ unat (drop_bit 6 (fs ! 0)) > (1 :: nat)
      then readFull (2 ^ unat (drop_bit 6 (fs ! 0)) - 1) r1 else Inr ([], r1)) = Inr (rest, r')"
    and v: "v = varintValue ((fs ! 0 AND 0x3f) # rest)"
    unfolding readVarint_def Let_def
    by (elim bindE_InrE) (clarsimp simp del: One_nat_def elim!: bindE_InrE)
  from readFull_Inr [OF fs] obtain f where f: "fs = [f]" "avail r = f # avail r1" "rerr r1 = rerr r"
    by (cases fs) auto
  have "avail r1 = rest @ avail r' \<and> rerr r' = rerr r1 \<and> length rest = 2 ^ unat (drop_bit 6 f) - 1"
    using rest f(1) by (auto split: if_split_asm dest!: readFull_Inr)
  then have ok: "avail r = (f # rest) @ avail r'" "rerr r' = rerr r"
    and len: "length (f # rest) = 2 ^ unat (drop_bit 6 f)"
    using f by simp_all
  have "unat (drop_bit 6 f) \<in> {0, 1, 2, 3}"
    using tag_less [of f] by auto
  then have k: "length (f # rest) \<in> {1, 2, 4, 8}"
    unfolding len by auto
  then have "v < 64 * 256 ^ length rest"
    using value_less [of f rest] varintValue_be_nat [of "(f AND 0x3f) # rest"] f(1) v by auto
  with k have "v < 2 ^ 62" "varint_len v \<le> length (f # rest)"
    by (auto simp: varint_len_def)
  with that [of "f # rest"] ok k show thesis by simp
qed

section \<open>Properties\<close>

text \<open>
  Varints are a prefix-free canonical code: \<^verbatim>\<open>readVarint\<close> reads back any list of values
  below \<open>2 ^ 62\<close> that \<^verbatim>\<open>appendVarint\<close> wrote one after the other, whatever follows, and
  every encoding of a value that \<^verbatim>\<open>readVarint\<close> accepts, minimal or not, is at least as
  long as the one \<^verbatim>\<open>appendVarint\<close> chooses.
\<close>

theorem varint_roundtrip_minimal:
  assumes "\<And>v. v \<in> set vs \<Longrightarrow> v < 2 ^ 62"
  shows "decodeN readVarint (length vs) (Reader (foldl appendVarint [] vs @ zs) e) = Inr (vs, Reader zs e) \<and>
    (\<forall>bs v rs. readVarint (Reader (bs @ rs) e) = Inr (v, Reader rs e) \<longrightarrow>
      length (appendVarint [] v) \<le> length bs)"
proof (intro conjI allI impI)
  have "foldl appendVarint b vs = b @ concat (map (appendVarint []) vs)" for b
  proof (induction vs arbitrary: b)
    case (Cons v vs)
    then show ?case using appendVarint_append [of b v] by simp
  qed simp
  with varint.decodeN_concat [of vs zs e] assms
  show "decodeN readVarint (length vs) (Reader (foldl appendVarint [] vs @ zs) e) = Inr (vs, Reader zs e)"
    by simp
next
  fix bs v rs
  assume "readVarint (Reader (bs @ rs) e) = Inr (v, Reader rs e)"
  then show "length (appendVarint [] v) \<le> length bs"
    by (rule readVarint_Inr) (simp add: length_appendVarint)
qed

theorem varint_roundtrip_minimal_witness:
  "decodeN readVarint (Suc (Suc 0)) (Reader (foldl appendVarint [] [8, 16384] @ [7]) EOF) =
     Inr ([8, 16384], Reader [7] EOF)"
proof -
  have "v < 2 ^ 62" if "v \<in> set [8, 16384 :: nat]" for v
    using that by auto
  from varint_roundtrip_minimal [of "[8, 16384]" "[7]" EOF, OF this] show ?thesis
    by simp
qed

end
