(* ===== verification/H3_Stream.thy ===== *)
theory H3_Stream
  imports H3_Varint Stream_IO
begin

text \<open>
  \<^verbatim>\<open>h3wsStream\<close> of \<^verbatim>\<open>internal/ws_h3.go\<close>: the byte stream inside the DATA frames of
  an HTTP/3 request stream. The receiving half of the QUIC stream is a \<open>reader\<close>; its sending
  half is a state of its own with \<^verbatim>\<open>Write\<close> and \<^verbatim>\<open>Flush\<close> as arguments. The two
  buffers are kept as the code keeps them: \<^verbatim>\<open>frameBuf\<close> is reused from frame to frame and
  \<^verbatim>\<open>readBuf\<close> is a slice of it, or of a buffer of its own when the frame is large.
\<close>

section \<open>Definitions\<close>

definition h3FrameData :: nat where [simp]: "h3FrameData = 0x0"
definition h3FrameHeaders :: nat where [simp]: "h3FrameHeaders = 0x1"
definition h3FrameSettings :: nat where [simp]: "h3FrameSettings = 0x4"

definition h3MaxDataFrameSize :: nat where "h3MaxDataFrameSize = 64 * 2 ^ 20"
definition h3FrameBufMaxRetain :: nat where "h3FrameBufMaxRetain = 64 * 2 ^ 10"

datatype slice = OfFrameBuf nat nat | OwnBuf bytes

datatype h3res = PeerDrainer | QStream | QConn | QEndpoint

record 's h3wsStream =
  h3_rd :: reader
  h3_s :: 's
  h3_has :: "h3res \<Rightarrow> bool"
  readBuf :: slice
  frameBuf :: bytes
  closeOnce :: bool
  released :: "h3res list"

fun slice_len :: "slice \<Rightarrow> nat" where
  "slice_len (OfFrameBuf off n) = n"
| "slice_len (OwnBuf bs) = length bs"

fun slice_from :: "nat \<Rightarrow> slice \<Rightarrow> slice" where
  "slice_from k (OfFrameBuf off n) = OfFrameBuf (off + k) (n - k)"
| "slice_from k (OwnBuf bs) = OwnBuf (drop k bs)"

fun slice_bytes :: "bytes \<Rightarrow> slice \<Rightarrow> bytes" where
  "slice_bytes fb (OfFrameBuf off n) = take n (drop off fb)"
| "slice_bytes fb (OwnBuf bs) = bs"

text \<open>A failed read has used up what was there; a filled buffer keeps its tail.\<close>

definition drained :: "reader \<Rightarrow> reader" where
  "drained r = Reader [] (rerr r)"

definition fill :: "bytes \<Rightarrow> bytes \<Rightarrow> bytes" where
  "fill buf bs = bs @ drop (length bs) buf"

lemma readVarint_shrinks:
  "readVarint r = Inr (v, r') \<Longrightarrow> length (avail r') < length (avail r)"
  by (erule readVarint_Inr) auto

lemma readFull_shrinks:
  "readFull n r = Inr (v, r') \<Longrightarrow> length (avail r') \<le> length (avail r)"
  by (drule readFull_Inr) simp

function (sequential) h3Read ::
  "nat \<Rightarrow> 's h3wsStream \<Rightarrow> (err + bytes) \<times> 's h3wsStream" where
  "h3Read plen s =
     (if slice_len (readBuf s) > 0 then
        (let n = min plen (slice_len (readBuf s))
         in (Inr (take n (slice_bytes (frameBuf s) (readBuf s))),
             s\<lparr>readBuf := slice_from n (readBuf s)\<rparr>))
      else case readVarint (h3_rd s) of
        Inl e \<Rightarrow> (Inl e, s\<lparr>h3_rd := drained (h3_rd s)\<rparr>)
      | Inr (ft, r1) \<Rightarrow> (case readVarint r1 of
        Inl e \<Rightarrow> (Inl e, s\<lparr>h3_rd := drained r1\<rparr>)
      | Inr (n, r2) \<Rightarrow>
          if n > h3MaxDataFrameSize then
            (Inl (Msg (''h3 websocket stream protocol error: DATA frame too large: '' @ itoa n)),
             s\<lparr>h3_rd := r2\<rparr>)
          else
            (let retain = (n \<le> h3FrameBufMaxRetain);
                 fb = (if retain \<and> length (frameBuf s) < n then replicate n 0 else frameBuf s)
             in case readFull n r2 of
               Inl e \<Rightarrow>
                 (Inl e, s\<lparr>h3_rd := drained r2,
                           frameBuf := (if retain then fill fb (avail r2) else fb)\<rparr>)
             | Inr (payload, r3) \<Rightarrow>
                 (let s1 = s\<lparr>h3_rd := r3, frameBuf := (if retain then fill fb payload else fb)\<rparr>
                  in if ft \<noteq> h3FrameData then
                       (Inl (Msg (''h3 websocket stream protocol error: non-DATA frame type='' @ itoa ft)), s1)
                     else h3Read plen
                       (s1\<lparr>readBuf := (if retain then OfFrameBuf 0 n else OwnBuf payload)\<rparr>)))))"
  by pat_completeness auto
termination
  by (relation "measure (\<lambda>(p, s). length (avail (h3_rd s)))")
    (auto dest!: readVarint_shrinks readFull_shrinks)

declare h3Read.simps [simp del]

definition dataFrame :: "bytes \<Rightarrow> bytes" where
  "dataFrame p = appendVarint (appendVarint [] h3FrameData) (length p) @ p"

definition h3Write ::
  "('s \<Rightarrow> bytes \<Rightarrow> (int \<times> err option) \<times> 's) \<Rightarrow> ('s \<Rightarrow> err option \<times> 's) \<Rightarrow>
     's h3wsStream \<Rightarrow> bytes \<Rightarrow> (int \<times> err option) \<times> 's h3wsStream" where
  "h3Write qw qflush s p =
     (case writeLoop qw (h3_s s) (dataFrame p) of
        (Some e, q) \<Rightarrow> ((0, Some e), s\<lparr>h3_s := q\<rparr>)
      | (None, q) \<Rightarrow>
          if length p > 0 then
            (case qflush q of
               (Some e, q') \<Rightarrow> ((0, Some e), s\<lparr>h3_s := q'\<rparr>)
             | (None, q') \<Rightarrow> ((int (length p), None), s\<lparr>h3_s := q'\<rparr>))
          else ((int (length p), None), s\<lparr>h3_s := q\<rparr>))"

text \<open>
  \<^verbatim>\<open>Close\<close>: \<open>cerr\<close> gives what closing each resource returns (stopping the drainer
  returns nothing). \<open>released\<close> records what was let go, in order.
\<close>

definition h3Close :: "(h3res \<Rightarrow> err option) \<Rightarrow> 's h3wsStream \<Rightarrow> err option \<times> 's h3wsStream" where
  "h3Close cerr s =
     (if closeOnce s then (None, s)
      else
        (let drain = (if h3_has s PeerDrainer then [PeerDrainer] else []);
             closing = filter (h3_has s) [QStream, QConn, QEndpoint];
             closeErr = fold (\<lambda>x acc. if cerr x \<noteq> None \<and> acc = None then cerr x else acc) closing None
         in (closeErr, s\<lparr>closeOnce := True, released := released s @ drain @ closing\<rparr>)))"

text \<open>
  The meaning of a sequence of HTTP/3 frames: the concatenated payloads of the DATA frames up
  to the first thing that is not one, and the error that ends the stream there. Frames above
  \<open>cap\<close> bytes end it.
\<close>

function (sequential) h3_stream :: "nat \<Rightarrow> reader \<Rightarrow> reader" where
  "h3_stream cap r =
     (case readVarint r of
        Inl e \<Rightarrow> Reader [] e
      | Inr (ft, r1) \<Rightarrow> (case readVarint r1 of
        Inl e \<Rightarrow> Reader [] e
      | Inr (n, r2) \<Rightarrow>
          if n > cap then
            Reader [] (Msg (''h3 websocket stream protocol error: DATA frame too large: '' @ itoa n))
          else case readFull n r2 of
            Inl e \<Rightarrow> Reader [] e
          | Inr (payload, r3) \<Rightarrow>
              if ft \<noteq> h3FrameData then
                Reader [] (Msg (''h3 websocket stream protocol error: non-DATA frame type='' @ itoa ft))
              else (let t = h3_stream cap r3 in Reader (payload @ avail t) (rerr t))))"
  by pat_completeness auto
termination
  by (relation "measure (\<lambda>(c, r). length (avail r))")
    (auto dest!: readVarint_shrinks readFull_shrinks)

declare h3_stream.simps [simp del]

definition h3_contents :: "'s h3wsStream \<Rightarrow> reader" where
  "h3_contents s =
     (let t = h3_stream h3MaxDataFrameSize (h3_rd s)
      in Reader (slice_bytes (frameBuf s) (readBuf s) @ avail t) (rerr t))"

fun slice_ok :: "nat \<Rightarrow> slice \<Rightarrow> bool" where
  "slice_ok cap (OfFrameBuf off n) \<longleftrightarrow> off + n \<le> cap"
| "slice_ok cap (OwnBuf bs) \<longleftrightarrow> True"

definition h3_inv :: "'s h3wsStream \<Rightarrow> bool" where
  "h3_inv s \<longleftrightarrow> length (frameBuf s) \<le> h3FrameBufMaxRetain \<and> slice_ok (length (frameBuf s)) (readBuf s)"

section \<open>Reading delivers the payloads\<close>

lemma length_slice_bytes:
  "h3_inv s \<Longrightarrow> length (slice_bytes (frameBuf s) (readBuf s)) = slice_len (readBuf s)"
  by (cases "readBuf s") (auto simp: h3_inv_def)

lemma slice_bytes_from:
  "slice_bytes fb (slice_from k sl) = drop k (slice_bytes fb sl)"
  by (cases sl) (simp_all add: drop_take add.commute)

lemma h3_inv_from:
  "h3_inv s \<Longrightarrow> k \<le> slice_len (readBuf s) \<Longrightarrow> h3_inv (s\<lparr>readBuf := slice_from k (readBuf s)\<rparr>)"
  by (cases "readBuf s") (auto simp: h3_inv_def)

lemma length_fill [simp]: "length bs \<le> length buf \<Longrightarrow> length (fill buf bs) = length buf"
  by (simp add: fill_def)

lemma take_fill [simp]: "take (length bs) (fill buf bs) = bs"
  by (simp add: fill_def)

lemma readFull_Inl_short: "readFull n r = Inl e \<Longrightarrow> length (avail r) < n"
  by (cases r) (auto simp: readFull.simps split: if_splits)

text \<open>One turn of the loop, with the buffers abstracted away.\<close>

definition read_good :: "nat \<Rightarrow> 's h3wsStream \<Rightarrow> (err + bytes) \<times> 's h3wsStream \<Rightarrow> bool" where
  "read_good plen s rs \<longleftrightarrow> h3_inv (snd rs) \<and> h3_s (snd rs) = h3_s s \<and>
     (case fst rs of
        Inr bs \<Rightarrow> length bs \<le> plen \<and> (0 < plen \<longrightarrow> bs \<noteq> []) \<and>
          avail (h3_contents s) = bs @ avail (h3_contents (snd rs)) \<and>
          rerr (h3_contents (snd rs)) = rerr (h3_contents s)
      | Inl e \<Rightarrow> avail (h3_contents s) = [] \<and> rerr (h3_contents s) = e)"

lemma read_good_buffered:
  assumes "h3_inv s" and "slice_len (readBuf s) > 0"
  shows "read_good plen s (h3Read plen s)"
proof -
  let ?n = "min plen (slice_len (readBuf s))"
  let ?b = "slice_bytes (frameBuf s) (readBuf s)"
  have r: "h3Read plen s = (Inr (take ?n ?b), s\<lparr>readBuf := slice_from ?n (readBuf s)\<rparr>)"
    using assms(2) by (simp add: h3Read.simps [of plen s] Let_def)
  have "?b \<noteq> []"
    using length_slice_bytes [OF assms(1)] assms(2) by auto
  then show ?thesis
    using h3_inv_from [OF assms(1), of ?n] length_slice_bytes [OF assms(1)] assms(2)
    by (auto simp: r read_good_def h3_contents_def slice_bytes_from Let_def min_def)
qed

lemma read_good_cong:
  "h3_contents s = h3_contents s' \<Longrightarrow> h3_s s = h3_s s' \<Longrightarrow> read_good plen s x \<longleftrightarrow> read_good plen s' x"
  by (simp add: read_good_def split: sum.split)

lemma h3Read_good: "h3_inv s \<Longrightarrow> read_good plen s (h3Read plen s)"
proof (induction plen s rule: h3Read.induct)
  case (1 plen s)
  show ?case
  proof (cases "slice_len (readBuf s) > 0")
    case True
    with 1 show ?thesis by (simp add: read_good_buffered)
  next
    case empty: False
    then have nil: "slice_bytes (frameBuf s) (readBuf s) = []"
      using length_slice_bytes [OF 1(2)] by simp
    note step = h3Read.simps [of plen s] h3_stream.simps [of _ "h3_rd s"] nil
      read_good_def h3_contents_def Let_def
    have inv: "h3_inv (s\<lparr>h3_rd := r\<rparr>)" for r
      using 1(2) by (simp add: h3_inv_def)
    show ?thesis
    proof (cases "readVarint (h3_rd s)")
      case (Inl e)
      with empty inv show ?thesis by (simp add: step)
    next
      case (Inr x)
      then obtain ft r1 where v1: "readVarint (h3_rd s) = Inr (ft, r1)" by (cases x) simp
      show ?thesis
      proof (cases "readVarint r1")
        case (Inl e)
        with v1 empty inv show ?thesis by (simp add: step)
      next
        case (Inr x)
        then obtain n r2 where v2: "readVarint r1 = Inr (n, r2)" by (cases x) simp
        let ?fb = "if n \<le> h3FrameBufMaxRetain \<and> length (frameBuf s) < n then replicate n 0 else frameBuf s"
        show ?thesis
        proof (cases "n > h3MaxDataFrameSize")
          case True
          with v1 v2 empty inv show ?thesis by (simp add: step)
        next
          case small: False
          have fb: "length ?fb \<le> h3FrameBufMaxRetain" "n \<le> h3FrameBufMaxRetain \<Longrightarrow> n \<le> length ?fb"
            using 1(2) by (auto simp: h3_inv_def)
          have slice: "slice_ok k (readBuf s)" if "length (frameBuf s) \<le> k" for k
            using 1(2) that by (cases "readBuf s") (auto simp: h3_inv_def)
          show ?thesis
          proof (cases "readFull n r2")
            case (Inl e)
            with v1 v2 small empty fb slice readFull_Inl_short [OF Inl] show ?thesis
              by (auto simp: step h3_inv_def)
          next
            case (Inr x)
            then obtain payload r3 where v3: "readFull n r2 = Inr (payload, r3)" by (cases x) simp
            with readFull_Inr have len: "length payload = n" by blast
            let ?s1 = "s\<lparr>h3_rd := r3, frameBuf := (if n \<le> h3FrameBufMaxRetain then fill ?fb payload else ?fb)\<rparr>"
            let ?s2 = "?s1\<lparr>readBuf := (if n \<le> h3FrameBufMaxRetain then OfFrameBuf 0 n else OwnBuf payload)\<rparr>"
            show ?thesis
            proof (cases "ft = h3FrameData")
              case False
              with v1 v2 v3 small empty fb slice len show ?thesis
                by (auto simp: step h3_inv_def)
            next
              case True
              have eq: "h3Read plen s = h3Read plen ?s2"
                using v1 v2 v3 small empty True by (simp add: h3Read.simps [of plen s] Let_def)
              have inv2: "h3_inv ?s2"
                using fb len by (auto simp: h3_inv_def)
              have "h3_contents ?s2 = h3_contents s"
                using v1 v2 v3 small True len nil take_fill [of payload]
                by (simp add: h3_contents_def Let_def h3_stream.simps [of _ "h3_rd s"])
              moreover have "read_good plen ?s2 (h3Read plen ?s2)"
                using 1(1) [OF empty v1 refl v2 refl small refl refl v3 refl refl _ inv2] True by simp
              ultimately show ?thesis
                unfolding eq by (simp add: read_good_cong [of s ?s2])
            qed
          qed
        qed
      qed
    qed
  qed
qed

interpretation h3: io_reader h3Read h3_contents h3_inv
proof
  fix s :: "'s h3wsStream" and n bs s'
  assume "h3_inv s" "0 < n" "h3Read n s = (Inr bs, s')"
  then show "h3_inv s' \<and> bs \<noteq> [] \<and> length bs \<le> n \<and>
      avail (h3_contents s) = bs @ avail (h3_contents s') \<and> rerr (h3_contents s') = rerr (h3_contents s)"
    using h3Read_good [of s n] by (simp add: read_good_def)
next
  fix s :: "'s h3wsStream" and n e s'
  assume "h3_inv s" "0 < n" "h3Read n s = (Inl e, s')"
  then show "avail (h3_contents s) = [] \<and> e = rerr (h3_contents s)"
    using h3Read_good [of s n] by (simp add: read_good_def)
qed

section \<open>Writing wraps in DATA frames\<close>

lemma dataFrame_alt: "dataFrame p = appendVarint [] h3FrameData @ appendVarint [] (length p) @ p"
  using appendVarint_append [of "appendVarint [] h3FrameData" "length p"] by (simp add: dataFrame_def)

lemma dataFrame_neq_Nil [simp]: "dataFrame p \<noteq> []"
  by (simp add: dataFrame_alt appendVarint_def)

lemma length_dataFrame: "length (dataFrame p) \<le> length p + 9"
  by (simp add: dataFrame_alt length_appendVarint varint_len_def)

lemma h3_stream_dataFrame:
  assumes "length p \<le> cap" and "cap < 2 ^ 62"
  shows "h3_stream cap (Reader (dataFrame p @ zs) e) =
    (let t = h3_stream cap (Reader zs e) in Reader (p @ avail t) (rerr t))"
proof -
  have "readVarint (Reader (dataFrame p @ zs) e) =
      Inr (h3FrameData, Reader (appendVarint [] (length p) @ p @ zs) e)"
    using varint.dec_enc [of h3FrameData] by (simp add: dataFrame_alt)
  moreover have "readVarint (Reader (appendVarint [] (length p) @ p @ zs) e) =
      Inr (length p, Reader (p @ zs) e)"
    using varint.dec_enc [of "length p"] assms by simp
  ultimately show ?thesis
    using assms(1) by (simp add: h3_stream.simps [of cap "Reader (dataFrame p @ zs) e"])
qed

lemma h3_stream_dataFrames:
  assumes "\<And>p. p \<in> set ps \<Longrightarrow> length p \<le> cap" and "cap < 2 ^ 62"
  shows "h3_stream cap (Reader (concat (map dataFrame ps) @ zs) e) =
    (let t = h3_stream cap (Reader zs e) in Reader (concat ps @ avail t) (rerr t))"
  using assms
proof (induction ps)
  case (Cons p ps)
  then have "h3_stream cap (Reader (concat (map dataFrame ps) @ zs) e) =
      (let t = h3_stream cap (Reader zs e) in Reader (concat ps @ avail t) (rerr t))"
    by simp
  with Cons.prems h3_stream_dataFrame [of p cap "concat (map dataFrame ps) @ zs" e] show ?case
    by (simp add: Let_def)
qed (simp add: Let_def)

lemma h3_stream_Nil [simp]: "h3_stream cap (Reader [] e) = Reader [] e"
  by (simp add: h3_stream.simps readVarint_def readFull.simps)

lemma cap_small: "h3MaxDataFrameSize < 2 ^ 62"
  by (simp add: h3MaxDataFrameSize_def)

text \<open>
  The contract of the sending half of a QUIC stream: it is a writer, \<open>qsent\<close> being the bytes
  it has taken and \<open>qout\<close> those it has handed to the network, and flushing hands over
  everything it has taken. On top of it \<^verbatim>\<open>h3wsStream.Write\<close> is a writer again: what it has delivered is
  what a peer finds in the DATA frames.
\<close>

definition h3_whole :: "bytes \<Rightarrow> bool" where
  "h3_whole bs \<longleftrightarrow>
     (\<exists>ps. (\<forall>p \<in> set ps. length p \<le> h3MaxDataFrameSize) \<and> bs = concat (map dataFrame ps))"

definition h3_payload :: "bytes \<Rightarrow> bytes" where
  "h3_payload bs = avail (h3_stream h3MaxDataFrameSize (Reader bs EOF))"

lemma h3_whole_snoc:
  assumes "h3_whole bs" and "length p \<le> h3MaxDataFrameSize"
  shows "h3_whole (bs @ dataFrame p)" and "h3_payload (bs @ dataFrame p) = h3_payload bs @ p"
proof -
  from assms(1) obtain ps where ps: "\<And>p. p \<in> set ps \<Longrightarrow> length p \<le> h3MaxDataFrameSize"
    "bs = concat (map dataFrame ps)"
    by (auto simp: h3_whole_def)
  then have ps': "length q \<le> h3MaxDataFrameSize" if "q \<in> set (ps @ [p])" for q
    using that assms(2) by auto
  then show "h3_whole (bs @ dataFrame p)"
    unfolding h3_whole_def ps(2) by (intro exI [of _ "ps @ [p]"]) auto
  show "h3_payload (bs @ dataFrame p) = h3_payload bs @ p"
    using h3_stream_dataFrames [of ps, OF ps(1) cap_small, of "[]" EOF]
      h3_stream_dataFrames [of "ps @ [p]", OF ps' cap_small, of "[]" EOF]
    by (simp add: h3_payload_def ps(2) Let_def)
qed

lemma h3_stream_whole: "h3_whole bs \<Longrightarrow> rerr (h3_stream h3MaxDataFrameSize (Reader bs EOF)) = EOF"
  using h3_stream_dataFrames [OF _ cap_small, where zs = "[]" and e = EOF]
  by (fastforce simp: h3_whole_def Let_def)

locale quic_stream = io_writer qw qsent qgood qlim
  for qw :: "'s \<Rightarrow> bytes \<Rightarrow> (int \<times> err option) \<times> 's" and qsent qgood qlim +
  fixes qflush :: "'s \<Rightarrow> err option \<times> 's"
    and qout :: "'s \<Rightarrow> bytes"
  assumes flush_ok: "qgood s \<Longrightarrow> qflush s = (None, s') \<Longrightarrow>
      qgood s' \<and> qsent s' = qsent s \<and> qout s' = qsent s'"
    and room: "h3MaxDataFrameSize + 9 \<le> qlim"
begin

lemma h3Write_sent:
  assumes "qgood (h3_s s)" and "length p \<le> h3MaxDataFrameSize"
    and "h3Write qw qflush s p = ((n, None), s')"
  shows "n = int (length p) \<and> qgood (h3_s s') \<and> qsent (h3_s s') = qsent (h3_s s) @ dataFrame p \<and>
    (p \<noteq> [] \<longrightarrow> qout (h3_s s') = qsent (h3_s s'))"
proof -
  from assms(3) obtain q where w: "writeLoop qw (h3_s s) (dataFrame p) = (None, q)"
    and n: "n = int (length p)"
    and f: "p \<noteq> [] \<Longrightarrow> qflush q = (None, h3_s s')" "p = [] \<Longrightarrow> h3_s s' = q"
    by (auto simp: h3Write_def split: prod.splits option.splits if_splits)
  have "length (dataFrame p) \<le> qlim"
    using length_dataFrame [of p] assms(2) room by simp
  from writeLoop_sent [OF assms(1) this w] n f flush_ok [of q "h3_s s'"] show ?thesis
    by (cases "p = []") auto
qed

end

sublocale quic_stream \<subseteq> h3: io_writer "h3Write qw qflush" "\<lambda>s. h3_payload (qsent (h3_s s))"
  "\<lambda>s. qgood (h3_s s) \<and> h3_whole (qsent (h3_s s))" h3MaxDataFrameSize
proof
  fix s p n s'
  assume g: "qgood (h3_s s) \<and> h3_whole (qsent (h3_s s))" and l: "length p \<le> h3MaxDataFrameSize"
    and w: "h3Write qw qflush s p = ((n, None), s')"
  from g have q: "qgood (h3_s s)" and h: "h3_whole (qsent (h3_s s))" by simp_all
  from h3Write_sent [OF q l w] h3_whole_snoc [OF h l]
  show "(qgood (h3_s s') \<and> h3_whole (qsent (h3_s s'))) \<and> 0 \<le> n \<and> n \<le> int (length p) \<and>
      h3_payload (qsent (h3_s s')) = h3_payload (qsent (h3_s s)) @ take (nat n) p"
    by simp
qed

text \<open>
  A concrete QUIC stream for the witnesses: writes are buffered, a flush moves the buffer to
  the network, a reset stream refuses both.
\<close>

record qbuf =
  q_out :: bytes
  q_buf :: bytes
  q_reset :: bool

definition qbuf_write :: "qbuf \<Rightarrow> bytes \<Rightarrow> (int \<times> err option) \<times> qbuf" where
  "qbuf_write s p =
     (if q_reset s then ((0, Some (Env ''stream reset'')), s)
      else ((int (length p), None), s\<lparr>q_buf := q_buf s @ p\<rparr>))"

definition qbuf_flush :: "qbuf \<Rightarrow> err option \<times> qbuf" where
  "qbuf_flush s =
     (if q_reset s then (Some (Env ''stream reset''), s)
      else (None, s\<lparr>q_out := q_out s @ q_buf s, q_buf := []\<rparr>))"

interpretation qbuf: quic_stream qbuf_write "\<lambda>s. q_out s @ q_buf s" "\<lambda>s. True" goMaxAlloc qbuf_flush q_out
  by unfold_locales
    (auto simp: qbuf_write_def qbuf_flush_def h3MaxDataFrameSize_def goMaxAlloc_def split: if_splits)

section \<open>Properties\<close>

text \<open>
  C6. Reading an HTTP/3 stream: when the QUIC stream carries DATA frames of at most 64 MiB with
  payloads \<open>ps\<close>, then any further bytes, reading \<open>n\<close> bytes in full through
  \<^verbatim>\<open>h3wsStream.Read\<close> returns the first \<open>n\<close> bytes of the concatenated payloads,
  whatever the frame boundaries and although the frame buffer is reused, and leaves a stream
  whose contents are exactly what follows.
\<close>

theorem h3Read_payloads:
  assumes "h3_rd s = Reader (concat (map dataFrame ps) @ zs) e"
    and "\<And>p. p \<in> set ps \<Longrightarrow> length p \<le> h3MaxDataFrameSize"
    and "h3_inv s" and "slice_len (readBuf s) = 0" and "n \<le> length (concat ps)"
  shows "\<exists>s'. readFullLoop h3Read n [] s = Some (Inr (take n (concat ps)), s') \<and> h3_inv s' \<and>
    h3_contents s' = (let t = h3_stream h3MaxDataFrameSize (Reader zs e)
                      in Reader (drop n (concat ps) @ avail t) (rerr t))"
proof -
  let ?t = "h3_stream h3MaxDataFrameSize (Reader zs e)"
  have "slice_bytes (frameBuf s) (readBuf s) = []"
    using length_slice_bytes [OF assms(3)] assms(4) by simp
  then have c: "h3_contents s = Reader (concat ps @ avail ?t) (rerr ?t)"
    using h3_stream_dataFrames [of ps, OF assms(2) cap_small, of zs e] assms(1)
    by (simp add: h3_contents_def Let_def)
  have "readFull n (h3_contents s) =
      Inr (take n (concat ps), Reader (drop n (concat ps) @ avail ?t) (rerr ?t))"
    using assms(5) by (simp add: c readFull.simps)
  with h3.readFullLoop_readFull [OF assms(3), of n] show ?thesis
    by (simp add: Let_def)
qed

definition h3_example :: "qbuf h3wsStream" where
  "h3_example = \<lparr>h3_rd = Reader [0, 2, 10, 11, 0, 0, 0, 1, 12, 4, 0] EOF,
     h3_s = \<lparr>q_out = [], q_buf = [], q_reset = False\<rparr>, h3_has = (\<lambda>_. True),
     readBuf = OwnBuf [], frameBuf = [], closeOnce = False, released = []\<rparr>"

theorem h3Read_payloads_witness:
  "\<exists>s'. readFullLoop h3Read 3 [] h3_example = Some (Inr [10, 11, 12], s') \<and> h3_inv s'"
proof -
  have "\<exists>s'. readFullLoop h3Read 3 [] h3_example = Some (Inr (take 3 (concat [[10, 11], [], [12]])), s') \<and>
      h3_inv s' \<and> h3_contents s' = (let t = h3_stream h3MaxDataFrameSize (Reader [4, 0] EOF)
        in Reader (drop 3 (concat [[10, 11], [], [12]]) @ avail t) (rerr t))"
    by (rule h3Read_payloads)
      (auto simp: h3_example_def dataFrame_def appendVarint_def h3_inv_def h3MaxDataFrameSize_def)
  then show ?thesis by auto
qed

text \<open>
  C7. Writing an HTTP/3 stream: over every QUIC stream that keeps its contract, a successful
  \<^verbatim>\<open>h3wsStream.Write\<close> of a non-empty buffer reports its full length, has handed
  everything written so far to the network, not only to QUIC's buffer, and a peer that unwraps
  the DATA frames finds exactly the bytes of this write behind those of the earlier ones.
\<close>

theorem h3Write_delivers:
  assumes "quic_stream qw qsent qgood qlim qflush qout"
    and "qgood (h3_s s)" and "h3_whole (qsent (h3_s s))"
    and "p \<noteq> []" and "length p \<le> h3MaxDataFrameSize"
    and "h3Write qw qflush s p = ((n, None), s')"
  shows "n = int (length p) \<and> h3_whole (qout (h3_s s')) \<and> qsent (h3_s s') = qout (h3_s s') \<and>
    h3_stream h3MaxDataFrameSize (Reader (qout (h3_s s')) EOF) =
      Reader (h3_payload (qsent (h3_s s)) @ p) EOF"
proof -
  have w: "n = int (length p)" "qsent (h3_s s') = qsent (h3_s s) @ dataFrame p"
    "qout (h3_s s') = qsent (h3_s s')"
    using quic_stream.h3Write_sent [OF assms(1,2,5,6)] assms(4) by simp_all
  with h3_whole_snoc [OF assms(3,5)] show ?thesis
    by (metis h3_payload_def h3_stream_whole reader.collapse)
qed

theorem h3Write_delivers_witness:
  "h3_stream h3MaxDataFrameSize (Reader (q_out (h3_s (snd (h3Write qbuf_write qbuf_flush h3_example [7, 8])))) EOF) =
     Reader [7, 8] EOF"
proof -
  have q: "quic_stream qbuf_write (\<lambda>s. q_out s @ q_buf s) (\<lambda>s. True) goMaxAlloc qbuf_flush q_out"
    by unfold_locales
  have w: "h3Write qbuf_write qbuf_flush h3_example [7, 8] = ((2, None), snd (h3Write qbuf_write qbuf_flush h3_example [7, 8]))"
    by (simp add: h3Write_def h3_example_def writeLoop.simps qbuf_write_def qbuf_flush_def)
  have h: "h3_whole (q_out (h3_s h3_example) @ q_buf (h3_s h3_example))"
    by (auto simp: h3_example_def h3_whole_def intro: exI [of _ "[]"])
  from h3Write_delivers [OF q TrueI h _ _ w] show ?thesis
    by (simp add: h3_payload_def h3_example_def h3MaxDataFrameSize_def)
qed

end
