(* ===== verification/Ws_Over_H3.thy ===== *)
theory Ws_Over_H3
  imports Framed_Conn H3_Stream
begin

text \<open>
  The stack that \<^verbatim>\<open>dialRFC9220\<close> builds: a \<^verbatim>\<open>framedWSConn\<close> on an
  \<^verbatim>\<open>h3wsStream\<close> on a QUIC stream. What the connection writes is followed through all
  layers to the peer: the lemmas about the connection are proved once for every writer and used
  here at the writer \<^verbatim>\<open>h3wsStream.Write\<close>.
\<close>

section \<open>Definitions\<close>

definition h3_io ::
  "('s \<Rightarrow> bytes \<Rightarrow> (int \<times> err option) \<times> 's) \<Rightarrow> ('s \<Rightarrow> err option \<times> 's) \<Rightarrow>
     (h3res \<Rightarrow> err option) \<Rightarrow> 's h3wsStream rwc" where
  "h3_io qw qflush cerr = \<lparr>rwc_write = h3Write qw qflush, rwc_close = h3Close cerr\<rparr>"

text \<open>A sequence of messages written one after the other, stopping at the first error.\<close>

primrec writeMsgs ::
  "'s rwc \<Rightarrow> keysrc \<Rightarrow> 's framedWSConn \<Rightarrow> (ws_type \<times> bytes) list \<Rightarrow> err option \<times> 's framedWSConn" where
  "writeMsgs io rnd c [] = (None, c)"
| "writeMsgs io rnd c (m # ms) =
     (case conn_Write io rnd None c (fst m) (snd m) of
        (Some e, c') \<Rightarrow> (Some e, c')
      | (None, c') \<Rightarrow> writeMsgs io rnd c' ms)"

section \<open>Messages on any writer\<close>

lemma length_wire_frame: "length (wire_frame fin t (Some k) p) \<le> 10 + length k + length p"
  by (simp add: wire_frame_def wire_len_def)

context io_writer
begin

lemma conn_Write_sent:
  assumes "rwc_write io = wr" and "good (strm c)" and "rnd (keysDrawn c) = Inr key" and "length key = 4"
    and "length d + 14 \<le> lim" and "conn_Write io rnd None c t d = (None, c')"
  shows "good (strm c') \<and> sent (strm c') = sent (strm c) @ wire_frame True t (Some key) d"
proof -
  from assms(1,3,6) have "writeLoop wr (strm c) (wire_frame True t (Some key) d) = (None, strm c')"
    by (auto simp: conn_Write_def writeRaw_def buildFrame_wire_frame Let_def split: if_splits prod.splits)
  from writeLoop_sent [OF assms(2) _ this] length_wire_frame [of True t key d] assms(4,5)
  show ?thesis by simp
qed

lemma writeMsgs_sent:
  assumes "rwc_write io = wr" and "\<And>n. \<exists>key. rnd n = Inr key \<and> length key = 4"
    and "good (strm c)" and "\<And>m. m \<in> set ms \<Longrightarrow> length (snd m) + 14 \<le> lim"
    and "writeMsgs io rnd c ms = (None, c')"
  shows "\<exists>keys. (\<forall>k \<in> set keys. length k = 4) \<and> length keys = length ms \<and> good (strm c') \<and>
    sent (strm c') = sent (strm c) @
      concat (map wire_enc (map2 (\<lambda>k m. (True, fst m, Some k, snd m)) keys ms))"
  using assms(3-)
proof (induction ms arbitrary: c)
  case Nil
  then show ?case by simp
next
  case (Cons m ms)
  from Cons.prems(3) obtain c1 where c1: "conn_Write io rnd None c (fst m) (snd m) = (None, c1)"
    "writeMsgs io rnd c1 ms = (None, c')"
    by (auto split: prod.splits option.splits)
  obtain key where key: "rnd (keysDrawn c) = Inr key" "length key = 4"
    using assms(2) by blast
  have w: "good (strm c1)" "sent (strm c1) = sent (strm c) @ wire_frame True (fst m) (Some key) (snd m)"
    using conn_Write_sent [OF assms(1) Cons.prems(1) key _ c1(1)] Cons.prems(2) by simp_all
  have l: "length (snd m') + 14 \<le> lim" if "m' \<in> set ms" for m'
    using Cons.prems(2) that by simp
  obtain keys where k: "\<forall>k \<in> set keys. length k = 4" "length keys = length ms" "good (strm c')"
    "sent (strm c') = sent (strm c1) @
      concat (map wire_enc (map2 (\<lambda>k m. (True, fst m, Some k, snd m)) keys ms))"
    using Cons.IH [OF w(1) l c1(2)] by blast
  have "(\<forall>k \<in> set (key # keys). length k = 4) \<and> length (key # keys) = length (m # ms) \<and> good (strm c') \<and>
    sent (strm c') = sent (strm c) @
      concat (map wire_enc (map2 (\<lambda>k m. (True, fst m, Some k, snd m)) (key # keys) (m # ms)))"
    using key(2) k w(2) by simp
  then show ?case by blast
qed

end

lemma decode_wire_messages:
  assumes "length keys = length ms" and "\<forall>k \<in> set keys. length k = 4"
    and "\<And>m. m \<in> set ms \<Longrightarrow> length (snd m) \<le> wsMaxFrame"
  shows "decodeN (readFrame True) (length ms)
      (Reader (concat (map wire_enc (map2 (\<lambda>k m. (True, fst m, Some k, snd m)) keys ms)) @ zs) e) =
    Inr (map (\<lambda>(t, d). (t AND 0x0F, d, True)) ms, Reader zs e)"
proof -
  let ?ws = "map2 (\<lambda>k m. (True, fst m, Some k, snd m)) keys ms"
  have "wire_valid True w" if "w \<in> set ?ws" for w
    using that assms by (auto simp: wire_valid_def dest: set_zip_leftD set_zip_rightD)
  then have "decodeN (readFrame True) (length ?ws) (Reader (concat (map wire_enc ?ws) @ zs) e) =
      Inr (map wire_view ?ws, Reader zs e)"
    by (rule ws_client.decodeN_concat)
  moreover have "map wire_view ?ws = map (\<lambda>(t, d). (t AND 0x0F, d, True)) ms"
    using assms(1)
    by (induction keys ms rule: list_induct2) (auto simp: wire_view_def)
  ultimately show ?thesis using assms(1) by simp
qed

context quic_stream
begin

lemma h3_messages_decoded:
  assumes "\<And>n. \<exists>key. rnd n = Inr key \<and> length key = 4"
    and "qgood (h3_s (strm c))" and "qsent (h3_s (strm c)) = []"
    and "\<And>m. m \<in> set ms \<Longrightarrow> length (snd m) + 14 \<le> h3MaxDataFrameSize"
    and "writeMsgs (h3_io qw qflush cerr) rnd c ms = (None, c')"
  shows "qgood (h3_s (strm c')) \<and>
    decodeN (readFrame True) (length ms) (h3_stream h3MaxDataFrameSize (Reader (qsent (h3_s (strm c'))) EOF)) =
      Inr (map (\<lambda>(t, d). (t AND 0x0F, d, True)) ms, Reader [] EOF)"
proof -
  have h: "qgood (h3_s (strm c)) \<and> h3_whole (qsent (h3_s (strm c)))"
    using assms(2,3) by (auto simp: h3_whole_def intro: exI [of _ "[]"])
  have io: "rwc_write (h3_io qw qflush cerr) = h3Write qw qflush"
    by (simp add: h3_io_def)
  obtain keys where k: "\<forall>k \<in> set keys. length k = 4" "length keys = length ms"
    "qgood (h3_s (strm c'))" "h3_whole (qsent (h3_s (strm c')))"
    "h3_payload (qsent (h3_s (strm c'))) =
      concat (map wire_enc (map2 (\<lambda>k m. (True, fst m, Some k, snd m)) keys ms))"
    using h3.writeMsgs_sent [OF io assms(1) h assms(4,5)] assms(3)
    by (auto simp: h3_payload_def)
  then have "h3_stream h3MaxDataFrameSize (Reader (qsent (h3_s (strm c'))) EOF) =
      Reader (concat (map wire_enc (map2 (\<lambda>k m. (True, fst m, Some k, snd m)) keys ms)) @ []) EOF"
    by (metis append_Nil2 h3_payload_def h3_stream_whole reader.collapse)
  moreover have "length (snd m) \<le> wsMaxFrame" if "m \<in> set ms" for m
    using assms(4) [OF that] by (simp add: wsMaxFrame_def h3MaxDataFrameSize_def)
  ultimately show ?thesis
    using decode_wire_messages [OF k(2,1), of "[]" EOF] k(3) by simp
qed

end

section \<open>Properties\<close>

text \<open>
  End to end over HTTP/3: when a client writes messages on a fresh connection over any
  QUIC stream that keeps its contract and all writes succeed, then a peer that unwraps the DATA
  frames and decodes the WebSocket frames receives exactly these messages, in order, and
  nothing else.
\<close>

theorem messages_over_h3:
  assumes "quic_stream qw qsent qgood qlim qflush qout"
    and "\<And>n. \<exists>key. rnd n = Inr key \<and> length key = 4"
    and "qgood (h3_s h)" and "qsent (h3_s h) = []"
    and "\<And>m. m \<in> set ms \<Longrightarrow> length (snd m) + 14 \<le> h3MaxDataFrameSize"
    and "writeMsgs (h3_io qw qflush cerr) rnd (newFramedWSConn r h) ms = (None, c)"
  shows "decodeN (readFrame True) (length ms)
      (h3_stream h3MaxDataFrameSize (Reader (qsent (h3_s (strm c))) EOF)) =
    Inr (map (\<lambda>(t, d). (t AND 0x0F, d, True)) ms, Reader [] EOF)"
  using quic_stream.h3_messages_decoded [OF assms(1,2) _ _ assms(5,6)] assms(3,4)
  by (simp add: newFramedWSConn_def)

theorem messages_over_h3_witness:
  "decodeN (readFrame True) (Suc (Suc 0))
     (h3_stream h3MaxDataFrameSize (Reader (q_out (h3_s (strm (snd
       (writeMsgs (h3_io qbuf_write qbuf_flush (\<lambda>_. None)) (\<lambda>_. Inr [1, 2, 3, 4])
         (newFramedWSConn (Reader [] EOF) h3_example) [(2, [7, 8]), (1, [9])]))))) EOF)) =
   Inr ([(2, [7, 8], True), (1, [9], True)], Reader [] EOF)"
proof -
  let ?w = "writeMsgs (h3_io qbuf_write qbuf_flush (\<lambda>_. None)) (\<lambda>_. Inr [1, 2, 3, 4])
         (newFramedWSConn (Reader [] EOF) h3_example) [(2, [7, 8]), (1, [9])]"
  have w: "?w = (None, snd ?w)" and b: "q_buf (h3_s (strm (snd ?w))) = []"
    by (simp_all add: h3_io_def newFramedWSConn_def h3_example_def conn_Write_def writeRaw_def
        buildFrame_def frameHeader_def applyMask_def h3Write_def dataFrame_def appendVarint_def
        writeLoop.simps qbuf_write_def qbuf_flush_def)
  have q: "quic_stream qbuf_write (\<lambda>s. q_out s @ q_buf s) (\<lambda>s. True) goMaxAlloc qbuf_flush q_out"
    by unfold_locales
  have k: "\<exists>key. (\<lambda>_. Inr [1, 2, 3, 4]) n = (Inr key :: err + bytes) \<and> length key = 4" for n :: nat
    by simp
  have l: "length (snd m) + 14 \<le> h3MaxDataFrameSize" if "m \<in> set [(2, [7, 8]), (1 :: ws_type, [9 :: byte])]" for m
    using that by (auto simp: h3MaxDataFrameSize_def)
  have e: "q_out (h3_s h3_example) @ q_buf (h3_s h3_example) = []"
    by (simp add: h3_example_def)
  from messages_over_h3 [OF q k TrueI e l w] b show ?thesis
    by simp
qed

end
