(* ===== verification/H3_Qpack.thy ===== *)
theory H3_Qpack
  imports Codec
begin

text \<open>
  The minimal QPACK of \<^verbatim>\<open>internal/ws_h3_qpack_min.go\<close>: prefixed integers and strings, the
  static table, \<^verbatim>\<open>h3EncodeHeaders\<close> and \<^verbatim>\<open>h3DecodeHeaders\<close>. A
  \<^verbatim>\<open>bytes.Reader\<close> is the list of bytes not yet read. Integers are \<^verbatim>\<open>int64\<close>: the
  decoder adds shifted digits with wrap-around (\<open>i64\<close>), so an index or a length can become
  negative. Indexing and allocating with such a value panic, as in Go. The Huffman decoder of
  \<^verbatim>\<open>golang.org/x/net/http2/hpack\<close> is an argument.
\<close>

section \<open>Definitions\<close>

definition errH3QPACK :: err where
  "errH3QPACK = Sentinel ''h3 qpack decode failed''"

definition h3StaticTable :: "(string \<times> string) list" where
  "h3StaticTable =
    [('':authority'', ''''), ('':path'', ''/''), (''age'', ''0''),
     (''content-disposition'', ''''), (''content-length'', ''0''), (''cookie'', ''''),
     (''date'', ''''), (''etag'', ''''), (''if-modified-since'', ''''),
     (''if-none-match'', ''''), (''last-modified'', ''''), (''link'', ''''),
     (''location'', ''''), (''referer'', ''''), (''set-cookie'', ''''),
     ('':method'', ''CONNECT''), ('':method'', ''DELETE''), ('':method'', ''GET''),
     ('':method'', ''HEAD''), ('':method'', ''OPTIONS''), ('':method'', ''POST''),
     ('':method'', ''PUT''), ('':scheme'', ''http''), ('':scheme'', ''https''),
     ('':status'', ''103''), ('':status'', ''200''), ('':status'', ''304''),
     ('':status'', ''404''), ('':status'', ''503''), (''accept'', ''*/*''),
     (''accept'', ''application/dns-message''), (''accept-encoding'', ''gzip, deflate, br''),
     (''accept-ranges'', ''bytes''), (''access-control-allow-headers'', ''cache-control''),
     (''access-control-allow-headers'', ''content-type''),
     (''access-control-allow-origin'', ''*''), (''cache-control'', ''max-age=0''),
     (''cache-control'', ''max-age=2592000''), (''cache-control'', ''max-age=604800''),
     (''cache-control'', ''no-cache''), (''cache-control'', ''no-store''),
     (''cache-control'', ''public, max-age=31536000''), (''content-encoding'', ''br''),
     (''content-encoding'', ''gzip''), (''content-type'', ''application/dns-message''),
     (''content-type'', ''application/javascript''), (''content-type'', ''application/json''),
     (''content-type'', ''application/x-www-form-urlencoded''),
     (''content-type'', ''image/gif''), (''content-type'', ''image/jpeg''),
     (''content-type'', ''image/png''), (''content-type'', ''text/css''),
     (''content-type'', ''text/html; charset=utf-8''), (''content-type'', ''text/plain''),
     (''content-type'', ''text/plain;charset=utf-8''), (''range'', ''bytes=0-''),
     (''strict-transport-security'', ''max-age=31536000''),
     (''strict-transport-security'', ''max-age=31536000; includesubdomains''),
     (''strict-transport-security'', ''max-age=31536000; includesubdomains; preload''),
     (''vary'', ''accept-encoding''), (''vary'', ''origin''),
     (''x-content-type-options'', ''nosniff''), (''x-xss-protection'', ''1; mode=block''),
     ('':status'', ''100''), ('':status'', ''204''), ('':status'', ''206''),
     ('':status'', ''302''), ('':status'', ''400''), ('':status'', ''403''),
     ('':status'', ''421''), ('':status'', ''425''), ('':status'', ''500''),
     (''accept-language'', ''''), (''access-control-allow-credentials'', ''FALSE''),
     (''access-control-allow-credentials'', ''TRUE''), (''access-control-allow-headers'', ''*''),
     (''access-control-allow-methods'', ''get''),
     (''access-control-allow-methods'', ''get, post, options''),
     (''access-control-allow-methods'', ''options''),
     (''access-control-expose-headers'', ''content-length''),
     (''access-control-request-headers'', ''content-type''),
     (''access-control-request-method'', ''get''), (''access-control-request-method'', ''post''),
     (''alt-svc'', ''clear''), (''authorization'', ''''),
     (''content-security-policy'', ''script-src '' @ CHR 0x27 # ''none'' @ CHR 0x27 # ''; object-src '' @ CHR 0x27 #
       ''none'' @ CHR 0x27 # ''; base-uri '' @ CHR 0x27 # ''none'' @ [CHR 0x27]),
     (''early-data'', ''1''), (''expect-ct'', ''''), (''forwarded'', ''''), (''if-range'', ''''),
     (''origin'', ''''), (''purpose'', ''prefetch''), (''server'', ''''),
     (''timing-allow-origin'', ''*''), (''upgrade-insecure-requests'', ''1''),
     (''user-agent'', ''''), (''x-forwarded-for'', ''''), (''x-frame-options'', ''deny''),
     (''x-frame-options'', ''sameorigin'')]"

function appendCont :: "int \<Rightarrow> bytes" where
  "appendCont v =
     (if v \<ge> 128 then word_of_int (v mod 128 + 128) # appendCont (v div 128) else [word_of_int v])"
  by pat_completeness auto
termination
  by (relation "measure nat") auto

declare appendCont.simps [simp del]

definition appendPrefixedInt :: "bytes \<Rightarrow> byte \<Rightarrow> nat \<Rightarrow> int \<Rightarrow> bytes" where
  "appendPrefixedInt b first prefix v =
     (let m = 2 ^ prefix - 1
      in if v < m then b @ [first OR word_of_int v]
         else b @ [first OR word_of_int m] @ appendCont (v - m))"

definition appendPrefixedString :: "bytes \<Rightarrow> byte \<Rightarrow> nat \<Rightarrow> string \<Rightarrow> bytes" where
  "appendPrefixedString b first prefix s =
     appendPrefixedInt b first prefix (int (length s)) @ bytes_of s"

text \<open>
  The scan of the table for a header: the first entry with its name, and the first with name
  and value; it stops at the latter.
\<close>

fun scanTable :: "string \<Rightarrow> string \<Rightarrow> nat \<Rightarrow> (string \<times> string) list \<Rightarrow> nat option \<Rightarrow>
    nat option \<times> nat option" where
  "scanTable name val i [] idxName = (idxName, None)"
| "scanTable name val i (e # es) idxName =
     (let idxName' = (if idxName = None \<and> fst e = name then Some i else idxName)
      in if fst e = name \<and> snd e = val then (idxName', Some i)
         else scanTable name val (Suc i) es idxName')"

definition encodeLine :: "bytes \<Rightarrow> string \<times> string \<Rightarrow> bytes" where
  "encodeLine b kv =
     (let (idxName, idxNameVal) = scanTable (fst kv) (snd kv) 0 h3StaticTable None
      in case idxNameVal of
           Some i \<Rightarrow> appendPrefixedInt b (0x80 OR 0x40) 6 (int i)
         | None \<Rightarrow> (case idxName of
             Some i \<Rightarrow> appendPrefixedString (appendPrefixedInt b 0x50 4 (int i)) 0 7 (snd kv)
           | None \<Rightarrow>
               appendPrefixedString (appendPrefixedString b 0x20 3 (fst kv)) 0 7 (snd kv)))"

definition h3EncodeHeaders :: "(string \<times> string) list \<Rightarrow> bytes" where
  "h3EncodeHeaders headers = foldl encodeLine [0x00, 0x00] headers"

fun readCont :: "bytes \<Rightarrow> int \<Rightarrow> nat \<Rightarrow> err + int \<times> bytes" where
  "readCont [] v m = Inl errH3QPACK"
| "readCont (x # r) v m =
     (let v' = i64 (v + i64 (int (unat (x AND 127)) * 2 ^ m))
      in if x AND 128 = 0 then Inr (v', r) else readCont r v' (m + 7))"

definition readPrefixedIntWithFirst :: "bytes \<Rightarrow> byte \<Rightarrow> nat \<Rightarrow> err + int \<times> bytes" where
  "readPrefixedIntWithFirst r b prefix =
     (let m = push_bit prefix 1 - 1;
          v = b AND m
      in if v \<noteq> m then Inr (int (unat v), r) else readCont r (int (unat v)) 0)"

definition readPrefixedInt :: "bytes \<Rightarrow> nat \<Rightarrow> err + int \<times> bytes" where
  "readPrefixedInt r prefix =
     (case r of [] \<Rightarrow> Inl errH3QPACK | b # r' \<Rightarrow> readPrefixedIntWithFirst r' b prefix)"

definition readPrefixedStringWithFirst ::
  "(bytes \<Rightarrow> string option) \<Rightarrow> bytes \<Rightarrow> byte \<Rightarrow> nat \<Rightarrow> err + (bool \<times> string) \<times> bytes" where
  "readPrefixedStringWithFirst huffDec r b prefix =
     (let huffman = (b AND push_bit prefix 1 \<noteq> 0)
      in bindE (readPrefixedIntWithFirst r b prefix) (\<lambda>(n, r).
         bindE (makeBytes n) (\<lambda>s.
           if r = [] then Inl errH3QPACK
           else
             (let k = min (length s) (length r);
                  s' = take k r @ drop k s;
                  r' = drop k r
              in if \<not> huffman then Inr ((False, string_of s'), r')
                 else case huffDec s' of
                   None \<Rightarrow> Inl errH3QPACK
                 | Some dec \<Rightarrow> Inr ((True, dec), r')))))"

definition readPrefixedString ::
  "(bytes \<Rightarrow> string option) \<Rightarrow> bytes \<Rightarrow> nat \<Rightarrow> err + (bool \<times> string) \<times> bytes" where
  "readPrefixedString huffDec r prefix =
     (case r of [] \<Rightarrow> Inl errH3QPACK | b # r' \<Rightarrow> readPrefixedStringWithFirst huffDec r' b prefix)"

text \<open>\<^verbatim>\<open>h3StaticTable[idx]\<close> behind the guard \<^verbatim>\<open>idx >= len(h3StaticTable)\<close>.\<close>

definition tableAt :: "int \<Rightarrow> err + (string \<times> string)" where
  "tableAt idx =
     (if idx \<ge> int (length h3StaticTable) then Inl errH3QPACK
      else if idx < 0 then Inl (Panic ''runtime error: index out of range'')
      else Inr (h3StaticTable ! nat idx))"

text \<open>One field line: the entry it sets and the bytes behind it.\<close>

definition decodeLine ::
  "(bytes \<Rightarrow> string option) \<Rightarrow> byte \<Rightarrow> bytes \<Rightarrow> err + (string \<times> string) \<times> bytes" where
  "decodeLine huffDec b r =
     (if b AND 0x80 \<noteq> 0 then
        bindE (readPrefixedIntWithFirst r b 6) (\<lambda>(idx, r).
        bindE (tableAt idx) (\<lambda>e. Inr (e, r)))
      else if b AND 0xE0 = 0x40 then
        (if b AND 0x10 = 0
         then Inl (WrapPre errH3QPACK '': dynamic name reference is unsupported'')
         else bindE (readPrefixedIntWithFirst r b 4) (\<lambda>(idx, r).
              bindE (tableAt idx) (\<lambda>e.
              bindE (readPrefixedString huffDec r 7) (\<lambda>((_, val), r).
                Inr ((fst e, val), r)))))
      else if b AND 0xE0 = 0x20 then
        bindE (readPrefixedStringWithFirst huffDec r b 3) (\<lambda>((_, name), r).
        bindE (readPrefixedString huffDec r 7) (\<lambda>((_, val), r).
          Inr ((name, val), r)))
      else Inl (WrapPre errH3QPACK ('': unsupported qpack line 0x'' @ hex (unat b))))"

lemma readCont_shrinks: "readCont r v m = Inr (w, r') \<Longrightarrow> length r' \<le> length r"
  by (induction r v m rule: readCont.induct) (auto simp: Let_def split: if_splits)

lemma readInt_shrinks: "readPrefixedIntWithFirst r b p = Inr (w, r') \<Longrightarrow> length r' \<le> length r"
  by (auto simp: readPrefixedIntWithFirst_def Let_def split: if_splits dest: readCont_shrinks)

lemma readStr_shrinks:
  "readPrefixedStringWithFirst hu r b p = Inr (w, r') \<Longrightarrow> length r' \<le> length r"
  by (auto simp: readPrefixedStringWithFirst_def Let_def bindE_eq_Inr
      split: if_splits option.splits dest!: readInt_shrinks)

lemma readString_shrinks: "readPrefixedString hu r p = Inr (w, r') \<Longrightarrow> length r' \<le> length r"
  by (auto simp: readPrefixedString_def split: list.splits dest!: readStr_shrinks)

lemma decodeLine_shrinks: "decodeLine hu b r = Inr (e, r') \<Longrightarrow> length r' \<le> length r"
  by (fastforce simp: decodeLine_def bindE_eq_Inr split: if_splits
      dest: readInt_shrinks readStr_shrinks readString_shrinks)

function decodeLines ::
  "(bytes \<Rightarrow> string option) \<Rightarrow> bytes \<Rightarrow> (string \<rightharpoonup> string) \<Rightarrow> err + (string \<rightharpoonup> string)" where
  "decodeLines huffDec r h =
     (case r of
        [] \<Rightarrow> Inr h
      | b # r' \<Rightarrow> bindE (decodeLine huffDec b r') (\<lambda>(e, r''). decodeLines huffDec r'' (h(fst e \<mapsto> snd e))))"
  by pat_completeness auto
termination
  by (relation "measure (\<lambda>(hu, r, h). length r)") (auto dest!: decodeLine_shrinks)

declare decodeLines.simps [simp del]

definition h3DecodeHeaders :: "(bytes \<Rightarrow> string option) \<Rightarrow> bytes \<Rightarrow> err + (string \<rightharpoonup> string)" where
  "h3DecodeHeaders huffDec block =
     bindE (readPrefixedInt block 8) (\<lambda>(_, r).
     bindE (readPrefixedInt r 7) (\<lambda>(_, r).
       decodeLines huffDec r Map.empty))"

section \<open>Prefixed integers\<close>

lemma low7_of_int:
  assumes "0 \<le> v" and "v < 128"
  shows "unat (word_of_int v :: byte) = nat v" "(word_of_int v :: byte) AND 127 = word_of_int v"
    "(word_of_int v :: byte) AND 128 = 0"
    "(word_of_int (v + 128) :: byte) AND 127 = word_of_int v" "(word_of_int (v + 128) :: byte) AND 128 = 128"
proof -
  from assms(1) obtain n where n: "v = int n" by (rule nonneg_int_cases)
  show u: "unat (word_of_int v :: byte) = nat v"
    using assms by (simp add: n unat_of_nat)
  then have s: "unat (word_of_int v :: byte) < 128"
    using assms by simp
  have "(word_of_int (v + 128) :: byte) = word_of_int v OR 128"
    using disjunctive_add_eq_or [OF small_len_bits(2) [OF s]] by simp
  with small_len_bits [OF s] show "(word_of_int v :: byte) AND 127 = word_of_int v"
    "(word_of_int v :: byte) AND 128 = 0"
    "(word_of_int (v + 128) :: byte) AND 127 = word_of_int v" "(word_of_int (v + 128) :: byte) AND 128 = 128"
    by simp_all
qed

lemma readCont_appendCont:
  assumes "0 \<le> w" and "0 \<le> v" and "v + w * 2 ^ m < 2 ^ 63"
  shows "readCont (appendCont w @ zs) v m = Inr (v + w * 2 ^ m, zs)"
  using assms
proof (induction w arbitrary: v m rule: appendCont.induct)
  case (1 w)
  have le: "d * 2 ^ m \<le> w * 2 ^ m" if "d \<le> w" for d :: int
    using that by (intro mult_right_mono) simp_all
  have i: "i64 x = x" if "0 \<le> x" "x < 2 ^ 63" for x
    using that by (intro i64_id) (simp add: in_i64_def)
  show ?case
  proof (cases "w \<ge> 128")
    case False
    with 1(2-4) show ?thesis
      by (simp add: appendCont.simps [of w] low7_of_int i)
  next
    case True
    define d where "d = w mod 128"
    have d: "0 \<le> d" "d < 128" and w: "w = d + 128 * (w div 128)"
      by (simp_all add: d_def)
    have eq: "w * 2 ^ m = d * 2 ^ m + (w div 128) * 2 ^ (m + 7)"
      by (subst w) (simp add: algebra_simps power_add)
    moreover have "0 \<le> (w div 128) * 2 ^ (m + 7)"
      using True by simp
    ultimately have lt: "d * 2 ^ m < 2 ^ 63" "v + d * 2 ^ m < 2 ^ 63"
      "v + d * 2 ^ m + (w div 128) * 2 ^ (m + 7) < 2 ^ 63"
      using 1(3,4) by simp_all
    have nn: "0 \<le> d * 2 ^ m" using d by simp
    have "readCont (appendCont (w div 128) @ zs) (v + d * 2 ^ m) (m + 7) =
        Inr (v + d * 2 ^ m + (w div 128) * 2 ^ (m + 7), zs)"
      using True 1(3) nn lt(3) by (intro 1(1)) simp_all
    moreover have "uint (word_of_int d :: byte) = d"
      using low7_of_int(1) [OF d] d by (metis int_nat_eq uint_nat)
    ultimately show ?thesis
      using True d nn lt 1(3) eq low7_of_int(4,5) [OF d]
      by (simp add: appendCont.simps [of w] i Let_def flip: d_def)
  qed
qed

text \<open>
  A first byte: flag bits outside the \<open>p\<close>-bit prefix, and a value inside it.
\<close>

lemma prefix_bits:
  fixes first :: byte
  assumes "p < 8" and "0 \<le> v" and "v < 2 ^ p" and "first AND mask p = 0"
  shows "(first OR word_of_int v) AND mask p = word_of_int v"
    "unat (word_of_int v :: byte) = nat v"
    "mask p AND k = 0 \<Longrightarrow> (first OR word_of_int v) AND k = first AND k"
proof -
  from assms(2) obtain n where n: "v = int n" by (rule nonneg_int_cases)
  have lt: "n < 2 ^ p" using assms(3) by (simp add: n flip: of_nat_less_iff)
  also have "(2 :: nat) ^ p \<le> 2 ^ 8" using assms(1) by (intro power_increasing) simp_all
  finally have n256: "n < 256" by simp
  then show u: "unat (word_of_int v :: byte) = nat v"
    by (simp add: n unat_of_nat)
  have m: "(word_of_int v :: byte) AND mask p = word_of_int v"
    using lt n256
    by (simp flip: take_bit_eq_mask add: n word_unat_eq_iff unsigned_take_bit_eq unat_of_nat take_bit_nat_eq_self)
  then show "(first OR word_of_int v) AND mask p = word_of_int v"
    using assms(4) by (simp add: bit.conj_disj_distrib2)
  assume k: "mask p AND k = 0"
  have "(word_of_int v :: byte) AND k = (word_of_int v AND mask p) AND k"
    by (simp only: m)
  also have "\<dots> = 0" by (simp only: and.assoc k) simp
  finally show "(first OR word_of_int v) AND k = first AND k"
    by (simp add: bit.conj_disj_distrib2)
qed

text \<open>What \<^verbatim>\<open>appendPrefixedInt\<close> writes: the first byte, then the continuation.\<close>

definition firstByte :: "byte \<Rightarrow> nat \<Rightarrow> int \<Rightarrow> byte" where
  "firstByte first p v = first OR word_of_int (min v (2 ^ p - 1))"

definition contBytes :: "nat \<Rightarrow> int \<Rightarrow> bytes" where
  "contBytes p v = (if v < 2 ^ p - 1 then [] else appendCont (v - (2 ^ p - 1)))"

lemma appendPrefixedInt_alt:
  "appendPrefixedInt b first p v = b @ firstByte first p v # contBytes p v"
  by (auto simp: appendPrefixedInt_def firstByte_def contBytes_def Let_def)

lemma firstByte_flags:
  assumes "p < 8" and "0 \<le> v" and "first AND mask p = 0" and "mask p AND k = 0"
  shows "firstByte first p v AND k = first AND k"
  unfolding firstByte_def using assms by (intro prefix_bits(3)) auto

lemma readPrefixedInt_append:
  assumes "p < 8" and "0 \<le> v" and "v < 2 ^ 62" and "first AND mask p = 0"
  shows "readPrefixedIntWithFirst (contBytes p v @ zs) (firstByte first p v) p = Inr (v, zs)"
proof -
  let ?w = "min v (2 ^ p - 1)"
  have w: "0 \<le> ?w" "?w < 2 ^ p" using assms(2) by auto
  have m: "2 ^ p - 1 = (mask p :: byte)"
    by (simp add: mask_eq_exp_minus_1)
  note pb = prefix_bits [OF assms(1) w assms(4)]
  have mk: "(mask p :: byte) = word_of_int (2 ^ p - 1)"
    by (simp add: mask_eq_exp_minus_1)
  have um: "unat (mask p :: byte) = nat (2 ^ p - 1)"
    unfolding mk using prefix_bits(2) [of p "2 ^ p - 1" 0] assms(1) by simp
  have ui: "uint (word_of_int ?w :: byte) = ?w" "uint (mask p :: byte) = 2 ^ p - 1"
    using pb(2) um w(1) by (metis int_nat_eq uint_nat, simp add: uint_nat)
  have iff: "(word_of_int ?w :: byte) = mask p \<longleftrightarrow> \<not> v < 2 ^ p - 1"
    using pb(2) um w(1) by (auto simp: word_unat_eq_iff min_def)
  show ?thesis
  proof (cases "v < 2 ^ p - 1")
    case True
    with iff pb ui assms(2) show ?thesis
      by (simp add: readPrefixedIntWithFirst_def firstByte_def contBytes_def m min_def Let_def)
  next
    case False
    moreover have "(2 :: int) ^ p - 1 + (v - (2 ^ p - 1)) * 2 ^ 0 < 2 ^ 63"
      using assms(3) by simp
    ultimately show ?thesis
      using iff pb ui readCont_appendCont [of "v - (2 ^ p - 1)" "2 ^ p - 1" 0 zs]
      by (simp add: readPrefixedIntWithFirst_def firstByte_def contBytes_def m min_def Let_def)
  qed
qed

section \<open>Strings, table lookups and field lines\<close>

lemma readString_append:
  assumes "p < 8" and "length s \<le> goMaxAlloc" and "first AND mask p = 0" and "first AND 2 ^ p = 0"
  shows "readPrefixedStringWithFirst hu (contBytes p (int (length s)) @ bytes_of s @ zs)
      (firstByte first p (int (length s))) p =
    (if s = [] \<and> zs = [] then Inl errH3QPACK else Inr ((False, s), zs))"
proof -
  have n: "int (length s) < 2 ^ 62"
    using assms(2) by (simp add: goMaxAlloc_def)
  have "(mask p :: byte) AND 2 ^ p = 0"
    by (rule bit_eqI) (auto simp: bit_and_iff bit_mask_iff bit_exp_iff)
  then have f: "firstByte first p (int (length s)) AND 2 ^ p = 0"
    using firstByte_flags [OF assms(1) _ assms(3), of "int (length s)"] assms(4) by simp
  have "length (bytes_of s @ zs) = 0 \<longleftrightarrow> s = [] \<and> zs = []"
    by simp
  then have e: "bytes_of s @ zs = [] \<longleftrightarrow> s = [] \<and> zs = []"
    by blast
  show ?thesis
    using assms(2) e readPrefixedInt_append [OF assms(1) _ n assms(3), of "bytes_of s @ zs"] f
    by (simp add: readPrefixedStringWithFirst_def makeBytes_def Let_def del: append_is_Nil_conv)
qed

lemma scanTable_hit:
  "scanTable n v k es o' = (a, Some i) \<Longrightarrow> k \<le> i \<and> i < k + length es \<and> es ! (i - k) = (n, v)"
  by (induction n v k es o' rule: scanTable.induct)
    (fastforce simp: Let_def nth_Cons' split: if_splits)+

lemma scanTable_miss: "snd (scanTable n v k es o') = None \<longleftrightarrow> (n, v) \<notin> set es"
  by (induction n v k es o' rule: scanTable.induct) (auto simp: Let_def)

lemma scanTable_name:
  "scanTable n v k es None = (Some i, x) \<Longrightarrow> k \<le> i \<and> i < k + length es \<and> fst (es ! (i - k)) = n"
proof (induction es arbitrary: k)
  case Nil
  then show ?case by simp
next
  case (Cons e es)
  have keep: "fst (scanTable n v j fs (Some i')) = Some i'" for j fs i'
    by (induction fs arbitrary: j) (auto simp: Let_def)
  show ?case
  proof (cases "fst e = n")
    case True
    with Cons.prems keep [of "Suc k" es k] show ?thesis
      by (cases "snd e = v") (auto simp: Let_def)
  next
    case False
    with Cons.prems have "scanTable n v (Suc k) es None = (Some i, x)"
      by (simp add: Let_def)
    from Cons.IH [OF this] show ?thesis
      by (auto simp: nth_Cons' Suc_le_eq less_diff_conv2)
  qed
qed

lemma length_h3StaticTable: "length h3StaticTable = 99"
  by (simp add: h3StaticTable_def)

lemma tableAt_ok: "i < 99 \<Longrightarrow> tableAt (int i) = Inr (h3StaticTable ! i)"
  by (simp add: tableAt_def length_h3StaticTable)

text \<open>
  A header whose value is empty and that the static table does not hold as a whole ends in a
  string literal of length 0.
\<close>

definition emptyTail :: "string \<times> string \<Rightarrow> bool" where
  "emptyTail kv \<longleftrightarrow> snd kv = [] \<and> kv \<notin> set h3StaticTable"

lemma readPrefixedString_append:
  assumes "length s \<le> goMaxAlloc"
  shows "readPrefixedString hu (appendPrefixedString [] 0 7 s @ zs) 7 =
    (if s = [] \<and> zs = [] then Inl errH3QPACK else Inr ((False, s), zs))"
  using readString_append [of 7 s 0 hu zs] assms
  by (simp add: readPrefixedString_def appendPrefixedString_def appendPrefixedInt_alt)

lemma appendPrefixedString_append:
  "appendPrefixedString b first p s = b @ appendPrefixedString [] first p s"
  by (simp add: appendPrefixedString_def appendPrefixedInt_alt)

lemma encodeLine_append: "encodeLine b kv = b @ encodeLine [] kv"
  by (auto simp: encodeLine_def appendPrefixedString_def appendPrefixedInt_alt
      split: prod.split option.split)

lemma decodeLine_indexed:
  assumes "i < 99"
  shows "decodeLine hu (firstByte 0xC0 6 (int i)) (contBytes 6 (int i) @ zs) = Inr (h3StaticTable ! i, zs)"
proof -
  have "firstByte 0xC0 6 (int i) AND 0x80 = 0xC0 AND 0x80"
    by (rule firstByte_flags) (simp_all add: mask_eq_exp_minus_1)
  with tableAt_ok [OF assms] readPrefixedInt_append [of 6 "int i" "0xC0" zs] assms show ?thesis
    by (simp add: decodeLine_def mask_eq_exp_minus_1)
qed

lemma decodeLine_named:
  assumes "i < 99" and "length v \<le> goMaxAlloc"
  shows "decodeLine hu (firstByte 0x50 4 (int i)) (contBytes 4 (int i) @ appendPrefixedString [] 0 7 v @ zs) =
    (if v = [] \<and> zs = [] then Inl errH3QPACK else Inr ((fst (h3StaticTable ! i), v), zs))"
proof -
  have "firstByte 0x50 4 (int i) AND 0x80 = 0x50 AND 0x80" "firstByte 0x50 4 (int i) AND 0xE0 = 0x50 AND 0xE0"
    "firstByte 0x50 4 (int i) AND 0x10 = 0x50 AND 0x10"
    by (rule firstByte_flags; simp add: mask_eq_exp_minus_1)+
  with assms tableAt_ok [OF assms(1)] readPrefixedString_append [of v hu zs]
    readPrefixedInt_append [of 4 "int i" "0x50" "appendPrefixedString [] 0 7 v @ zs"]
  show ?thesis
    by (simp add: decodeLine_def mask_eq_exp_minus_1)
qed

lemma decodeLine_literal:
  assumes "length n \<le> goMaxAlloc" and "length v \<le> goMaxAlloc"
  shows "decodeLine hu (firstByte 0x20 3 (int (length n)))
      (contBytes 3 (int (length n)) @ bytes_of n @ appendPrefixedString [] 0 7 v @ zs) =
    (if v = [] \<and> zs = [] then Inl errH3QPACK else Inr ((n, v), zs))"
proof -
  have "firstByte 0x20 3 (int (length n)) AND 0x80 = 0x20 AND 0x80"
    "firstByte 0x20 3 (int (length n)) AND 0xE0 = 0x20 AND 0xE0"
    by (rule firstByte_flags; simp add: mask_eq_exp_minus_1)+
  moreover have "appendPrefixedString [] 0 7 v \<noteq> []"
    by (simp add: appendPrefixedString_def appendPrefixedInt_alt)
  ultimately show ?thesis
    using assms readString_append [of 3 n "0x20" hu "appendPrefixedString [] 0 7 v @ zs"]
      readPrefixedString_append [of v hu zs]
    by (simp add: decodeLine_def mask_eq_exp_minus_1)
qed

lemma decodeLine_encodeLine:
  assumes "length (fst kv) \<le> goMaxAlloc" and "length (snd kv) \<le> goMaxAlloc"
  shows "\<exists>b r. encodeLine [] kv = b # r \<and>
    decodeLine hu b (r @ zs) = (if emptyTail kv \<and> zs = [] then Inl errH3QPACK else Inr (kv, zs))"
proof -
  obtain n v where kv: "kv = (n, v)" by (cases kv)
  obtain a c where sc: "scanTable n v 0 h3StaticTable None = (a, c)" by (metis surj_pair)
  have miss: "emptyTail kv \<longleftrightarrow> c = None \<and> v = []"
    using sc scanTable_miss [of n v 0 h3StaticTable None] by (auto simp: emptyTail_def kv)
  note enc = encodeLine_def kv appendPrefixedInt_alt sc
  consider (hit) i where "c = Some i" | (name) i where "a = Some i" "c = None" | (lit) "a = None" "c = None"
    by (cases a; cases c) auto
  then show ?thesis
  proof cases
    case hit
    with scanTable_hit [of n v 0 h3StaticTable None a i] sc
    have "i < 99" "h3StaticTable ! i = kv"
      by (auto simp: length_h3StaticTable kv)
    with hit miss decodeLine_indexed [of i hu zs] show ?thesis
      by (simp add: enc)
  next
    case name
    with scanTable_name [of n v 0 h3StaticTable i c] sc
    have "i < 99" "fst (h3StaticTable ! i) = n"
      by (auto simp: length_h3StaticTable)
    with name miss assms(2) decodeLine_named [of i v hu zs] show ?thesis
      by (simp add: enc appendPrefixedString_append [of "_ # _"])
  next
    case lit
    with miss assms decodeLine_literal [of n v hu zs] show ?thesis
      by (simp add: enc appendPrefixedString_def [of "[]" 32] appendPrefixedString_append [of "_ # _"])
  qed
qed

lemma decodeLines_encode:
  assumes "\<And>kv. kv \<in> set hs \<Longrightarrow> length (fst kv) \<le> goMaxAlloc \<and> length (snd kv) \<le> goMaxAlloc"
  shows "decodeLines hu (concat (map (encodeLine []) hs)) h =
    (if hs \<noteq> [] \<and> emptyTail (last hs) then Inl errH3QPACK
     else Inr (foldl (\<lambda>h kv. h(fst kv \<mapsto> snd kv)) h hs))"
  using assms
proof (induction hs arbitrary: h)
  case Nil
  then show ?case by (simp add: decodeLines.simps)
next
  case (Cons kv hs)
  let ?zs = "concat (map (encodeLine []) hs)"
  obtain b r where br: "encodeLine [] kv = b # r"
    "decodeLine hu b (r @ ?zs) = (if emptyTail kv \<and> ?zs = [] then Inl errH3QPACK else Inr (kv, ?zs))"
    using decodeLine_encodeLine Cons.prems by (meson list.set_intros(1))
  have nil: "?zs = [] \<longleftrightarrow> hs = []"
  proof (cases hs)
    case (Cons kv' hs')
    with Cons.prems decodeLine_encodeLine [of kv' hu "[]"] show ?thesis by auto
  qed simp
  have "decodeLines hu ?zs (h(fst kv \<mapsto> snd kv)) = (if hs \<noteq> [] \<and> emptyTail (last hs) then Inl errH3QPACK
     else Inr (foldl (\<lambda>h kv. h(fst kv \<mapsto> snd kv)) (h(fst kv \<mapsto> snd kv)) hs))"
    by (rule Cons.IH) (use Cons.prems in simp)
  moreover have "decodeLines hu (concat (map (encodeLine []) (kv # hs))) h =
      bindE (decodeLine hu b (r @ ?zs)) (\<lambda>(e, r). decodeLines hu r (h(fst e \<mapsto> snd e)))"
    using br(1) by (simp add: decodeLines.simps [of hu "b # r @ ?zs"])
  ultimately show ?case
    using br(2) [unfolded nil] by (cases "hs = []") (simp_all del: fun_upd_apply)
qed

lemma h3EncodeHeaders_alt: "h3EncodeHeaders hs = 0 # 0 # concat (map (encodeLine []) hs)"
proof -
  have "foldl encodeLine b hs = b @ concat (map (encodeLine []) hs)" for b
  proof (induction hs arbitrary: b)
    case (Cons kv hs)
    then show ?case using encodeLine_append [of b kv] by simp
  qed simp
  then show ?thesis by (simp add: h3EncodeHeaders_def)
qed

lemma foldl_upd_map_of: "foldl (\<lambda>h kv. h(fst kv \<mapsto> snd kv)) h hs = h ++ map_of (rev hs)"
  by (induction hs arbitrary: h) (auto simp: map_add_def fun_eq_iff split: option.split)

section \<open>Properties\<close>

text \<open>
  C9. Header round trip, exactly: decoding what \<^verbatim>\<open>h3EncodeHeaders\<close> wrote gives back the
  headers (the last one of a name wins), for all names and values a Go program can hold and
  whichever of indexed line, static name reference or literal each header was written as, with
  one exception: when the last header has an empty value and is not an entry of the static
  table, \<^verbatim>\<open>h3DecodeHeaders\<close> rejects the block.
\<close>

theorem qpack_roundtrip:
  assumes "\<And>kv. kv \<in> set hs \<Longrightarrow> length (fst kv) \<le> goMaxAlloc \<and> length (snd kv) \<le> goMaxAlloc"
  shows "h3DecodeHeaders huffDec (h3EncodeHeaders hs) =
    (if hs \<noteq> [] \<and> emptyTail (last hs) then Inl errH3QPACK else Inr (map_of (rev hs)))"
proof -
  have "h3DecodeHeaders huffDec (h3EncodeHeaders hs) =
      decodeLines huffDec (concat (map (encodeLine []) hs)) Map.empty"
    by (simp add: h3DecodeHeaders_def h3EncodeHeaders_alt readPrefixedInt_def
        readPrefixedIntWithFirst_def)
  with decodeLines_encode [of hs huffDec Map.empty] assms show ?thesis
    by (simp add: foldl_upd_map_of)
qed

theorem qpack_roundtrip_witness:
  "h3DecodeHeaders (\<lambda>_. None) (h3EncodeHeaders [('':status'', ''200''), (''x-a'', ''b'')]) =
     Inr ['':status'' \<mapsto> ''200'', ''x-a'' \<mapsto> ''b''] \<and>
   h3DecodeHeaders (\<lambda>_. None) (h3EncodeHeaders [('':status'', ''200''), (''x-a'', [])]) = Inl errH3QPACK"
proof -
  have l: "length (fst kv) \<le> goMaxAlloc \<and> length (snd kv) \<le> goMaxAlloc"
    if "kv \<in> set [('':status'', ''200''), (''x-a'', v)]" and "length v \<le> 1" for kv v
    using that by (auto simp: goMaxAlloc_def)
  show ?thesis
    using qpack_roundtrip [of "[('':status'', ''200''), (''x-a'', ''b'')]", OF l]
      qpack_roundtrip [of "[('':status'', ''200''), (''x-a'', [])]", OF l]
    by (simp add: emptyTail_def h3StaticTable_def fun_upd_twist)
qed

text \<open>
  A truncated header block is not detected: a literal line whose value announces \<open>N\<close>
  bytes but of which only the first few, at least one, are present, is accepted, and the value
  is those bytes padded with zero bytes up to \<open>N\<close> (the result of \<^verbatim>\<open>r.Read\<close> is not
  compared with the length asked for).
\<close>

theorem qpack_truncated_value_padded:
  assumes "length n \<le> goMaxAlloc" and "v \<noteq> []" and "length v \<le> N" and "N \<le> goMaxAlloc"
  shows "h3DecodeHeaders huffDec
      ([0, 0] @ appendPrefixedString [] 0x20 3 n @ appendPrefixedInt [] 0 7 (int N) @ bytes_of v) =
    Inr [n \<mapsto> v @ replicate (N - length v) (CHR 0x00)]"
proof -
  let ?val = "appendPrefixedInt [] 0 7 (int N) @ bytes_of v"
  have fl: "firstByte 0x20 3 (int (length n)) AND 0x80 = 0x20 AND 0x80"
    "firstByte 0x20 3 (int (length n)) AND 0xE0 = 0x20 AND 0xE0"
    by (rule firstByte_flags; simp add: mask_eq_exp_minus_1)+
  have hf: "firstByte 0 7 (int N) AND 128 = 0 AND 128"
    by (rule firstByte_flags) (simp_all add: mask_eq_exp_minus_1)
  have z: "string_of (replicate k 0) = replicate k (CHR 0x00)" for k
    by (simp add: string_of_def char_of_def)
  have sp: "string_of (bytes_of v @ replicate k 0) = v @ replicate k (CHR 0x00)" for k
    using z [of k] by (simp add: string_of_def) (metis string_of_bytes_of string_of_def)
  have "bytes_of v \<noteq> []" using assms(2) by (metis length_0_conv length_bytes_of)
  then have val: "readPrefixedString huffDec ?val 7 =
      Inr ((False, v @ replicate (N - length v) (CHR 0x00)), [])"
    using assms(3,4) readPrefixedInt_append [of 7 "int N" 0 "bytes_of v"] hf sp
    by (simp add: readPrefixedString_def readPrefixedStringWithFirst_def appendPrefixedInt_alt
        makeBytes_def goMaxAlloc_def Let_def min_def)
  have name: "readPrefixedStringWithFirst huffDec (contBytes 3 (int (length n)) @ bytes_of n @ ?val)
      (firstByte 0x20 3 (int (length n))) 3 = Inr ((False, n), ?val)"
    using readString_append [of 3 n "0x20" huffDec ?val] assms(1)
    by (simp add: mask_eq_exp_minus_1 appendPrefixedInt_alt)
  have "decodeLine huffDec (firstByte 0x20 3 (int (length n)))
      (contBytes 3 (int (length n)) @ bytes_of n @ ?val) =
      Inr ((n, v @ replicate (N - length v) (CHR 0x00)), [])"
    using fl name val by (simp add: decodeLine_def)
  then show ?thesis
    by (simp add: h3DecodeHeaders_def readPrefixedInt_def readPrefixedIntWithFirst_def
        appendPrefixedString_def appendPrefixedInt_alt [of "[]" 32] decodeLines.simps)
qed

theorem qpack_truncated_value_padded_witness:
  "h3DecodeHeaders (\<lambda>_. None) [0, 0, 0x21, 0x61, 3, 0x62] =
     Inr [''a'' \<mapsto> [CHR ''b'', CHR 0x00, CHR 0x00]]"
proof -
  have "(3 :: nat) \<le> goMaxAlloc" "length ''a'' \<le> goMaxAlloc"
    by (simp_all add: goMaxAlloc_def)
  from qpack_truncated_value_padded [OF this(2) _ _ this(1), of "''b''" "\<lambda>_. None"] show ?thesis
    by (simp add: appendPrefixedString_def appendPrefixedInt_def bytes_of_def numeral_2_eq_2)
qed

text \<open>
  A peer can crash the client: an indexed line whose index is encoded in nine continuation
  bytes overflows \<^verbatim>\<open>int64\<close> to a negative number, passes the guard against the table's
  length, and indexing the table panics.
\<close>

theorem qpack_negative_index_panics:
  "h3DecodeHeaders huffDec
     [0, 0, 0xFF, 0x80, 0x80, 0x80, 0x80, 0x80, 0x80, 0x80, 0x80, 0x80, 0x01] =
   Inl (Panic ''runtime error: index out of range'')"
  by (simp add: h3DecodeHeaders_def readPrefixedInt_def readPrefixedIntWithFirst_def
      decodeLines.simps decodeLine_def tableAt_def length_h3StaticTable i64_def)

end
