(* ===== verification/H3_Control.thy ===== *)
theory H3_Control
  imports H3_Stream H3_Qpack
begin

text \<open>
  The HTTP/3 control plane of \<^verbatim>\<open>internal/ws_h3.go\<close>: what is remembered of the peer's
  SETTINGS (\<^verbatim>\<open>h3PeerObservations\<close>), reading the peer's control stream and the response
  headers, opening the client's own unidirectional streams, and the hint given when a peer
  refuses Extended CONNECT. A QUIC connection is a state with its operations as arguments:
  \<open>newUni\<close> opens a send-only stream, \<open>qw i\<close> and \<open>qflush i\<close> write to and flush stream
  \<open>i\<close>. Log output is left out, and with it the formatted form of the settings.
\<close>

section \<open>Definitions\<close>

definition h3StreamControl :: nat where [simp]: "h3StreamControl = 0x0"
definition h3StreamQpackEncoder :: nat where [simp]: "h3StreamQpackEncoder = 0x2"
definition h3StreamQpackDecoder :: nat where [simp]: "h3StreamQpackDecoder = 0x3"
definition h3SettingEnableConnectProtocol :: nat where [simp]: "h3SettingEnableConnectProtocol = 0x08"
definition h3ErrorMessage :: nat where [simp]: "h3ErrorMessage = 0x10e"

datatype h3ClientStreamProfile = h3ClientStreamsControlAndQPACK | h3ClientStreamsControlOnly

subsection \<open>Observations of the peer\<close>

text \<open>\<open>settingsSeen\<close> is whether the channel of that name is closed.\<close>

record h3PeerObservations =
  sawSettings :: bool
  enableConnectProtocol :: bool
  settingsSeen :: bool

definition newH3PeerObservations :: h3PeerObservations where
  "newH3PeerObservations = \<lparr>sawSettings = False, enableConnectProtocol = False, settingsSeen = False\<rparr>"

text \<open>
  \<^verbatim>\<open>setSettings\<close> in its two steps: the part under the lock, which also tells whether the
  caller has to close the channel, and the close, which panics on a closed channel.
\<close>

definition setLocked :: "bool \<Rightarrow> h3PeerObservations \<Rightarrow> bool \<times> h3PeerObservations" where
  "setLocked en ob = (\<not> sawSettings ob, ob\<lparr>sawSettings := True, enableConnectProtocol := en\<rparr>)"

definition closeSeen :: "h3PeerObservations \<Rightarrow> err + h3PeerObservations" where
  "closeSeen ob =
     (if settingsSeen ob then Inl (Panic ''close of closed channel'')
      else Inr (ob\<lparr>settingsSeen := True\<rparr>))"

definition setSettings :: "bool \<Rightarrow> h3PeerObservations \<Rightarrow> err + h3PeerObservations" where
  "setSettings en ob = (let (first, ob') = setLocked en ob in if first then closeSeen ob' else Inr ob')"

definition snapshot :: "h3PeerObservations \<Rightarrow> bool \<times> bool" where
  "snapshot ob = (sawSettings ob, enableConnectProtocol ob)"

text \<open>
  Concurrent callers of \<^verbatim>\<open>setSettings\<close> (one per control stream the peer opens), as steps
  on the observations, the number of callers between the two steps, and whether one panicked.
\<close>

inductive obs_step :: "h3PeerObservations \<times> nat \<times> bool \<Rightarrow> h3PeerObservations \<times> nat \<times> bool \<Rightarrow> bool" where
  lock: "setLocked en ob = (first, ob') \<Longrightarrow>
    obs_step (ob, k, p) (ob', (if first then Suc k else k), p)"
| close: "closeSeen ob = Inr ob' \<Longrightarrow> obs_step (ob, Suc k, p) (ob', k, p)"
| panic: "closeSeen ob = Inl e \<Longrightarrow> obs_step (ob, Suc k, p) (ob, k, True)"

inductive_cases obs_stepE: "obs_step s t"

subsection \<open>The peer's control stream\<close>

text \<open>
  \<^verbatim>\<open>h3ParseSettingsPayload\<close>: the flag and the settings by name; at most 32 entries are
  looked at and the first that does not decode ends the loop.
\<close>

definition settingName :: "nat \<Rightarrow> string" where
  "settingName ident =
     (if ident = h3SettingEnableConnectProtocol then ''ENABLE_CONNECT_PROTOCOL(0x8)'' else ''0x'' @ hex ident)"

fun parseSettings ::
  "nat \<Rightarrow> reader \<Rightarrow> bool \<Rightarrow> (string \<rightharpoonup> string) \<Rightarrow> bool \<times> (string \<rightharpoonup> string)" where
  "parseSettings 0 r enable out = (enable, out)"
| "parseSettings (Suc left) r enable out =
     (if avail r = [] then (enable, out)
      else case readVarint r of
        Inl e \<Rightarrow> (enable, out)
      | Inr (ident, r1) \<Rightarrow> (case readVarint r1 of
          Inl e \<Rightarrow> (enable, out)
        | Inr (val, r2) \<Rightarrow>
            parseSettings left r2
              (if ident = h3SettingEnableConnectProtocol then val = 1 else enable)
              (out(settingName ident \<mapsto> itoa val))))"

definition h3ParseSettingsPayload :: "bytes \<Rightarrow> bool \<times> (string \<rightharpoonup> string)" where
  "h3ParseSettingsPayload payload =
     (if payload = [] then (False, Map.empty) else parseSettings 32 (Reader payload EOF) False Map.empty)"

text \<open>
  \<^verbatim>\<open>h3LogPeerControlStream\<close>: up to eight frames; an \<open>Inl\<close> result is a panic, which ends
  the process.
\<close>

fun controlFrames ::
  "nat \<Rightarrow> reader \<Rightarrow> h3PeerObservations option \<Rightarrow> err + h3PeerObservations option" where
  "controlFrames 0 r obs = Inr obs"
| "controlFrames (Suc left) r obs =
     (case readVarint r of
        Inl e \<Rightarrow> Inr obs
      | Inr (ft, r1) \<Rightarrow> (case readVarint r1 of
          Inl e \<Rightarrow> Inr obs
        | Inr (n, r2) \<Rightarrow>
            bindE (makeBytes (int n)) (\<lambda>_.
              case readFull n r2 of
                Inl e \<Rightarrow> Inr obs
              | Inr (payload, r3) \<Rightarrow>
                  if ft = h3FrameSettings then
                    (case obs of
                       None \<Rightarrow> controlFrames left r3 None
                     | Some ob \<Rightarrow>
                         bindE (setSettings (fst (h3ParseSettingsPayload payload)) ob)
                           (\<lambda>ob'. controlFrames left r3 (Some ob')))
                  else controlFrames left r3 obs)))"

definition h3LogPeerControlStream ::
  "reader \<Rightarrow> h3PeerObservations option \<Rightarrow> err + h3PeerObservations option" where
  "h3LogPeerControlStream r obs = controlFrames 8 r obs"

text \<open>
  One stream accepted by \<^verbatim>\<open>startH3PeerStreamDrainer\<close>: a unidirectional stream of type
  control is read by \<^verbatim>\<open>h3LogPeerControlStream\<close>, every other one is discarded.
\<close>

definition drainPeerStream ::
  "bool \<Rightarrow> reader \<Rightarrow> h3PeerObservations option \<Rightarrow> err + h3PeerObservations option" where
  "drainPeerStream readOnly r obs =
     (if readOnly then
        (case readVarint r of
           Inr (typ, r') \<Rightarrow> if typ = h3StreamControl then h3LogPeerControlStream r' obs else Inr obs
         | Inl e \<Rightarrow> Inr obs)
      else Inr obs)"

subsection \<open>Response headers\<close>

function (sequential) h3ReadResponseHeaders ::
  "(bytes \<Rightarrow> string option) \<Rightarrow> reader \<Rightarrow> err + (string \<rightharpoonup> string)" where
  "h3ReadResponseHeaders huffDec r =
     (case readVarint r of
        Inl e \<Rightarrow> Inl e
      | Inr (ft, r1) \<Rightarrow> (case readVarint r1 of
          Inl e \<Rightarrow> Inl e
        | Inr (n, r2) \<Rightarrow>
            bindE (makeBytes (int n)) (\<lambda>_.
              case readFull n r2 of
                Inl e \<Rightarrow> Inl e
              | Inr (buf, r3) \<Rightarrow>
                  if ft = h3FrameHeaders then h3DecodeHeaders huffDec buf
                  else h3ReadResponseHeaders huffDec r3)))"
  by pat_completeness auto
termination
  by (relation "measure (\<lambda>(h, r). length (avail r))")
    (auto dest!: readVarint_shrinks readFull_shrinks)

declare h3ReadResponseHeaders.simps [simp del]

subsection \<open>Writing under a context, the client's streams\<close>

text \<open>
  \<^verbatim>\<open>h3WriteWithContext\<close>: the context is asked before every write; \<open>k\<close> counts the
  questions, so that the answers of one call follow those of the calls before it.
\<close>

function (sequential) h3WriteWithContext ::
  "(nat \<Rightarrow> err option) \<Rightarrow> nat \<Rightarrow> ('c \<Rightarrow> bytes \<Rightarrow> (int \<times> err option) \<times> 'c) \<Rightarrow> 'c \<Rightarrow> bytes \<Rightarrow>
     err option \<times> nat \<times> 'c" where
  "h3WriteWithContext ctx k wr c remaining =
     (if remaining = [] then (None, k, c)
      else case ctx k of
        Some e \<Rightarrow>
          (Some (if errors_Is e DeadlineExceeded then Msg ''h3 write timeout'' else e), Suc k, c)
      | None \<Rightarrow>
          (case wr c remaining of ((n, e), c') \<Rightarrow>
             (case e of
                Some e' \<Rightarrow> (Some e', Suc k, c')
              | None \<Rightarrow>
                  if n \<le> 0 then (Some ErrShortWrite, Suc k, c')
                  else if n > int (length remaining)
                  then (Some (Panic ''slice bounds out of range''), Suc k, c')
                  else h3WriteWithContext ctx (Suc k) wr c' (drop (nat n) remaining))))"
  by pat_completeness auto
termination
  by (relation "measure (\<lambda>(ctx, k, wr, c, remaining). length remaining)") auto

declare h3WriteWithContext.simps [simp del]

text \<open>A run of \<^verbatim>\<open>if err := h3WriteWithContext(...); err != nil { return err }\<close>.\<close>

fun writeAll ::
  "(nat \<Rightarrow> err option) \<Rightarrow> nat \<Rightarrow> ('c \<Rightarrow> bytes \<Rightarrow> (int \<times> err option) \<times> 'c) \<Rightarrow> 'c \<Rightarrow> bytes list \<Rightarrow>
     err option \<times> nat \<times> 'c" where
  "writeAll ctx k wr c [] = (None, k, c)"
| "writeAll ctx k wr c (b # bs) =
     (case h3WriteWithContext ctx k wr c b of
        (Some e, k', c') \<Rightarrow> (Some e, k', c')
      | (None, k', c') \<Rightarrow> writeAll ctx k' wr c' bs)"

text \<open>Open one send-only stream, write the given pieces to it, flush it.\<close>

definition openUni ::
  "(nat \<Rightarrow> err option) \<Rightarrow> nat \<Rightarrow> ('c \<Rightarrow> (err + nat) \<times> 'c) \<Rightarrow>
     (nat \<Rightarrow> 'c \<Rightarrow> bytes \<Rightarrow> (int \<times> err option) \<times> 'c) \<Rightarrow> (nat \<Rightarrow> 'c \<Rightarrow> err option \<times> 'c) \<Rightarrow>
     'c \<Rightarrow> bytes list \<Rightarrow> err option \<times> nat \<times> 'c" where
  "openUni ctx k newUni qw qflush c pieces =
     (case newUni c of
        (Inl e, c1) \<Rightarrow> (Some e, k, c1)
      | (Inr st, c1) \<Rightarrow>
          (case writeAll ctx k (qw st) c1 pieces of
             (Some e, k', c2) \<Rightarrow> (Some e, k', c2)
           | (None, k', c2) \<Rightarrow> (None, k', snd (qflush st c2))))"

definition clientSettings :: bytes where
  "clientSettings = appendVarint (appendVarint [] h3SettingEnableConnectProtocol) 1"

definition controlPieces :: "bytes list" where
  "controlPieces =
     [appendVarint [] h3StreamControl, appendVarint [] h3FrameSettings,
      appendVarint [] (length clientSettings), clientSettings]"

definition h3OpenClientUniStreams ::
  "(nat \<Rightarrow> err option) \<Rightarrow> nat \<Rightarrow> ('c \<Rightarrow> (err + nat) \<times> 'c) \<Rightarrow>
     (nat \<Rightarrow> 'c \<Rightarrow> bytes \<Rightarrow> (int \<times> err option) \<times> 'c) \<Rightarrow> (nat \<Rightarrow> 'c \<Rightarrow> err option \<times> 'c) \<Rightarrow>
     'c \<Rightarrow> h3ClientStreamProfile \<Rightarrow> err option \<times> nat \<times> 'c" where
  "h3OpenClientUniStreams ctx k newUni qw qflush c profile =
     (case openUni ctx k newUni qw qflush c controlPieces of
        (Some e, k1, c1) \<Rightarrow> (Some e, k1, c1)
      | (None, k1, c1) \<Rightarrow>
          if profile = h3ClientStreamsControlOnly then (None, k1, c1)
          else (case openUni ctx k1 newUni qw qflush c1 [appendVarint [] h3StreamQpackEncoder] of
             (Some e, k2, c2) \<Rightarrow> (Some e, k2, c2)
           | (None, k2, c2) \<Rightarrow>
               openUni ctx k2 newUni qw qflush c2 [appendVarint [] h3StreamQpackDecoder]))"

subsection \<open>The hint for a peer without Extended CONNECT\<close>

text \<open>
  \<open>asCode\<close> recognises a \<^verbatim>\<open>quic.StreamErrorCode\<close> among the errors of a chain. The
  observations are those at the time of the snapshot, after the bounded wait for SETTINGS.
\<close>


fun err_chain :: "err \<Rightarrow> err list" where
  "err_chain (Wrap p e) = Wrap p e # err_chain e"
| "err_chain (WrapPre e s) = WrapPre e s # err_chain e"
| "err_chain e = [e]"

definition h3PeerSupportHint ::
  "(err \<Rightarrow> nat option) \<Rightarrow> err \<Rightarrow> h3PeerObservations option \<Rightarrow> string" where
  "h3PeerSupportHint asCode e obs =
     (case obs of
        None \<Rightarrow> []
      | Some ob \<Rightarrow>
          if \<not> list_ex (\<lambda>u. asCode u = Some h3ErrorMessage) (err_chain e) then []
          else (let (saw, enable) = snapshot ob
                in if \<not> saw \<or> enable then []
                   else ''peer SETTINGS missing ENABLE_CONNECT_PROTOCOL=1 (enable RFC9220 Extended CONNECT on proxy, or remove h3=only for h1/h2 fallback)''))"

section \<open>Settings and control frames\<close>

definition encSettings :: "(nat \<times> nat) list \<Rightarrow> bytes" where
  "encSettings kvs = concat (map (\<lambda>(i, v). appendVarint [] i @ appendVarint [] v) kvs)"

definition h3Frame :: "nat \<times> bytes \<Rightarrow> bytes" where
  "h3Frame f = appendVarint [] (fst f) @ appendVarint [] (length (snd f)) @ snd f"

lemma readVarint_enc [simp]:
  "v < 4611686018427387904 \<Longrightarrow> readVarint (Reader (appendVarint [] v @ zs) e) = Inr (v, Reader zs e)"
  using varint.dec_enc [of v zs e] by simp

lemma appendVarint_neq_Nil [simp]: "appendVarint b v \<noteq> []"
  by (simp add: appendVarint_def)

lemma parseSettings_enc:
  assumes "\<And>i v. (i, v) \<in> set kvs \<Longrightarrow> i < 2 ^ 62 \<and> v < 2 ^ 62" and "length kvs \<le> k"
  shows "fst (parseSettings k (Reader (encSettings kvs) e) en out) =
    (case map_of (rev kvs) h3SettingEnableConnectProtocol of None \<Rightarrow> en | Some v \<Rightarrow> v = 1)"
  using assms
proof (induction kvs arbitrary: k en out)
  case Nil
  then show ?case by (cases k) (simp_all add: encSettings_def)
next
  case (Cons kv kvs)
  obtain i v where kv: "kv = (i, v)" by (cases kv)
  from Cons.prems(2) obtain k' where k: "k = Suc k'" "length kvs \<le> k'" by (cases k) auto
  have iv: "i < 2 ^ 62" "v < 2 ^ 62" using Cons.prems(1) kv by auto
  have "fst (parseSettings k (Reader (encSettings (kv # kvs)) e) en out) =
      fst (parseSettings k' (Reader (encSettings kvs) e)
        (if i = h3SettingEnableConnectProtocol then v = 1 else en) (out(settingName i \<mapsto> itoa v)))"
    using iv by (simp add: k(1) kv encSettings_def)
  also have "\<dots> = (case map_of (rev kvs) h3SettingEnableConnectProtocol of
      None \<Rightarrow> (if i = h3SettingEnableConnectProtocol then v = 1 else en) | Some v \<Rightarrow> v = 1)"
    by (rule Cons.IH) (use Cons.prems(1) k(2) in auto)
  finally show ?case
    by (simp add: kv map_add_def split: option.split)
qed

lemma h3ParseSettings_enc:
  assumes "\<And>i v. (i, v) \<in> set kvs \<Longrightarrow> i < 2 ^ 62 \<and> v < 2 ^ 62" and "length kvs \<le> 32"
  shows "fst (h3ParseSettingsPayload (encSettings kvs)) \<longleftrightarrow>
    map_of (rev kvs) h3SettingEnableConnectProtocol = Some 1"
proof (cases "encSettings kvs = []")
  case True
  then have "kvs = []" by (cases kvs) (auto simp: encSettings_def)
  with True show ?thesis by (simp add: h3ParseSettingsPayload_def)
next
  case False
  with parseSettings_enc [OF assms] show ?thesis
    by (auto simp: h3ParseSettingsPayload_def split: option.split)
qed

lemma setSettings_ok:
  "settingsSeen ob \<longleftrightarrow> sawSettings ob \<Longrightarrow>
     setSettings en ob = Inr \<lparr>sawSettings = True, enableConnectProtocol = en, settingsSeen = True\<rparr>"
  by (cases ob) (auto simp: setSettings_def setLocked_def closeSeen_def)

text \<open>What a control stream of whole frames leaves in the observations.\<close>

fun observed :: "(nat \<times> bytes) list \<Rightarrow> h3PeerObservations \<Rightarrow> h3PeerObservations" where
  "observed [] ob = ob"
| "observed ((ft, p) # fs) ob =
     observed fs (if ft = h3FrameSettings
                  then \<lparr>sawSettings = True, enableConnectProtocol = fst (h3ParseSettingsPayload p),
                        settingsSeen = True\<rparr>
                  else ob)"

lemma controlFrames_observed:
  assumes "\<And>ft p. (ft, p) \<in> set fs \<Longrightarrow> ft < 2 ^ 62 \<and> length p \<le> goMaxAlloc" and "length fs \<le> k"
    and "settingsSeen ob \<longleftrightarrow> sawSettings ob"
  shows "controlFrames k (Reader (concat (map h3Frame fs)) EOF) (Some ob) = Inr (Some (observed fs ob))"
  using assms
proof (induction fs arbitrary: k ob)
  case Nil
  then show ?case
    by (cases k) (simp_all add: readVarint_def readFull.simps)
next
  case (Cons f fs)
  obtain ft p where f: "f = (ft, p)" by (cases f)
  from Cons.prems(2) obtain k' where k: "k = Suc k'" "length fs \<le> k'" by (cases k) auto
  have b: "ft < 2 ^ 62" "length p \<le> goMaxAlloc" using Cons.prems(1) f by auto
  then have l: "length p < 2 ^ 62" by (simp add: goMaxAlloc_def)
  have IH: "controlFrames k' (Reader (concat (map h3Frame fs)) EOF) (Some ob') = Inr (Some (observed fs ob'))"
    if "settingsSeen ob' \<longleftrightarrow> sawSettings ob'" for ob'
    by (rule Cons.IH) (use Cons.prems(1) k(2) that in auto)
  show ?case
    using b l Cons.prems(3)
    by (simp add: k(1) f h3Frame_def [of "(ft, p)"] makeBytes_def IH setSettings_ok)
qed

section \<open>Writing to the client's streams\<close>

lemma h3WriteWithContext_writeLoop:
  "h3WriteWithContext ctx k wr c b = (None, k', c') \<Longrightarrow> writeLoop wr c b = (None, c')"
proof (induction ctx k wr c b rule: h3WriteWithContext.induct)
  case (1 ctx k wr c b)
  obtain n e c1 where w: "wr c b = ((n, e), c1)" by (metis surj_pair)
  show ?case
  proof (cases "b = []")
    case True
    with 1(2) show ?thesis by (simp add: h3WriteWithContext.simps writeLoop.simps)
  next
    case False
    with 1(2) w have "ctx k = None" "e = None" "\<not> n \<le> 0" "\<not> n > int (length b)"
      "h3WriteWithContext ctx (Suc k) wr c1 (drop (nat n) b) = (None, k', c')"
      by (auto simp: h3WriteWithContext.simps [of ctx k wr c b] split: option.splits if_splits)
    with 1(1) [OF False this(1) w [symmetric] refl] w False show ?thesis
      by (simp add: writeLoop.simps [of wr c b])
  qed
qed


text \<open>
  The contract of a QUIC connection: a new stream is empty and different from the open ones, a
  write to an open stream appends a prefix of its argument to that stream and touches no
  other, a flush changes nothing that was written.
\<close>

locale quic_conn =
  fixes newUni :: "'c \<Rightarrow> (err + nat) \<times> 'c"
    and qw :: "nat \<Rightarrow> 'c \<Rightarrow> bytes \<Rightarrow> (int \<times> err option) \<times> 'c"
    and qflush :: "nat \<Rightarrow> 'c \<Rightarrow> err option \<times> 'c"
    and opened :: "'c \<Rightarrow> nat set"
    and sentOn :: "nat \<Rightarrow> 'c \<Rightarrow> bytes"
  assumes new_ok: "newUni c = (Inr i, c') \<Longrightarrow>
      i \<notin> opened c \<and> opened c' = insert i (opened c) \<and> sentOn i c' = [] \<and>
      (\<forall>j \<in> opened c. sentOn j c' = sentOn j c)"
    and qw_ok: "i \<in> opened c \<Longrightarrow> length p \<le> goMaxAlloc \<Longrightarrow> qw i c p = ((n, None), c') \<Longrightarrow>
      0 \<le> n \<and> n \<le> int (length p) \<and> sentOn i c' = sentOn i c @ take (nat n) p \<and>
      opened c' = opened c \<and> (\<forall>j \<in> opened c. j \<noteq> i \<longrightarrow> sentOn j c' = sentOn j c)"
    and flush_keeps: "qflush i c = (e, c') \<Longrightarrow>
      opened c' = opened c \<and> (\<forall>j \<in> opened c. sentOn j c' = sentOn j c)"
begin

text \<open>Seen from one stream \<open>i\<close>, with \<open>c0\<close> the state before: a writer that leaves the others alone.\<close>

definition only_on :: "nat \<Rightarrow> 'c \<Rightarrow> 'c \<Rightarrow> bool" where
  "only_on i c0 c \<longleftrightarrow> i \<in> opened c0 \<and> opened c = opened c0 \<and>
     (\<forall>j \<in> opened c0. j \<noteq> i \<longrightarrow> sentOn j c = sentOn j c0)"

lemma stream_writer: "io_writer (qw i) (sentOn i) (only_on i c0) goMaxAlloc"
proof
  fix s p n s'
  assume on: "only_on i c0 s" and l: "length p \<le> goMaxAlloc" and w: "qw i s p = ((n, None), s')"
  then have "i \<in> opened s" by (simp add: only_on_def)
  from qw_ok [OF this l w] on
  show "only_on i c0 s' \<and> 0 \<le> n \<and> n \<le> int (length p) \<and> sentOn i s' = sentOn i s @ take (nat n) p"
    by (simp add: only_on_def)
qed

lemma writeAll_sent:
  assumes "writeAll ctx k (qw i) c bs = (None, k', c')" and "only_on i c0 c"
    and "\<And>b. b \<in> set bs \<Longrightarrow> length b \<le> goMaxAlloc"
  shows "only_on i c0 c' \<and> sentOn i c' = sentOn i c @ concat bs"
  using assms
proof (induction bs arbitrary: k c)
  case Nil
  then show ?case by simp
next
  case (Cons b bs)
  from Cons.prems(1) obtain k1 c1 where w: "h3WriteWithContext ctx k (qw i) c b = (None, k1, c1)"
    "writeAll ctx k1 (qw i) c1 bs = (None, k', c')"
    by (auto split: prod.splits option.splits)
  have "only_on i c0 c1 \<and> sentOn i c1 = sentOn i c @ b"
    using io_writer.writeLoop_sent [OF stream_writer Cons.prems(2) _ h3WriteWithContext_writeLoop [OF w(1)]]
      Cons.prems(3) by simp
  with Cons.IH [OF w(2)] Cons.prems(3) show ?case by simp
qed

lemma openUni_sent:
  assumes "openUni ctx k newUni qw qflush c bs = (None, k', c')"
    and "\<And>b. b \<in> set bs \<Longrightarrow> length b \<le> goMaxAlloc"
  obtains i where "i \<notin> opened c" "opened c' = insert i (opened c)" "sentOn i c' = concat bs"
    "\<And>j. j \<in> opened c \<Longrightarrow> sentOn j c' = sentOn j c"
proof -
  from assms(1) obtain i c1 c2 where n: "newUni c = (Inr i, c1)"
    and w: "writeAll ctx k (qw i) c1 bs = (None, k', c2)" and c': "c' = snd (qflush i c2)"
    by (auto simp: openUni_def split: prod.splits option.splits sum.splits)
  have new: "i \<notin> opened c" "opened c1 = insert i (opened c)" "sentOn i c1 = []"
    "\<And>j. j \<in> opened c \<Longrightarrow> sentOn j c1 = sentOn j c"
    using new_ok [OF n] by auto
  then have "only_on i c1 c1" by (simp add: only_on_def)
  from writeAll_sent [OF w this assms(2)] new(3)
  have wr: "opened c2 = opened c1" "\<And>j. j \<in> opened c1 \<Longrightarrow> j \<noteq> i \<Longrightarrow> sentOn j c2 = sentOn j c1"
    "sentOn i c2 = concat bs"
    by (auto simp: only_on_def)
  have "opened c' = opened c2 \<and> (\<forall>j \<in> opened c2. sentOn j c' = sentOn j c2)"
    using flush_keeps [of i c2 "fst (qflush i c2)" c'] c' by simp
  with new wr show thesis
    by (intro that [of i]) auto
qed

end

text \<open>A concrete QUIC connection: the bytes written to each stream, by number.\<close>

definition qc_new :: "bytes list \<Rightarrow> (err + nat) \<times> bytes list" where
  "qc_new c = (Inr (length c), c @ [[]])"

definition qc_write :: "nat \<Rightarrow> bytes list \<Rightarrow> bytes \<Rightarrow> (int \<times> err option) \<times> bytes list" where
  "qc_write i c p =
     (if i < length c then ((int (length p), None), c[i := c ! i @ p])
      else ((0, Some (Env ''no such stream'')), c))"

definition qc_flush :: "nat \<Rightarrow> bytes list \<Rightarrow> err option \<times> bytes list" where
  "qc_flush i c = (None, c)"

interpretation qc: quic_conn qc_new qc_write qc_flush "\<lambda>c. {..<length c}" "\<lambda>i c. c ! i"
  by unfold_locales
    (auto simp: qc_new_def qc_write_def qc_flush_def nth_append split: if_splits)

section \<open>Properties\<close>

text \<open>
  Both ends of the control plane agree: when \<^verbatim>\<open>h3OpenClientUniStreams\<close> succeeds with
  the full profile over a QUIC connection that keeps its contract, it has opened exactly three
  new streams, a QPACK encoder and a QPACK decoder stream that carry only their type, and a
  control stream; and an endpoint that runs the peer-stream drainer on that control stream
  observes SETTINGS with Extended CONNECT enabled.
\<close>

theorem client_streams_enable_connect:
  assumes "quic_conn newUni qw qflush opened sentOn"
    and "h3OpenClientUniStreams ctx k newUni qw qflush c h3ClientStreamsControlAndQPACK = (None, k', c')"
  shows "\<exists>st enc dc. opened c' = opened c \<union> {st, enc, dc} \<and> distinct [st, enc, dc] \<and>
    {st, enc, dc} \<inter> opened c = {} \<and> sentOn enc c' = [2] \<and> sentOn dc c' = [3] \<and>
    drainPeerStream True (Reader (sentOn st c') EOF) (Some newH3PeerObservations) =
      Inr (Some \<lparr>sawSettings = True, enableConnectProtocol = True, settingsSeen = True\<rparr>)"
proof -
  from assms(2) obtain k1 c1 k2 c2 where
    o1: "openUni ctx k newUni qw qflush c controlPieces = (None, k1, c1)" and
    o2: "openUni ctx k1 newUni qw qflush c1 [appendVarint [] h3StreamQpackEncoder] = (None, k2, c2)" and
    o3: "openUni ctx k2 newUni qw qflush c2 [appendVarint [] h3StreamQpackDecoder] = (None, k', c')"
    by (auto simp: h3OpenClientUniStreams_def split: prod.splits option.splits)
  have small: "length (appendVarint [] v) \<le> goMaxAlloc" for v
    by (simp add: length_appendVarint varint_len_def goMaxAlloc_def)
  have pieces: "length b \<le> goMaxAlloc" if "b \<in> set controlPieces" for b
    using that small by (auto simp: controlPieces_def clientSettings_def appendVarint_def goMaxAlloc_def)
  obtain st where st: "st \<notin> opened c" "opened c1 = insert st (opened c)" "sentOn st c1 = concat controlPieces"
    by (rule quic_conn.openUni_sent [OF assms(1) o1 pieces]) blast+
  obtain enc where enc: "enc \<notin> opened c1" "opened c2 = insert enc (opened c1)"
    "sentOn enc c2 = appendVarint [] h3StreamQpackEncoder" "\<And>j. j \<in> opened c1 \<Longrightarrow> sentOn j c2 = sentOn j c1"
    by (rule quic_conn.openUni_sent [OF assms(1) o2]) (auto simp: small)
  obtain dc where dc: "dc \<notin> opened c2" "opened c' = insert dc (opened c2)"
    "sentOn dc c' = appendVarint [] h3StreamQpackDecoder" "\<And>j. j \<in> opened c2 \<Longrightarrow> sentOn j c' = sentOn j c2"
    by (rule quic_conn.openUni_sent [OF assms(1) o3]) (auto simp: small)
  have bytes: "concat controlPieces = appendVarint [] h3StreamControl @ concat (map h3Frame [(4, [8, 1])])"
    by (simp add: controlPieces_def clientSettings_def h3Frame_def appendVarint_def)
  have "fst (h3ParseSettingsPayload [8, 1])"
    using h3ParseSettings_enc [of "[(8, 1)]"] by (simp add: encSettings_def appendVarint_def)
  then have "drainPeerStream True (Reader (sentOn st c') EOF) (Some newH3PeerObservations) =
      Inr (Some \<lparr>sawSettings = True, enableConnectProtocol = True, settingsSeen = True\<rparr>)"
    using st enc dc controlFrames_observed [of "[(4, [8, 1])]" 8 newH3PeerObservations]
    by (simp add: drainPeerStream_def h3LogPeerControlStream_def bytes goMaxAlloc_def newH3PeerObservations_def
        del: concat.simps list.map)
  then show ?thesis
    using st enc dc by (intro exI [of _ st] exI [of _ enc] exI [of _ dc]) (auto simp: appendVarint_def)
qed

theorem client_streams_enable_connect_witness:
  "\<exists>c. h3OpenClientUniStreams (\<lambda>_. None) 0 qc_new qc_write qc_flush [] h3ClientStreamsControlAndQPACK =
       (None, 6, c) \<and>
     (\<exists>st enc dc. {..<length c} = {..<length ([] :: bytes list)} \<union> {st, enc, dc} \<and>
       drainPeerStream True (Reader (c ! st) EOF) (Some newH3PeerObservations) =
         Inr (Some \<lparr>sawSettings = True, enableConnectProtocol = True, settingsSeen = True\<rparr>))"
proof -
  have q: "quic_conn qc_new qc_write qc_flush (\<lambda>c. {..<length c}) (\<lambda>i c. c ! i)"
    by unfold_locales
  have h: "h3OpenClientUniStreams (\<lambda>_. None) 0 qc_new qc_write qc_flush [] h3ClientStreamsControlAndQPACK =
      (None, 6, [[0, 4, 2, 8, 1], [2], [3]])"
    by (simp add: h3OpenClientUniStreams_def openUni_def controlPieces_def clientSettings_def
        qc_new_def qc_write_def qc_flush_def h3WriteWithContext.simps appendVarint_def)
  show ?thesis
  proof (rule exI, rule conjI [OF h])
    from client_streams_enable_connect [OF q h]
    show "\<exists>st enc dc. {..<length [[0, 4, 2, 8, 1 :: byte], [2], [3]]} = {..<length ([] :: bytes list)} \<union> {st, enc, dc} \<and>
       drainPeerStream True (Reader ([[0, 4, 2, 8, 1], [2], [3]] ! st) EOF) (Some newH3PeerObservations) =
         Inr (Some \<lparr>sawSettings = True, enableConnectProtocol = True, settingsSeen = True\<rparr>)"
      by (elim exE conjE) (intro exI conjI; assumption)
  qed
qed

text \<open>
  The peer's SETTINGS are recorded faithfully whatever the interleaving of the goroutines
  that read its control streams: no run of \<^verbatim>\<open>setSettings\<close> calls closes the channel
  \<^verbatim>\<open>settingsSeen\<close> twice, and once no call is in progress, the channel is closed exactly if
  settings were seen.
\<close>

theorem setSettings_closes_once:
  assumes "obs_step\<^sup>*\<^sup>* (newH3PeerObservations, 0, False) (ob, k, p)"
  shows "\<not> p \<and> (k = 0 \<longrightarrow> (settingsSeen ob \<longleftrightarrow> sawSettings ob))"
proof -
  have "\<not> p \<and> (if sawSettings ob then k = (if settingsSeen ob then 0 else 1) else k = 0 \<and> \<not> settingsSeen ob)"
    using assms
  proof (induction "(newH3PeerObservations, 0 :: nat, False)" "(ob, k, p)" arbitrary: ob k p
      rule: rtranclp.induct)
    case rtrancl_refl
    then show ?case by (simp add: newH3PeerObservations_def)
  next
    case (rtrancl_into_rtrancl b)
    obtain ob' k' p' where b: "b = (ob', k', p')" by (cases b)
    have "\<not> p' \<and> (if sawSettings ob' then k' = (if settingsSeen ob' then 0 else 1) else k' = 0 \<and> \<not> settingsSeen ob')"
      using rtrancl_into_rtrancl(2) b by simp
    with rtrancl_into_rtrancl(3) b show ?case
      by (auto elim!: obs_stepE simp: setLocked_def closeSeen_def split: if_splits)
  qed
  then show ?thesis by (auto split: if_splits)
qed

theorem setSettings_closes_once_witness:
  "\<exists>ob. obs_step\<^sup>*\<^sup>* (newH3PeerObservations, 0, False) (ob, 0, False) \<and> sawSettings ob \<and> settingsSeen ob"
proof -
  let ?o1 = "\<lparr>sawSettings = True, enableConnectProtocol = True, settingsSeen = False\<rparr>"
  let ?o2 = "\<lparr>sawSettings = True, enableConnectProtocol = False, settingsSeen = False\<rparr>"
  let ?o3 = "\<lparr>sawSettings = True, enableConnectProtocol = False, settingsSeen = True\<rparr>"
  have "obs_step (newH3PeerObservations, 0, False) (?o1, Suc 0, False)"
    using obs_step.lock [of True newH3PeerObservations True ?o1 0 False]
    by (simp add: setLocked_def newH3PeerObservations_def)
  moreover have "obs_step (?o1, Suc 0, False) (?o2, Suc 0, False)"
    using obs_step.lock [of False ?o1 False ?o2 "Suc 0" False] by (simp add: setLocked_def)
  moreover have "obs_step (?o2, Suc 0, False) (?o3, 0, False)"
    by (rule obs_step.close) (simp add: closeSeen_def)
  ultimately have r: "obs_step\<^sup>*\<^sup>* (newH3PeerObservations, 0, False) (?o3, 0, False)"
    by (meson converse_rtranclp_into_rtranclp rtranclp.rtrancl_refl)
  with setSettings_closes_once [OF r] show ?thesis by auto
qed

text \<open>
  Response headers: frames of other types in front of the HEADERS frame are skipped, any
  number of them, and the headers a server encoded with the same QPACK subset come out, the last
  of each name, whatever follows on the stream.
\<close>

theorem response_headers_read:
  assumes "\<And>ft p. (ft, p) \<in> set fs \<Longrightarrow> ft < 2 ^ 62 \<and> ft \<noteq> h3FrameHeaders \<and> length p \<le> goMaxAlloc"
    and "\<And>kv. kv \<in> set hs \<Longrightarrow> length (fst kv) \<le> goMaxAlloc \<and> length (snd kv) \<le> goMaxAlloc"
    and "hs = [] \<or> \<not> emptyTail (last hs)" and "length (h3EncodeHeaders hs) \<le> goMaxAlloc"
  shows "h3ReadResponseHeaders huffDec
      (Reader (concat (map h3Frame (fs @ [(h3FrameHeaders, h3EncodeHeaders hs)])) @ zs) e) =
    Inr (map_of (rev hs))"
  using assms(1)
proof (induction fs)
  case Nil
  have "length (h3EncodeHeaders hs) < 2 ^ 62"
    using assms(4) by (simp add: goMaxAlloc_def)
  moreover have "h3DecodeHeaders huffDec (h3EncodeHeaders hs) = Inr (map_of (rev hs))"
    using decodeLines_encode [of hs huffDec Map.empty] assms(2,3)
    by (auto simp: h3DecodeHeaders_def h3EncodeHeaders_alt readPrefixedInt_def
        readPrefixedIntWithFirst_def foldl_upd_map_of)
  ultimately show ?case
    using assms(4) by (simp add: h3ReadResponseHeaders.simps h3Frame_def makeBytes_def)
next
  case (Cons f fs)
  obtain ft p where f: "f = (ft, p)" by (cases f)
  have b: "ft < 2 ^ 62" "ft \<noteq> 1" "length p \<le> goMaxAlloc" using Cons.prems f by auto
  then have l: "length p < 2 ^ 62" by (simp add: goMaxAlloc_def)
  have IH: "h3ReadResponseHeaders huffDec
      (Reader (concat (map h3Frame (fs @ [(h3FrameHeaders, h3EncodeHeaders hs)])) @ zs) e) =
    Inr (map_of (rev hs))"
    by (rule Cons.IH) (use Cons.prems in auto)
  show ?case
    unfolding f using b l IH
    by (subst h3ReadResponseHeaders.simps) (simp add: h3Frame_def [of "(ft, p)"] makeBytes_def)
qed

theorem response_headers_read_witness:
  "h3ReadResponseHeaders (\<lambda>_. None)
     (Reader (concat (map h3Frame ([(0x21, [1, 2])] @ [(h3FrameHeaders, h3EncodeHeaders [('':status'', ''200'')])])) @ [9]) EOF) =
   Inr ['':status'' \<mapsto> ''200'']"
proof -
  have "length (h3EncodeHeaders [('':status'', ''200'')]) \<le> goMaxAlloc"
    by (simp add: h3EncodeHeaders_def encodeLine_def h3StaticTable_def appendPrefixedInt_def goMaxAlloc_def)
  then show ?thesis
    by (subst response_headers_read) (auto simp: goMaxAlloc_def emptyTail_def h3StaticTable_def)
qed

text \<open>
  A peer can crash the client with one frame header: when the announced length of a frame
  on its control stream, or in front of the response headers, exceeds what the Go run-time can
  allocate, \<^verbatim>\<open>make([]byte, n)\<close> panics, since unlike \<^verbatim>\<open>h3wsStream.Read\<close> these two
  readers have no bound on the length.
\<close>

theorem frame_length_panics:
  assumes "ft < 2 ^ 62" and "goMaxAlloc < n" and "n < 2 ^ 62"
  shows "h3ReadResponseHeaders huffDec (Reader (appendVarint (appendVarint [] ft) n @ zs) e) = Inl makePanic \<and>
    drainPeerStream True (Reader (appendVarint [] h3StreamControl @ appendVarint (appendVarint [] ft) n @ zs) e) obs =
      Inl makePanic"
proof -
  have "appendVarint (appendVarint [] ft) n = appendVarint [] ft @ appendVarint [] n"
    by (rule appendVarint_append)
  moreover have eight: "(8 :: nat) = Suc 7" by simp
  have "h3LogPeerControlStream (Reader (appendVarint [] ft @ appendVarint [] n @ zs) e) obs = Inl makePanic"
    unfolding h3LogPeerControlStream_def eight controlFrames.simps
    using assms by (simp add: makeBytes_def)
  ultimately show ?thesis
    using assms by (simp add: h3ReadResponseHeaders.simps drainPeerStream_def makeBytes_def)
qed

theorem frame_length_panics_witness:
  "h3ReadResponseHeaders (\<lambda>_. None) (Reader (appendVarint (appendVarint [] 1) (2 ^ 60) @ []) EOF) = Inl makePanic"
  using frame_length_panics [of 1 "2 ^ 60" "\<lambda>_. None" "[]" EOF None] by (simp add: goMaxAlloc_def)

end
