(* ===== verification/Go_Float.thy ===== *)
theory Go_Float
  imports Complex_Main Go_Prelude "HOL-Library.Log_Nat"
begin

text \<open>
  \<^verbatim>\<open>float64\<close> as IEEE 754 binary64, executable: a finite value is the rational it stands
  for (the sign of a zero is not kept: the code never divides by one), and every operation is
  the exact one followed by rounding to nearest, ties to even, with gradual underflow and
  overflow to an infinity. Conversion to \<^verbatim>\<open>int64\<close> truncates; outside the range of
  \<^verbatim>\<open>int64\<close> the result is the smallest \<^verbatim>\<open>int64\<close>, as on amd64. Multiplication and
  addition are not fused.
\<close>

section \<open>Definitions\<close>

datatype f64 = Fin rat | PInf | NInf | NaN

definition ilog2 :: "rat \<Rightarrow> int" where
  "ilog2 x =
     (let (a, b) = quotient_of x;
          e = bitlen a - bitlen b
      in if 2 powi e \<le> x then e else e - 1)"

definition roundEven :: "rat \<Rightarrow> int" where
  "roundEven x =
     (let f = \<lfloor>x\<rfloor>; d = x - of_int f
      in if d < 1 / 2 then f else if d > 1 / 2 then f + 1 else if even f then f else f + 1)"

definition quantum :: "rat \<Rightarrow> rat" where
  "quantum x = 2 powi (max (ilog2 \<bar>x\<bar> - 52) (- 1074))"

definition round64 :: "rat \<Rightarrow> f64" where
  "round64 x =
     (if x = 0 then Fin 0
      else let r = of_int (roundEven (x / quantum x)) * quantum x
           in if r \<ge> 2 ^ 1024 then PInf else if r \<le> - (2 ^ 1024) then NInf else Fin r)"

definition f_of_int :: "int \<Rightarrow> f64" where
  "f_of_int n = round64 (of_int n)"

definition f_to_i64 :: "f64 \<Rightarrow> int" where
  "f_to_i64 x =
     (case x of
        Fin r \<Rightarrow> let t = (if r \<ge> 0 then \<lfloor>r\<rfloor> else \<lceil>r\<rceil>) in if in_i64 t then t else - (2 ^ 63)
      | _ \<Rightarrow> - (2 ^ 63))"

fun f_add :: "f64 \<Rightarrow> f64 \<Rightarrow> f64" where
  "f_add (Fin a) (Fin b) = round64 (a + b)"
| "f_add NaN y = NaN"
| "f_add x NaN = NaN"
| "f_add PInf NInf = NaN"
| "f_add NInf PInf = NaN"
| "f_add PInf y = PInf"
| "f_add NInf y = NInf"
| "f_add x PInf = PInf"
| "f_add x NInf = NInf"

definition signed_inf :: "rat \<Rightarrow> f64" where
  "signed_inf s = (if s > 0 then PInf else if s < 0 then NInf else NaN)"

fun f_sgn :: "f64 \<Rightarrow> rat" where
  "f_sgn (Fin a) = sgn a"
| "f_sgn PInf = 1"
| "f_sgn NInf = - 1"
| "f_sgn NaN = 0"

fun f_mul :: "f64 \<Rightarrow> f64 \<Rightarrow> f64" where
  "f_mul (Fin a) (Fin b) = round64 (a * b)"
| "f_mul x y = signed_inf (f_sgn x * f_sgn y)"

fun f_div :: "f64 \<Rightarrow> f64 \<Rightarrow> f64" where
  "f_div (Fin a) (Fin b) = (if b = 0 then signed_inf a else round64 (a / b))"
| "f_div NaN y = NaN"
| "f_div (Fin a) NaN = NaN"
| "f_div (Fin a) y = Fin 0"
| "f_div x (Fin b) = signed_inf (f_sgn x * (if b < 0 then - 1 else 1))"
| "f_div x y = NaN"

fun f_lt :: "f64 \<Rightarrow> f64 \<Rightarrow> bool" where
  "f_lt (Fin a) (Fin b) \<longleftrightarrow> a < b"
| "f_lt NaN y \<longleftrightarrow> False"
| "f_lt x NaN \<longleftrightarrow> False"
| "f_lt NInf y \<longleftrightarrow> y \<noteq> NInf"
| "f_lt x PInf \<longleftrightarrow> x \<noteq> PInf"
| "f_lt x y \<longleftrightarrow> False"

fun f_le :: "f64 \<Rightarrow> f64 \<Rightarrow> bool" where
  "f_le NaN y \<longleftrightarrow> False"
| "f_le x NaN \<longleftrightarrow> False"
| "f_le x y \<longleftrightarrow> \<not> f_lt y x"

text \<open>A decimal constant of the source: the \<^verbatim>\<open>float64\<close> nearest to it.\<close>

abbreviation f_const :: "rat \<Rightarrow> f64" where
  "f_const r \<equiv> round64 r"

section \<open>Comparison\<close>

lemma f_lt_irrefl [simp]: "\<not> f_lt x x"
  by (cases x) simp_all

lemma f_lt_trans: "f_lt x y \<Longrightarrow> f_lt y z \<Longrightarrow> f_lt x z"
  by (cases x; cases y; cases z) auto

lemma f_lt_not_le: "f_lt x y \<Longrightarrow> \<not> f_le y x"
  by (cases x; cases y) auto

lemma not_f_lt_trans:
  "\<not> f_lt y x \<Longrightarrow> \<not> f_lt z y \<Longrightarrow> y \<noteq> NaN \<Longrightarrow> \<not> f_lt z x"
  by (cases x; cases y; cases z) auto

section \<open>Rounding\<close>

lemma roundEven_of_int [simp]: "roundEven (of_int n) = n"
  by (simp add: roundEven_def)

lemma roundEven_ge: "of_int n \<le> x \<Longrightarrow> n \<le> roundEven x"
proof -
  assume "of_int n \<le> x"
  then have "n \<le> \<lfloor>x\<rfloor>" by (simp add: le_floor_iff)
  then show ?thesis by (auto simp: roundEven_def Let_def)
qed

lemma roundEven_le: "x \<le> of_int n \<Longrightarrow> roundEven x \<le> n"
proof -
  assume le: "x \<le> of_int n"
  show ?thesis
  proof (cases "x = of_int n")
    case True
    then show ?thesis by simp
  next
    case False
    with le have "\<lfloor>x\<rfloor> < n" by (simp add: floor_less_iff)
    then show ?thesis by (auto simp: roundEven_def Let_def)
  qed
qed

lemma two_powi_pos [simp]: "(0 :: rat) < 2 powi e"
  by (simp add: zero_less_power_int)

lemma ilog2_bounds:
  assumes "0 < x"
  shows "2 powi (ilog2 x) \<le> x" and "x < 2 powi (ilog2 x + 1)"
proof -
  obtain a b where q: "quotient_of x = (a, b)" by (cases "quotient_of x")
  then have b: "0 < b" and x: "x = of_int a / of_int b"
    by (simp_all add: quotient_of_denom_pos quotient_of_div)
  with assms have a: "0 < a"
    by (simp add: zero_less_divide_iff)
  have len: "bitlen a \<ge> 1" "bitlen b \<ge> 1"
    using a b bitlen_eq_zero_iff [of a] bitlen_eq_zero_iff [of b] bitlen_nonneg [of a] bitlen_nonneg [of b]
    by linarith+
  have bnd: "2 powi (bitlen z - 1) \<le> (of_int z :: rat) \<and> (of_int z :: rat) < 2 powi (bitlen z)"
    if "0 < z" "bitlen z \<ge> 1" for z
  proof -
    from bitlen_bounds [OF that(1)] have "2 ^ nat (bitlen z - 1) \<le> z" "z < 2 ^ nat (bitlen z)" by auto
    then have "(of_int (2 ^ nat (bitlen z - 1)) :: rat) \<le> of_int z" "(of_int z :: rat) < of_int (2 ^ nat (bitlen z))"
      by (simp_all only: of_int_le_iff of_int_less_iff)
    with that(2) show ?thesis by (simp add: power_int_def)
  qed
  define e where "e = bitlen a - bitlen b"
  have up: "x < 2 powi (e + 1)"
  proof -
    have "x < 2 powi (bitlen a) / 2 powi (bitlen b - 1)"
      unfolding x using bnd [OF a len(1)] bnd [OF b len(2)] a b
      by (intro frac_less) auto
    also have "\<dots> = 2 powi (bitlen a - (bitlen b - 1))"
      by (simp add: power_int_diff)
    also have "bitlen a - (bitlen b - 1) = e + 1"
      by (simp add: e_def)
    finally show ?thesis .
  qed
  have lo: "2 powi (e - 1) \<le> x"
  proof -
    have "e - 1 = (bitlen a - 1) - bitlen b"
      by (simp add: e_def)
    moreover have "2 powi ((bitlen a - 1) - bitlen b) = 2 powi (bitlen a - 1) / (2 powi (bitlen b) :: rat)"
      by (rule power_int_diff) simp
    ultimately have "2 powi (e - 1) = 2 powi (bitlen a - 1) / (2 powi (bitlen b) :: rat)"
      by metis
    also have "\<dots> \<le> x"
      unfolding x using bnd [OF a len(1)] bnd [OF b len(2)] a b
      by (intro frac_le) auto
    finally show ?thesis .
  qed
  have i: "ilog2 x = (if 2 powi e \<le> x then e else e - 1)"
    by (simp add: ilog2_def q e_def)
  show "2 powi (ilog2 x) \<le> x" "x < 2 powi (ilog2 x + 1)"
    using up lo by (auto simp: i)
qed

lemma quantum_pos [simp]: "0 < quantum x"
  by (simp add: quantum_def)

lemma roundEven_mult_ge:
  "of_int n \<le> x / quantum z \<Longrightarrow> of_int n * quantum z \<le> of_int (roundEven (x / quantum z)) * quantum z"
  using roundEven_ge [of n "x / quantum z"] quantum_pos [of z]
  by (intro mult_right_mono) (simp_all only: of_int_le_iff less_imp_le)

lemma roundEven_mult_le:
  "x / quantum z \<le> of_int n \<Longrightarrow> of_int (roundEven (x / quantum z)) * quantum z \<le> of_int n * quantum z"
  using roundEven_le [of "x / quantum z" n] quantum_pos [of z]
  by (intro mult_right_mono) (simp_all only: of_int_le_iff less_imp_le)

lemma quantum_small:
  assumes "ilog2 \<bar>x\<bar> \<le> 52"
  obtains k where "quantum x = 1 / 2 ^ k"
proof -
  have "max (ilog2 \<bar>x\<bar> - 52) (- 1074) \<le> 0" using assms by simp
  then show thesis
    by (intro that [of "nat (- max (ilog2 \<bar>x\<bar> - 52) (- 1074))"])
      (auto simp: quantum_def power_int_def power_inverse field_simps)
qed

lemma ilog2_le:
  assumes "0 < x" and "x < 2 ^ Suc n"
  shows "ilog2 x \<le> int n"
proof (rule ccontr)
  assume "\<not> ilog2 x \<le> int n"
  then have "(2 :: rat) powi (int (Suc n)) \<le> 2 powi (ilog2 x)"
    by (intro power_int_increasing) auto
  with ilog2_bounds(1) [OF assms(1)] assms(2) show False
    by (simp only: power_int_of_nat)
qed

text \<open>
  Rounding respects integers up to \<open>2 ^ 53\<close>, which are floating-point numbers themselves: a
  value on one side of such an integer is rounded to the same side.
\<close>

lemma round64_ge_int:
  assumes "0 \<le> b" and "b \<le> 2 ^ 53" and "of_int b \<le> x" and "round64 x = Fin y"
  shows "of_int b \<le> y"
proof (cases "x = 0")
  case True
  with assms show ?thesis by (simp add: round64_def)
next
  case False
  with assms(1,3) have x: "0 < x"
    by (metis less_le_trans not_less_iff_gr_or_eq of_int_0_le_iff order.trans order_less_le)
  have y: "y = of_int (roundEven (x / quantum x)) * quantum x"
    using assms(4) False by (auto simp: round64_def Let_def split: if_splits)
  show ?thesis
  proof (cases "ilog2 x \<le> 52")
    case True
    with x obtain k where q: "quantum x = 1 / 2 ^ k"
      using quantum_small [of x] by auto
    have "of_int (b * 2 ^ k) \<le> x / quantum x"
      using assms(3) by (simp add: q mult_right_mono)
    from roundEven_mult_ge [OF this] show ?thesis by (simp add: y q)
  next
    case False
    then have e: "ilog2 x - 52 \<ge> 1" by simp
    with x have q: "quantum x = 2 powi (ilog2 x - 52)" by (simp add: quantum_def)
    have "(2 :: rat) ^ 52 * quantum x = 2 powi (ilog2 x)"
      using power_int_add [of "2 :: rat" 52 "ilog2 x - 52"] by (simp add: q power_int_def)
    with ilog2_bounds(1) [OF x] have "of_int (2 ^ 52) \<le> x / quantum x"
      by (simp add: le_divide_eq)
    from roundEven_mult_ge [OF this] have "2 ^ 52 * quantum x \<le> y"
      by (simp add: y)
    moreover have "(2 :: rat) powi 1 \<le> quantum x"
      unfolding q using e by (intro power_int_increasing) auto
    then have "(2 :: rat) ^ 53 \<le> 2 ^ 52 * quantum x" by simp
    moreover have "of_int b \<le> (2 :: rat) ^ 53"
      using assms(2) by (metis of_int_le_iff of_int_numeral of_int_power)
    ultimately show ?thesis by linarith
  qed
qed

lemma round64_le_int:
  assumes "b < 2 ^ 53" and "0 \<le> x" and "x \<le> of_int b"
  shows "\<exists>y. round64 x = Fin y \<and> 0 \<le> y \<and> y \<le> of_int b"
proof (cases "x = 0")
  case True
  with assms show ?thesis by (simp add: round64_def)
next
  case False
  with assms(2) have x: "0 < x" by simp
  have b53: "of_int b < (2 :: rat) ^ 53"
    using assms(1) by (metis of_int_less_iff of_int_numeral of_int_power)
  with assms(3) have "x < 2 ^ Suc 52" by simp
  from ilog2_le [OF x this] x obtain k where q: "quantum x = 1 / 2 ^ k"
    using quantum_small [of x] by auto
  let ?y = "of_int (roundEven (x / quantum x)) * quantum x"
  have "x / quantum x \<le> of_int (b * 2 ^ k)"
    using assms(3) by (simp add: q mult_right_mono)
  from roundEven_mult_le [OF this] have le: "?y \<le> of_int b" by (simp add: q)
  have "of_int 0 \<le> x / quantum x" using x by (simp add: less_imp_le)
  from roundEven_ge [OF this] have ge: "0 \<le> ?y"
    by (simp add: less_imp_le)
  have "(2 :: rat) ^ 53 \<le> 2 ^ 1024" by (intro power_increasing) auto
  with le b53 have "?y < 2 ^ 1024" by linarith
  moreover have "\<not> ?y \<le> - (2 ^ 1024)"
  proof -
    have "- (2 ^ 1024) < (0 :: rat)" by simp
    with ge show ?thesis by linarith
  qed
  ultimately show ?thesis
    using False le ge by (simp add: round64_def Let_def)
qed

lemma round64_int: "0 \<le> n \<Longrightarrow> n < 2 ^ 53 \<Longrightarrow> round64 (of_int n) = Fin (of_int n)"
  using round64_le_int [of n "of_int n"] round64_ge_int [of n "of_int n"] by fastforce

lemma f_of_int_small: "0 \<le> n \<Longrightarrow> n < 2 ^ 53 \<Longrightarrow> f_of_int n = Fin (of_int n)"
  by (simp only: f_of_int_def round64_int)

lemma f_to_i64_bounds:
  assumes "x = Fin r" and "of_int a \<le> r" and "r \<le> of_int b" and "0 \<le> a" and "b < 2 ^ 63"
  shows "a \<le> f_to_i64 x \<and> f_to_i64 x \<le> b"
proof -
  have r: "0 \<le> r" using assms(2,4) by (meson of_int_0_le_iff order.trans)
  have "a \<le> \<lfloor>r\<rfloor>" "\<lfloor>r\<rfloor> \<le> b"
    using assms(2,3) by (simp_all add: le_floor_iff floor_le_iff) 
  moreover from this assms(4,5) have "in_i64 \<lfloor>r\<rfloor>"
    unfolding in_i64_def by linarith
  ultimately show ?thesis
    using r by (simp add: f_to_i64_def assms(1))
qed

end
