(* ===== verification/Go_Text.thy ===== *)
theory Go_Text
  imports Go_Float "HOL-Library.List_Lexorder" "HOL-Library.Char_ord" "HOL-Library.AList"
begin

text \<open>
  The parts of \<^verbatim>\<open>strings\<close>, \<^verbatim>\<open>sort\<close> and \<^verbatim>\<open>fmt\<close> the program uses, and Go maps
  with string keys as association lists without duplicate keys. Strings are byte strings;
  \<^verbatim>\<open>ToLower\<close> is given for ASCII text, the only text the program applies it to.
\<close>

section \<open>Definitions\<close>

definition lowerChar :: "char \<Rightarrow> char" where
  "lowerChar c = (let n = of_char c :: nat in if 65 \<le> n \<and> n \<le> 90 then char_of (n + 32) else c)"

definition toLower :: "string \<Rightarrow> string" where
  "toLower s = map lowerChar s"

fun hasPrefix :: "string \<Rightarrow> string \<Rightarrow> bool" where
  "hasPrefix s [] \<longleftrightarrow> True"
| "hasPrefix [] (c # p) \<longleftrightarrow> False"
| "hasPrefix (d # s) (c # p) \<longleftrightarrow> d = c \<and> hasPrefix s p"

fun contains :: "string \<Rightarrow> string \<Rightarrow> bool" where
  "contains [] sub \<longleftrightarrow> sub = []"
| "contains (c # s) sub \<longleftrightarrow> hasPrefix (c # s) sub \<or> contains s sub"

text \<open>\<^verbatim>\<open>strings.Split\<close> by one character, \<^verbatim>\<open>SplitN(s, sep, 2)\<close>, \<^verbatim>\<open>Join\<close>.\<close>

fun splitChar :: "char \<Rightarrow> string \<Rightarrow> string list" where
  "splitChar sep [] = [[]]"
| "splitChar sep (c # s) =
     (if c = sep then [] # splitChar sep s
      else case splitChar sep s of p # ps \<Rightarrow> (c # p) # ps | [] \<Rightarrow> [[c]])"

fun cutChar :: "char \<Rightarrow> string \<Rightarrow> (string \<times> string) option" where
  "cutChar sep [] = None"
| "cutChar sep (c # s) =
     (if c = sep then Some ([], s)
      else case cutChar sep s of None \<Rightarrow> None | Some (a, b) \<Rightarrow> Some (c # a, b))"

fun join :: "string \<Rightarrow> string list \<Rightarrow> string" where
  "join sep [] = []"
| "join sep [s] = s"
| "join sep (s # t # ts) = s @ sep @ join sep (t # ts)"

definition replaceChar :: "char \<Rightarrow> string \<Rightarrow> string \<Rightarrow> string" where
  "replaceChar c by s = concat (map (\<lambda>x. if x = c then by else [x]) s)"

definition isSpace :: "char \<Rightarrow> bool" where
  "isSpace c \<longleftrightarrow> c \<in> {CHR '' '', CHR 0x09, CHR 0x0A, CHR 0x0B, CHR 0x0C, CHR 0x0D}"

definition trimSpace :: "string \<Rightarrow> string" where
  "trimSpace s = rev (dropWhile isSpace (rev (dropWhile isSpace s)))"

text \<open>Printing an integer (\<^verbatim>\<open>%d\<close>) and a finite float with a fixed number of decimals.\<close>

definition itoaInt :: "int \<Rightarrow> string" where
  "itoaInt n = (if n < 0 then CHR ''-'' # itoa (nat (- n)) else itoa (nat n))"

definition fmtFixed :: "nat \<Rightarrow> f64 \<Rightarrow> string" where
  "fmtFixed prec x =
     (case x of
        PInf \<Rightarrow> ''+Inf'' | NInf \<Rightarrow> ''-Inf'' | NaN \<Rightarrow> ''NaN''
      | Fin r \<Rightarrow>
          let n = nat (roundEven (\<bar>r\<bar> * 10 ^ prec));
              frac = itoa (n mod 10 ^ prec)
          in (if r < 0 then ''-'' else []) @ itoa (n div 10 ^ prec) @
             (if prec = 0 then [] else CHR ''.'' # replicate (prec - length frac) (CHR ''0'') @ frac))"

text \<open>A map read with a default, the value a missing key has in Go.\<close>

type_synonym 'v gomap = "(string \<times> 'v) list"

definition mget :: "'v \<Rightarrow> 'v gomap \<Rightarrow> string \<Rightarrow> 'v" where
  "mget d m k = (case map_of m k of None \<Rightarrow> d | Some v \<Rightarrow> v)"

definition sortedKeys :: "'v gomap \<Rightarrow> string list" where
  "sortedKeys m = sort (map fst m)"

section \<open>Splitting and joining\<close>

lemma splitChar_neq_Nil [simp]: "splitChar sep s \<noteq> []"
  by (induction s) (auto split: list.split)

lemma splitChar_none: "sep \<notin> set s \<Longrightarrow> splitChar sep s = [s]"
  by (induction s) auto

lemma splitChar_append:
  "sep \<notin> set a \<Longrightarrow> splitChar sep (a @ sep # b) = a # splitChar sep b"
  by (induction a) auto

lemma cutChar_none: "sep \<notin> set s \<Longrightarrow> cutChar sep s = None"
  by (induction s) auto

lemma cutChar_append: "sep \<notin> set a \<Longrightarrow> cutChar sep (a @ sep # b) = Some (a, b)"
  by (induction a) auto

lemma mget_update [simp]:
  "mget d (AList.update k v m) k' = (if k' = k then v else mget d m k')"
  by (simp add: mget_def update_conv')

end
