(* ===== verification/Go_Url.thy ===== *)
theory Go_Url
  imports Go_Text
begin

text \<open>
  The parts of Go's \<^verbatim>\<open>net/url\<close> and \<^verbatim>\<open>net\<close> the program uses: escaping, parsing and
  printing of URLs, query strings as \<^verbatim>\<open>url.Values\<close>, \<^verbatim>\<open>Hostname\<close>, \<^verbatim>\<open>Port\<close>,
  \<^verbatim>\<open>EscapedPath\<close>, and splitting and joining of \<^verbatim>\<open>host:port\<close> texts. In error texts,
  \<^verbatim>\<open>%q\<close> is given for ASCII; other bytes are copied.
\<close>

section \<open>Definitions\<close>

subsection \<open>Escaping\<close>

datatype urlMode = encodePath | encodeHost | encodeZone | encodeUserPassword | encodeQueryComponent | encodeFragment

definition code :: "char \<Rightarrow> nat" where
  "code c = of_char c"

definition isDigit :: "char \<Rightarrow> bool" where
  "isDigit c \<longleftrightarrow> 48 \<le> code c \<and> code c \<le> 57"

definition isAlpha :: "char \<Rightarrow> bool" where
  "isAlpha c \<longleftrightarrow> 65 \<le> code c \<and> code c \<le> 90 \<or> 97 \<le> code c \<and> code c \<le> 122"

definition unhex :: "char \<Rightarrow> nat option" where
  "unhex c = (if isDigit c then Some (code c - 48)
     else if 97 \<le> code c \<and> code c \<le> 102 then Some (code c - 87)
     else if 65 \<le> code c \<and> code c \<le> 70 then Some (code c - 55) else None)"

definition upperHex :: "nat \<Rightarrow> char" where
  "upperHex n = char_of (if n < 10 then 48 + n else 55 + n)"

definition shouldEscape :: "urlMode \<Rightarrow> char \<Rightarrow> bool" where
  "shouldEscape mode c =
     (if isAlpha c \<or> isDigit c then False
      else if mode \<in> {encodeHost, encodeZone} \<and> c \<in> set (CHR 0x27 # CHR 0x22 # ''!$&()*+,;=:[]<>'') then False
      else if c \<in> set ''-_.~'' then False
      else if c \<in> set ''$&+,/:;=?@'' \<and> mode = encodePath then c = CHR ''?''
      else if c \<in> set ''$&+,/:;=?@'' \<and> mode = encodeUserPassword then c \<in> set ''@/?:''
      else if c \<in> set ''$&+,/:;=?@'' \<and> mode = encodeQueryComponent then True
      else if c \<in> set ''$&+,/:;=?@'' \<and> mode = encodeFragment then False
      else if mode = encodeFragment \<and> c \<in> set ''!()*'' then False
      else True)"

fun escape :: "urlMode \<Rightarrow> string \<Rightarrow> string" where
  "escape mode [] = []"
| "escape mode (c # s) =
     (if \<not> shouldEscape mode c then c # escape mode s
      else if c = CHR '' '' \<and> mode = encodeQueryComponent then CHR ''+'' # escape mode s
      else CHR ''%'' # upperHex (code c div 16) # upperHex (code c mod 16) # escape mode s)"

definition quoteByte :: "char \<Rightarrow> string" where
  "quoteByte c =
     (let n = code c
      in if c = CHR 0x22 \<or> n = 92 then [char_of (92 :: nat), c]
         else if n = 7 then [char_of (92 :: nat), CHR ''a''] else if n = 8 then [char_of (92 :: nat), CHR ''b'']
         else if n = 12 then [char_of (92 :: nat), CHR ''f''] else if n = 10 then [char_of (92 :: nat), CHR ''n'']
         else if n = 13 then [char_of (92 :: nat), CHR ''r''] else if n = 9 then [char_of (92 :: nat), CHR ''t'']
         else if n = 11 then [char_of (92 :: nat), CHR ''v'']
         else if n < 32 \<or> n = 127 then char_of (92 :: nat) # CHR ''x'' # (if n < 16 then ''0'' else []) @ hex n
         else [c])"

definition quote :: "string \<Rightarrow> string" where
  "quote s = CHR 0x22 # concat (map quoteByte s) @ [CHR 0x22]"

definition escapeError :: "string \<Rightarrow> err" where
  "escapeError s = Msg (''invalid URL escape '' @ quote s)"

text \<open>What the first pass of \<^verbatim>\<open>unescape\<close> refuses in host and zone.\<close>

definition badEscape :: "urlMode \<Rightarrow> nat \<Rightarrow> nat \<Rightarrow> bool" where
  "badEscape mode a b \<longleftrightarrow>
     mode = encodeHost \<and> a < 8 \<and> \<not> (a = 2 \<and> b = 5) \<or>
     mode = encodeZone \<and> \<not> (a = 2 \<and> b = 5) \<and> 16 * a + b \<noteq> 32 \<and> shouldEscape encodeHost (char_of (16 * a + b))"

fun unescape :: "urlMode \<Rightarrow> string \<Rightarrow> err + string" where
  "unescape mode [] = Inr []"
| "unescape mode (c # s) =
     (if c = CHR ''%'' then
        (case s of
           x # y # r \<Rightarrow>
             (case (unhex x, unhex y) of
                (Some a, Some b) \<Rightarrow>
                  if badEscape mode a b then Inl (escapeError [c, x, y])
                  else bindE (unescape mode r) (\<lambda>t. Inr (char_of (16 * a + b) # t))
              | _ \<Rightarrow> Inl (escapeError [c, x, y]))
         | _ \<Rightarrow> Inl (escapeError (c # s)))
      else if mode \<in> {encodeHost, encodeZone} \<and> code c < 128 \<and> shouldEscape mode c
        then Inl (Msg (''invalid character '' @ quote [c] @ '' in host name''))
      else if c = CHR ''+'' \<and> mode = encodeQueryComponent
        then bindE (unescape mode s) (\<lambda>t. Inr (CHR '' '' # t))
      else bindE (unescape mode s) (\<lambda>t. Inr (c # t)))"

subsection \<open>Query strings\<close>

type_synonym Values = "string list gomap"

definition cut :: "char \<Rightarrow> string \<Rightarrow> string \<times> string" where
  "cut sep s = (case cutChar sep s of None \<Rightarrow> (s, []) | Some p \<Rightarrow> p)"

definition addValue :: "Values \<Rightarrow> string \<times> string \<Rightarrow> Values" where
  "addValue m kv = AList.update (fst kv) (mget [] m (fst kv) @ [snd kv]) m"

text \<open>
  One \<^verbatim>\<open>&\<close>-separated piece of a query: \<open>None\<close> for a piece that is skipped.
\<close>

definition queryPair :: "string \<Rightarrow> (string \<times> string) option" where
  "queryPair piece =
     (if CHR '';'' \<in> set piece \<or> piece = [] then None
      else let (k, v) = cut (CHR ''='') piece
           in case (unescape encodeQueryComponent k, unescape encodeQueryComponent v) of
                (Inr k', Inr v') \<Rightarrow> Some (k', v')
              | _ \<Rightarrow> None)"

definition parseQuery :: "string \<Rightarrow> Values" where
  "parseQuery q = foldl addValue [] (List.map_filter queryPair (splitChar (CHR ''&'') q))"

definition vget :: "Values \<Rightarrow> string \<Rightarrow> string" where
  "vget q k = (case mget [] q k of [] \<Rightarrow> [] | v # _ \<Rightarrow> v)"

definition vdel :: "string \<Rightarrow> Values \<Rightarrow> Values" where
  "vdel k q = AList.delete k q"

definition encode :: "Values \<Rightarrow> string" where
  "encode q = join ''&'' (concat (map (\<lambda>k. map (\<lambda>v. escape encodeQueryComponent k @ ''='' @ escape encodeQueryComponent v)
     (mget [] q k)) (sortedKeys q)))"

subsection \<open>URLs\<close>

record URL =
  Scheme :: string
  Opaque :: string
  User :: "(string \<times> string option) option"
  Host :: string
  Path :: string
  RawPath :: string
  OmitHost :: bool
  ForceQuery :: bool
  RawQuery :: string
  Fragment :: string
  RawFragment :: string

definition urlZero :: URL where
  "urlZero = \<lparr>Scheme = [], Opaque = [], User = None, Host = [], Path = [], RawPath = [], OmitHost = False,
     ForceQuery = False, RawQuery = [], Fragment = [], RawFragment = []\<rparr>"

definition urlQuery :: "URL \<Rightarrow> Values" where
  "urlQuery u = parseQuery (RawQuery u)"

definition schemeChar :: "char \<Rightarrow> bool" where
  "schemeChar c \<longleftrightarrow> isAlpha c \<or> isDigit c \<or> c \<in> set ''+-.''"

definition getScheme :: "string \<Rightarrow> err + string \<times> string" where
  "getScheme s =
     (let p = takeWhile schemeChar s; r = dropWhile schemeChar s
      in case (p, r) of
           ([], CHR '':'' # _) \<Rightarrow> Inl (Msg ''missing protocol scheme'')
         | (c # _, CHR '':'' # r') \<Rightarrow> if isAlpha c then Inr (p, r') else Inr ([], s)
         | _ \<Rightarrow> Inr ([], s))"

fun validOptionalPort :: "string \<Rightarrow> bool" where
  "validOptionalPort [] \<longleftrightarrow> True"
| "validOptionalPort (c # s) \<longleftrightarrow> c = CHR '':'' \<and> list_all isDigit s"

text \<open>Splitting at the last occurrence of a character; the character starts the second part.\<close>

definition atLast :: "char \<Rightarrow> string \<Rightarrow> (string \<times> string) option" where
  "atLast c s = (if c \<in> set s then Some (rev (tl (dropWhile (\<lambda>x. x \<noteq> c) (rev s))), c # rev (takeWhile (\<lambda>x. x \<noteq> c) (rev s)))
     else None)"

fun splitZone :: "string \<Rightarrow> (string \<times> string) option" where
  "splitZone [] = None"
| "splitZone (c # s) = (if hasPrefix (c # s) ''%25'' then Some ([], c # s)
     else case splitZone s of None \<Rightarrow> None | Some (a, b) \<Rightarrow> Some (c # a, b))"

definition parseHost :: "string \<Rightarrow> err + string" where
  "parseHost host =
     (if hasPrefix host ''['' then
        (case atLast (CHR '']'') host of
           None \<Rightarrow> Inl (Msg (''missing '' @ [CHR 0x27] @ '']'' @ [CHR 0x27] @ '' in host''))
         | Some (a, b) \<Rightarrow>
             if \<not> validOptionalPort (tl b) then Inl (Msg (''invalid port '' @ quote (tl b) @ '' after host''))
             else case splitZone a of
               Some (a1, z) \<Rightarrow>
                 bindE (unescape encodeHost a1) (\<lambda>h1.
                 bindE (unescape encodeZone z) (\<lambda>h2.
                 bindE (unescape encodeHost b) (\<lambda>h3. Inr (h1 @ h2 @ h3))))
             | None \<Rightarrow> unescape encodeHost host)
      else case atLast (CHR '':'') host of
          Some (a, b) \<Rightarrow>
            if \<not> validOptionalPort b then Inl (Msg (''invalid port '' @ quote b @ '' after host''))
            else unescape encodeHost host
        | None \<Rightarrow> unescape encodeHost host)"

definition validUserinfo :: "string \<Rightarrow> bool" where
  "validUserinfo s \<longleftrightarrow> list_all (\<lambda>c. isAlpha c \<or> isDigit c \<or> c \<in> set (CHR 0x27 # ''-._:~!$&()*+,;=%@'')) s"

definition parseAuthority :: "string \<Rightarrow> err + (string \<times> string option) option \<times> string" where
  "parseAuthority a =
     (case atLast (CHR ''@'') a of
        None \<Rightarrow> bindE (parseHost a) (\<lambda>h. Inr (None, h))
      | Some (ui, hostPart) \<Rightarrow>
          bindE (parseHost (tl hostPart)) (\<lambda>h.
            if \<not> validUserinfo ui then Inl (Msg ''net/url: invalid userinfo'')
            else case cutChar (CHR '':'') ui of
              None \<Rightarrow> bindE (unescape encodeUserPassword ui) (\<lambda>n. Inr (Some (n, None), h))
            | Some (n, p) \<Rightarrow>
                bindE (unescape encodeUserPassword n) (\<lambda>n'.
                bindE (unescape encodeUserPassword p) (\<lambda>p'. Inr (Some (n', Some p'), h)))))"

definition setPath :: "string \<Rightarrow> URL \<Rightarrow> err + URL" where
  "setPath p u = bindE (unescape encodePath p) (\<lambda>path.
     Inr (u\<lparr>Path := path, RawPath := (if p = escape encodePath path then [] else p)\<rparr>))"

definition setFragment :: "string \<Rightarrow> URL \<Rightarrow> err + URL" where
  "setFragment f u = bindE (unescape encodeFragment f) (\<lambda>frag.
     Inr (u\<lparr>Fragment := frag, RawFragment := (if f = escape encodeFragment frag then [] else f)\<rparr>))"

definition parseRest :: "string \<Rightarrow> URL \<Rightarrow> err + URL" where
  "parseRest rest u =
     (if \<not> hasPrefix rest ''/'' \<and> Scheme u \<noteq> [] then Inr (u\<lparr>Opaque := rest\<rparr>)
      else if \<not> hasPrefix rest ''/'' \<and> CHR '':'' \<in> set (fst (cut (CHR ''/'') rest))
        then Inl (Msg ''first path segment in URL cannot contain colon'')
      else if (Scheme u \<noteq> [] \<or> \<not> hasPrefix rest ''///'') \<and> hasPrefix rest ''//'' then
        (let a = takeWhile (\<lambda>c. c \<noteq> CHR ''/'') (drop 2 rest);
             r = dropWhile (\<lambda>c. c \<noteq> CHR ''/'') (drop 2 rest)
         in bindE (parseAuthority a) (\<lambda>(usr, h). setPath r (u\<lparr>User := usr, Host := h\<rparr>)))
      else if Scheme u \<noteq> [] \<and> hasPrefix rest ''/'' then setPath rest (u\<lparr>OmitHost := True\<rparr>)
      else setPath rest u)"

definition isCTL :: "char \<Rightarrow> bool" where
  "isCTL c \<longleftrightarrow> code c < 32 \<or> code c = 127"

definition parseNoFrag :: "string \<Rightarrow> err + URL" where
  "parseNoFrag s =
     (if list_ex isCTL s then Inl (Msg ''net/url: invalid control character in URL'')
      else if s = ''*'' then Inr (urlZero\<lparr>Path := ''*''\<rparr>)
      else bindE (getScheme s) (\<lambda>(sch, rest).
        let u = urlZero\<lparr>Scheme := toLower sch\<rparr>
        in if rest \<noteq> [] \<and> last rest = CHR ''?'' \<and> count_list rest (CHR ''?'') = 1
           then parseRest (butlast rest) (u\<lparr>ForceQuery := True\<rparr>)
           else parseRest (fst (cut (CHR ''?'') rest)) (u\<lparr>RawQuery := snd (cut (CHR ''?'') rest)\<rparr>)))"

definition urlParse :: "string \<Rightarrow> err + URL" where
  "urlParse raw =
     (let (s, frag) = cut (CHR ''#'') raw
      in case parseNoFrag s of
           Inl e \<Rightarrow> Inl (Wrap (''parse '' @ quote s @ '': '') e)
         | Inr u \<Rightarrow>
             if frag = [] then Inr u
             else case setFragment frag u of
               Inl e \<Rightarrow> Inl (Wrap (''parse '' @ quote raw @ '': '') e)
             | Inr u' \<Rightarrow> Inr u')"

subsection \<open>Printing\<close>

definition validEncoded :: "urlMode \<Rightarrow> string \<Rightarrow> bool" where
  "validEncoded mode s \<longleftrightarrow>
     list_all (\<lambda>c. c \<in> set (CHR 0x27 # ''!$&()*+,;=:@[]%'') \<or> \<not> shouldEscape mode c) s"

definition escapedPath :: "URL \<Rightarrow> string" where
  "escapedPath u =
     (if RawPath u \<noteq> [] \<and> validEncoded encodePath (RawPath u) \<and> unescape encodePath (RawPath u) = Inr (Path u)
      then RawPath u
      else if Path u = ''*'' then ''*'' else escape encodePath (Path u))"

definition escapedFragment :: "URL \<Rightarrow> string" where
  "escapedFragment u =
     (if RawFragment u \<noteq> [] \<and> validEncoded encodeFragment (RawFragment u) \<and>
         unescape encodeFragment (RawFragment u) = Inr (Fragment u)
      then RawFragment u else escape encodeFragment (Fragment u))"

definition userString :: "string \<times> string option \<Rightarrow> string" where
  "userString ui = escape encodeUserPassword (fst ui) @
     (case snd ui of None \<Rightarrow> [] | Some p \<Rightarrow> '':'' @ escape encodeUserPassword p)"

definition urlString :: "URL \<Rightarrow> string" where
  "urlString u =
     (let sch = (if Scheme u = [] then [] else Scheme u @ '':'');
          body = (if Opaque u \<noteq> [] then Opaque u
            else let auth = (if (Scheme u = [] \<and> Host u = [] \<and> User u = None) \<or>
                               (OmitHost u \<and> Host u = [] \<and> User u = None) then []
                             else (if Host u \<noteq> [] \<or> Path u \<noteq> [] \<or> User u \<noteq> None then ''//'' else []) @
                               (case User u of None \<Rightarrow> [] | Some ui \<Rightarrow> userString ui @ ''@'') @
                               escape encodeHost (Host u));
                     path = escapedPath u;
                     slash = (if path \<noteq> [] \<and> \<not> hasPrefix path ''/'' \<and> Host u \<noteq> [] then ''/'' else []);
                     dot = (if sch @ auth @ slash = [] \<and> CHR '':'' \<in> set (fst (cut (CHR ''/'') path)) then ''./'' else [])
                 in auth @ slash @ dot @ path)
      in sch @ body @ (if ForceQuery u \<or> RawQuery u \<noteq> [] then CHR ''?'' # RawQuery u else []) @
         (if Fragment u = [] then [] else CHR ''#'' # escapedFragment u))"

subsection \<open>Hosts and ports\<close>

definition splitHostPortURL :: "string \<Rightarrow> string \<times> string" where
  "splitHostPortURL hp =
     (let (h, p) = (case atLast (CHR '':'') hp of
            Some (a, b) \<Rightarrow> if validOptionalPort b then (a, tl b) else (hp, [])
          | None \<Rightarrow> (hp, []))
      in (if hasPrefix h ''['' \<and> last h = CHR '']'' then butlast (tl h) else h, p))"

definition urlHostname :: "URL \<Rightarrow> string" where
  "urlHostname u = fst (splitHostPortURL (Host u))"

definition urlPort :: "URL \<Rightarrow> string" where
  "urlPort u = snd (splitHostPortURL (Host u))"

definition joinHostPort :: "string \<Rightarrow> string \<Rightarrow> string" where
  "joinHostPort h p = (if CHR '':'' \<in> set h then ''['' @ h @ '']:'' @ p else h @ '':'' @ p)"

definition addrError :: "string \<Rightarrow> string \<Rightarrow> err" where
  "addrError hp why = Msg ((if hp = [] then [] else ''address '' @ hp @ '': '') @ why)"

text \<open>\<^verbatim>\<open>net.SplitHostPort\<close>.\<close>

definition splitHostPort :: "string \<Rightarrow> err + string \<times> string" where
  "splitHostPort hp =
     (case atLast (CHR '':'') hp of
        None \<Rightarrow> Inl (addrError hp ''missing port in address'')
      | Some (a, b) \<Rightarrow>
          if hasPrefix hp ''['' then
            (case cutChar (CHR '']'') hp of
               None \<Rightarrow> Inl (addrError hp (''missing '' @ [CHR 0x27] @ '']'' @ [CHR 0x27] @ '' in address''))
             | Some (h, r) \<Rightarrow>
                 if r = [] then Inl (addrError hp ''missing port in address'')
                 else if length r \<noteq> length b then
                   (if hasPrefix r '':'' then Inl (addrError hp ''too many colons in address'')
                    else Inl (addrError hp ''missing port in address''))
                 else if CHR ''['' \<in> set (tl hp) then Inl (addrError hp (''unexpected '' @ [CHR 0x27] @ ''['' @ [CHR 0x27] @ '' in address''))
                 else if CHR '']'' \<in> set r then Inl (addrError hp (''unexpected '' @ [CHR 0x27] @ '']'' @ [CHR 0x27] @ '' in address''))
                 else Inr (tl h, tl b))
          else if CHR '':'' \<in> set a then Inl (addrError hp ''too many colons in address'')
          else if CHR ''['' \<in> set hp then Inl (addrError hp (''unexpected '' @ [CHR 0x27] @ ''['' @ [CHR 0x27] @ '' in address''))
          else if CHR '']'' \<in> set hp then Inl (addrError hp (''unexpected '' @ [CHR 0x27] @ '']'' @ [CHR 0x27] @ '' in address''))
          else Inr (a, tl b))"

section \<open>Query strings are read back as written\<close>

lemma code_less [simp]: "code c < 256"
  by (simp add: code_def)

lemma char_of_code [simp]: "char_of (code c) = c"
  by (simp add: code_def)

lemma code_upperHex: "n < 16 \<Longrightarrow> code (upperHex n) = (if n < 10 then 48 + n else 55 + n)"
  by (simp add: code_def upperHex_def)

lemma hex_digits:
  assumes "n < 16"
  shows "unhex (upperHex n) = Some n" and "upperHex n \<notin> set ''&=;''"
proof -
  show "unhex (upperHex n) = Some n"
    using assms by (simp add: unhex_def isDigit_def code_upperHex)
  have "code (upperHex n) \<notin> {38, 59, 61}"
    using assms by (simp add: code_upperHex)
  moreover have "code CHR ''&'' = 38" "code CHR ''='' = 61" "code CHR '';'' = 59"
    by (simp_all add: code_def)
  ultimately show "upperHex n \<notin> set ''&=;''" by auto
qed

lemma query_special [simp]:
  "shouldEscape encodeQueryComponent CHR ''%''" "shouldEscape encodeQueryComponent CHR ''+''"
  "shouldEscape encodeQueryComponent CHR ''&''" "shouldEscape encodeQueryComponent CHR ''=''"
  "shouldEscape encodeQueryComponent CHR '';''" "shouldEscape encodeQueryComponent CHR '' ''"
  by code_simp+

lemma unescape_escape [simp]:
  "unescape encodeQueryComponent (escape encodeQueryComponent s) = Inr s"
proof (induction s)
  case Nil
  then show ?case by simp
next
  case (Cons c s)
  have "16 * (code c div 16) + code c mod 16 = code c" by simp
  with Cons show ?case
    using query_special(1,2)
    by (auto simp: hex_digits badEscape_def div_less_iff_less_mult simp del: query_special)
qed

lemma escape_query_chars: "c \<in> set ''&=;'' \<Longrightarrow> c \<notin> set (escape encodeQueryComponent s)"
proof (induction s)
  case Nil
  then show ?case by simp
next
  case (Cons d s)
  have "upperHex (code d div 16) \<notin> set ''&=;''" "upperHex (code d mod 16) \<notin> set ''&=;''"
    by (rule hex_digits; simp add: div_less_iff_less_mult)+
  with Cons show ?case using query_special(3-5) by auto
qed

lemma splitChar_join:
  "ps \<noteq> [] \<Longrightarrow> (\<And>p. p \<in> set ps \<Longrightarrow> sep \<notin> set p) \<Longrightarrow> splitChar sep (join [sep] ps) = ps"
proof (induction "[sep]" ps rule: join.induct)
  case (3 s t ts)
  then show ?case by (simp add: splitChar_append)
qed (simp_all add: splitChar_none)

lemma addValues:
  "mget [] (foldl addValue m ps) k = mget [] m k @ map snd (filter (\<lambda>p. fst p = k) ps)"
  by (induction ps arbitrary: m) (auto simp: addValue_def)

lemma distinct_addValues: "distinct (map fst m) \<Longrightarrow> distinct (map fst (foldl addValue m ps))"
  by (induction ps arbitrary: m) (auto simp: addValue_def distinct_update)

lemma distinct_parseQuery [simp]: "distinct (map fst (parseQuery s))"
  by (simp add: parseQuery_def distinct_addValues)

lemma distinct_vdel [simp]: "distinct (map fst q) \<Longrightarrow> distinct (map fst (vdel k q))"
  by (simp add: vdel_def distinct_delete)

lemma mget_vdel [simp]: "mget d (vdel k q) k' = (if k' = k then d else mget d q k')"
  by (simp add: mget_def vdel_def delete_conv')

lemma vget_vdel [simp]: "vget (vdel k q) k' = (if k' = k then [] else vget q k')"
  by (simp add: vget_def)

definition pairText :: "string \<times> string \<Rightarrow> string" where
  "pairText kv = escape encodeQueryComponent (fst kv) @ ''='' @ escape encodeQueryComponent (snd kv)"

lemma queryPair_pairText [simp]: "queryPair (pairText kv) = Some kv"
proof -
  have n: "CHR ''='' \<notin> set (escape encodeQueryComponent (fst kv))"
    "CHR '';'' \<notin> set (escape encodeQueryComponent (fst kv))" "CHR '';'' \<notin> set (escape encodeQueryComponent (snd kv))"
    by (rule escape_query_chars; simp)+
  then show ?thesis
    by (simp add: queryPair_def pairText_def cut_def cutChar_append)
qed

lemma pairText_amp: "CHR ''&'' \<notin> set (pairText kv)"
  using escape_query_chars [of "CHR ''&''"] by (simp add: pairText_def)

definition pairs :: "Values \<Rightarrow> (string \<times> string) list" where
  "pairs q = concat (map (\<lambda>k. map (Pair k) (mget [] q k)) (sortedKeys q))"

lemma encode_pairs: "encode q = join ''&'' (map pairText (pairs q))"
  by (simp add: encode_def pairs_def pairText_def map_concat comp_def)

lemma parseQuery_pairs: "parseQuery (join ''&'' (map pairText ps)) = foldl addValue [] ps"
proof (cases "ps = []")
  case True
  then show ?thesis by (simp add: parseQuery_def queryPair_def List.map_filter_def)
next
  case False
  then have "splitChar (CHR ''&'') (join ''&'' (map pairText ps)) = map pairText ps"
    by (intro splitChar_join) (auto simp: pairText_amp)
  then show ?thesis
    by (simp add: parseQuery_def List.map_filter_def comp_def)
qed

lemma filter_pairs:
  "distinct ks \<Longrightarrow> map snd (filter (\<lambda>p. fst p = k) (concat (map (\<lambda>k. map (Pair k) (f k)) ks))) = (if k \<in> set ks then f k else [])"
  by (induction ks) (auto simp: filter_map comp_def filter_empty_conv)

lemma parseQuery_encode:
  assumes "distinct (map fst q)"
  shows "mget [] (parseQuery (encode q)) k = mget [] q k"
proof -
  have d: "distinct (sortedKeys q)" "set (sortedKeys q) = fst ` set q"
    using assms by (simp_all add: sortedKeys_def)
  have "k \<notin> fst ` set q \<Longrightarrow> mget [] q k = []"
    by (simp add: mget_def map_of_eq_None_iff [THEN iffD2])
  with d show ?thesis
    by (simp add: encode_pairs parseQuery_pairs addValues pairs_def filter_pairs) (simp add: mget_def)
qed

end
