(* ===== verification/Metrics.thy ===== *)
theory Metrics
  imports Go_Text
begin

text \<open>
  \<^verbatim>\<open>internal/metrics.go\<close>: the process-wide telemetry, the functions that record events in
  it, and the Prometheus text the metrics handler writes. Counters are \<^verbatim>\<open>uint64\<close> and wrap;
  sums of seconds are \<^verbatim>\<open>float64\<close>. Each recording function runs under the lock of the
  telemetry, so it is one step. The figures of the Go run-time are an
  argument of the handler, and so is what the HTTP server around it returns.
\<close>

section \<open>Definitions\<close>

record telemetry =
  enabled :: bool
  selectedTotal :: "nat gomap"
  failuresTotal :: "nat gomap"
  healthyGauge :: "f64 gomap"
  wsPackets :: "nat gomap"
  wsBytes :: "nat gomap"
  wsDialSum :: "f64 gomap"
  wsDialCount :: "nat gomap"
  upstreamBytes :: "nat gomap"
  tunPackets :: "nat gomap"
  tunBytes :: "nat gomap"
  tunDrops :: "nat gomap"
  tunErrors :: "nat gomap"
  probeRuns :: "nat gomap"
  probeDurSum :: "f64 gomap"
  probeDurCount :: "nat gomap"

definition noMetrics :: telemetry where
  "noMetrics = \<lparr>enabled = False, selectedTotal = [], failuresTotal = [], healthyGauge = [],
     wsPackets = [], wsBytes = [], wsDialSum = [], wsDialCount = [], upstreamBytes = [],
     tunPackets = [], tunBytes = [], tunDrops = [], tunErrors = [], probeRuns = [],
     probeDurSum = [], probeDurCount = []\<rparr>"

definition EnablePrometheusMetrics :: "telemetry \<Rightarrow> telemetry" where
  "EnablePrometheusMetrics t = (if enabled t then t else noMetrics\<lparr>enabled := True\<rparr>)"

text \<open>\<^verbatim>\<open>m[k] += n\<close> on \<^verbatim>\<open>uint64\<close> values, with \<^verbatim>\<open>uint64(n)\<close> of an \<^verbatim>\<open>int\<close>, and on \<^verbatim>\<open>float64\<close> values.\<close>

definition countUp :: "int \<Rightarrow> string \<Rightarrow> nat gomap \<Rightarrow> nat gomap" where
  "countUp n k m = AList.update k ((mget 0 m k + nat (n mod 2 ^ 64)) mod 2 ^ 64) m"

definition sumUp :: "f64 \<Rightarrow> string \<Rightarrow> f64 gomap \<Rightarrow> f64 gomap" where
  "sumUp x k m = AList.update k (f_add (mget (Fin 0) m k) x) m"

text \<open>\<^verbatim>\<open>Duration.Seconds\<close>.\<close>

definition seconds :: "int \<Rightarrow> f64" where
  "seconds d =
     (let s = sgn d * (\<bar>d\<bar> div 10 ^ 9); ns = sgn d * (\<bar>d\<bar> mod 10 ^ 9)
      in f_add (f_of_int s) (f_div (f_of_int ns) (f_of_int (10 ^ 9))))"

definition key2 :: "string \<Rightarrow> string \<Rightarrow> string" where
  "key2 upstream proto = ''upstream='' @ upstream @ '',proto='' @ proto"

definition observeSelection :: "string \<Rightarrow> string \<Rightarrow> telemetry \<Rightarrow> telemetry" where
  "observeSelection upstream proto t =
     (if \<not> enabled t then t
      else t\<lparr>selectedTotal := countUp 1 (key2 upstream proto) (selectedTotal t)\<rparr>)"

definition failureReason :: "err option \<Rightarrow> string" where
  "failureReason err =
     (case err of
        None \<Rightarrow> ''unknown''
      | Some x \<Rightarrow>
          let e = toLower (err_text x)
          in if contains e ''timeout'' \<or> contains e ''deadline'' then ''timeout''
             else if contains e ''tls'' \<or> contains e ''x509'' \<or> contains e ''certificate'' then ''tls''
             else if contains e ''dns'' \<or> contains e ''no such host'' then ''dns''
             else if contains e ''refused'' then ''refused''
             else ''other'')"

definition observeFailure :: "string \<Rightarrow> string \<Rightarrow> err option \<Rightarrow> telemetry \<Rightarrow> telemetry" where
  "observeFailure upstream proto err t =
     (if \<not> enabled t then t
      else t\<lparr>failuresTotal :=
        countUp 1 (key2 upstream proto @ '',reason='' @ failureReason err) (failuresTotal t)\<rparr>)"

definition setHealthy :: "string \<Rightarrow> string \<Rightarrow> bool \<Rightarrow> telemetry \<Rightarrow> telemetry" where
  "setHealthy upstream proto healthy t =
     (if \<not> enabled t then t
      else t\<lparr>healthyGauge :=
        AList.update (key2 upstream proto) (if healthy then Fin 1 else Fin 0) (healthyGauge t)\<rparr>)"

definition observeWSFrame :: "string \<Rightarrow> int \<Rightarrow> telemetry \<Rightarrow> telemetry" where
  "observeWSFrame direction n t =
     (if \<not> enabled t then t
      else let k = ''dir='' @ direction
           in t\<lparr>wsPackets := countUp 1 k (wsPackets t), wsBytes := countUp n k (wsBytes t)\<rparr>)"

definition observeDial :: "string \<Rightarrow> string \<Rightarrow> int \<Rightarrow> telemetry \<Rightarrow> telemetry" where
  "observeDial upstream proto d t =
     (if \<not> enabled t then t
      else let k = key2 upstream proto
           in t\<lparr>wsDialCount := countUp 1 k (wsDialCount t), wsDialSum := sumUp (seconds d) k (wsDialSum t)\<rparr>)"

definition observeUpstreamTraffic :: "string \<Rightarrow> string \<Rightarrow> string \<Rightarrow> int \<Rightarrow> telemetry \<Rightarrow> telemetry" where
  "observeUpstreamTraffic upstream proto direction n t =
     (if \<not> enabled t then t
      else t\<lparr>upstreamBytes :=
        countUp n (key2 upstream proto @ '',dir='' @ direction) (upstreamBytes t)\<rparr>)"

definition observeTunFrame :: "string \<Rightarrow> int \<Rightarrow> telemetry \<Rightarrow> telemetry" where
  "observeTunFrame direction n t =
     (if \<not> enabled t then t
      else let k = ''dir='' @ direction
           in t\<lparr>tunPackets := countUp 1 k (tunPackets t), tunBytes := countUp n k (tunBytes t)\<rparr>)"

definition observeTunDrop :: "string \<Rightarrow> telemetry \<Rightarrow> telemetry" where
  "observeTunDrop reason t =
     (if \<not> enabled t then t
      else t\<lparr>tunDrops := countUp 1 (''reason='' @ reason) (tunDrops t)\<rparr>)"

definition observeTunError :: "string \<Rightarrow> telemetry \<Rightarrow> telemetry" where
  "observeTunError operation t =
     (if \<not> enabled t then t
      else t\<lparr>tunErrors := countUp 1 (''op='' @ operation) (tunErrors t)\<rparr>)"

definition observeProbe ::
  "string \<Rightarrow> string \<Rightarrow> string \<Rightarrow> err option \<Rightarrow> int \<Rightarrow> telemetry \<Rightarrow> telemetry" where
  "observeProbe upstream proto stage err d t =
     (if \<not> enabled t then t
      else let result = (if err \<noteq> None then ''error'' else ''ok'');
               k = key2 upstream proto @ '',stage='' @ stage @ '',result='' @ result
           in t\<lparr>probeRuns := countUp 1 k (probeRuns t),
                probeDurCount := countUp 1 k (probeDurCount t),
                probeDurSum := sumUp (seconds d) k (probeDurSum t)\<rparr>)"

definition toPromLabels :: "string \<Rightarrow> string" where
  "toPromLabels s =
     join '','' (map (\<lambda>p. case cutChar (CHR ''='') p of
         None \<Rightarrow> p
       | Some (k, v) \<Rightarrow> k @ [CHR ''='', CHR 0x22] @ replaceChar (CHR 0x22) [CHR 0x5C, CHR 0x22] v @ [CHR 0x22])
       (splitChar (CHR '','') s))"

definition nl :: string where "nl = [CHR 0x0A]"

definition writeCounterVec :: "string \<Rightarrow> nat gomap \<Rightarrow> string" where
  "writeCounterVec name data =
     concat (map (\<lambda>k. name @ ''{'' @ toPromLabels k @ ''} '' @ itoa (mget 0 data k) @ nl) (sortedKeys data))"

definition writeGaugeVec :: "string \<Rightarrow> f64 gomap \<Rightarrow> string" where
  "writeGaugeVec name data =
     concat (map (\<lambda>k. name @ ''{'' @ toPromLabels k @ ''} '' @ fmtFixed 0 (mget (Fin 0) data k) @ nl) (sortedKeys data))"

definition writeSummaryAsCountAndSum :: "string \<Rightarrow> nat gomap \<Rightarrow> f64 gomap \<Rightarrow> string" where
  "writeSummaryAsCountAndSum name counts totals =
     concat (map (\<lambda>k.
         name @ ''_count{'' @ toPromLabels k @ ''} '' @ itoa (mget 0 counts k) @ nl @
         name @ ''_sum{'' @ toPromLabels k @ ''} '' @ fmtFixed 6 (mget (Fin 0) totals k) @ nl) (sortedKeys counts))"

definition writeGauge :: "string \<Rightarrow> f64 \<Rightarrow> string" where
  "writeGauge name v = name @ '' '' @ fmtFixed 6 v @ nl"

definition writeCounter :: "string \<Rightarrow> f64 \<Rightarrow> string" where
  "writeCounter name v = name @ '' '' @ fmtFixed 0 v @ nl"

text \<open>What is used of the run-time's memory statistics; \<open>PauseNs\<close> is a ring of 256 entries.\<close>

record memStats =
  Alloc :: nat
  HeapInuse :: nat
  HeapIdle :: nat
  HeapReleased :: nat
  Sys :: nat
  PauseNs :: "nat \<Rightarrow> nat"
  NumGC :: nat

definition writeRuntimeMemoryMetrics :: "memStats \<Rightarrow> string" where
  "writeRuntimeMemoryMetrics ms =
     writeGauge ''outlinews_go_mem_alloc_bytes'' (f_of_int (int (Alloc ms))) @
     writeGauge ''outlinews_go_heap_inuse_bytes'' (f_of_int (int (HeapInuse ms))) @
     writeGauge ''outlinews_go_heap_idle_bytes'' (f_of_int (int (HeapIdle ms))) @
     writeGauge ''outlinews_go_heap_released_bytes'' (f_of_int (int (HeapReleased ms))) @
     writeGauge ''outlinews_go_mem_sys_bytes'' (f_of_int (int (Sys ms))) @
     writeGauge ''outlinews_go_gc_last_pause_seconds''
       (f_div (f_of_int (int (PauseNs ms ((NumGC ms + 255) mod 2 ^ 32 mod 256)))) (Fin (10 ^ 9))) @
     writeCounter ''outlinews_go_gc_cycles_total'' (f_of_int (int (NumGC ms)))"

text \<open>The handler: status code and body.\<close>

definition metricsHandler :: "memStats \<Rightarrow> telemetry \<Rightarrow> nat \<times> string" where
  "metricsHandler ms t =
     (if \<not> enabled t then (503, ''# metrics disabled'' @ nl)
      else (200,
        writeCounterVec ''outlinews_upstream_selected_total'' (selectedTotal t) @
        writeCounterVec ''outlinews_upstream_failures_total'' (failuresTotal t) @
        writeGaugeVec ''outlinews_upstream_healthy'' (healthyGauge t) @
        writeCounterVec ''outlinews_ws_packets_total'' (wsPackets t) @
        writeCounterVec ''outlinews_ws_bytes_total'' (wsBytes t) @
        writeSummaryAsCountAndSum ''outlinews_ws_dial_duration_seconds'' (wsDialCount t) (wsDialSum t) @
        writeCounterVec ''outlinews_upstream_bytes_total'' (upstreamBytes t) @
        writeCounterVec ''outlinews_tun_packets_total'' (tunPackets t) @
        writeCounterVec ''outlinews_tun_bytes_total'' (tunBytes t) @
        writeCounterVec ''outlinews_tun_drops_total'' (tunDrops t) @
        writeCounterVec ''outlinews_tun_errors_total'' (tunErrors t) @
        writeCounterVec ''outlinews_probe_runs_total'' (probeRuns t) @
        writeSummaryAsCountAndSum ''outlinews_probe_duration_seconds'' (probeDurCount t) (probeDurSum t) @
        writeRuntimeMemoryMetrics ms))"

text \<open>Serving: \<open>listenAndServe\<close> is the error with which the server at an address ends.\<close>

definition ErrServerClosed :: err where
  "ErrServerClosed = Sentinel ''http: Server closed''"

definition StartMetricsServer :: "(string \<Rightarrow> err) \<Rightarrow> string \<Rightarrow> err option" where
  "StartMetricsServer listenAndServe addr =
     (if trimSpace addr = [] then Some (Msg ''empty metrics address'')
      else let err = listenAndServe addr
           in if errors_Is err ErrServerClosed then None else Some (Wrap ''metrics server: '' err))"

text \<open>The events the rest of the program records.\<close>

datatype tevent =
    Selected string string
  | Failed string string "err option"
  | Healthy string string bool
  | WSFrame string int
  | Dialed string string int
  | Traffic string string string int
  | TunFrame string int
  | TunDrop string
  | TunError string
  | Probed string string string "err option" int

fun tapply :: "tevent \<Rightarrow> telemetry \<Rightarrow> telemetry" where
  "tapply (Selected u p) = observeSelection u p"
| "tapply (Failed u p e) = observeFailure u p e"
| "tapply (Healthy u p h) = setHealthy u p h"
| "tapply (WSFrame d n) = observeWSFrame d n"
| "tapply (Dialed u p d) = observeDial u p d"
| "tapply (Traffic u p d n) = observeUpstreamTraffic u p d n"
| "tapply (TunFrame d n) = observeTunFrame d n"
| "tapply (TunDrop r) = observeTunDrop r"
| "tapply (TunError opn) = observeTunError opn"
| "tapply (Probed u p st e d) = observeProbe u p st e d"

section \<open>Counting\<close>

lemmas observe_defs = observeSelection_def observeFailure_def setHealthy_def observeWSFrame_def
  observeDial_def observeUpstreamTraffic_def observeTunFrame_def observeTunDrop_def
  observeTunError_def observeProbe_def

lemma enabled_tapply [simp]: "enabled (tapply e t) = enabled t"
  by (cases e) (simp_all add: observe_defs Let_def)

lemma mget_countUp [simp]:
  "mget 0 (countUp n k m) k' = (if k' = k then (mget 0 m k + nat (n mod 2 ^ 64)) mod 2 ^ 64 else mget 0 m k')"
  by (simp add: countUp_def)

lemma key2_inject:
  assumes "p \<in> {''tcp'', ''udp''}" and "p' \<in> {''tcp'', ''udp''}"
  shows "key2 u p = key2 u' p' \<longleftrightarrow> u = u' \<and> p = p'"
  using assms by (auto simp: key2_def)


lemma selected_fold:
  assumes "enabled t" and "\<And>u p. Selected u p \<in> set evs \<Longrightarrow> p \<in> {''tcp'', ''udp''}"
    and "p \<in> {''tcp'', ''udp''}" and "mget 0 (selectedTotal t) (key2 u p) < 2 ^ 64"
  shows "mget 0 (selectedTotal (fold tapply evs t)) (key2 u p) =
    (mget 0 (selectedTotal t) (key2 u p) + length (filter (\<lambda>e. e = Selected u p) evs)) mod 2 ^ 64"
  using assms(1,2,4)
proof (induction evs arbitrary: t)
  case Nil
  then show ?case by simp
next
  case (Cons e evs)
  have hit: "mget 0 (selectedTotal (tapply e t)) (key2 u p) =
      (mget 0 (selectedTotal t) (key2 u p) + (if e = Selected u p then 1 else 0)) mod 2 ^ 64"
  proof (cases e)
    case (Selected u' p')
    with Cons.prems(2) have "p' \<in> {''tcp'', ''udp''}" by auto
    from key2_inject [OF assms(3) this] show ?thesis
      using Cons.prems(1,3) by (auto simp: observeSelection_def Selected)
  qed (use Cons.prems(1,3) in \<open>simp_all add: observe_defs Let_def\<close>)
  have "mget 0 (selectedTotal (fold tapply evs (tapply e t))) (key2 u p) =
      (mget 0 (selectedTotal (tapply e t)) (key2 u p) + length (filter (\<lambda>e. e = Selected u p) evs)) mod 2 ^ 64"
    by (rule Cons.IH) (use Cons.prems hit in auto)
  also have "\<dots> = (mget 0 (selectedTotal t) (key2 u p) + (if e = Selected u p then 1 else 0) +
      length (filter (\<lambda>e. e = Selected u p) evs)) mod 2 ^ 64"
    unfolding hit by (rule mod_add_left_eq)
  finally show ?case by (simp add: algebra_simps)
qed

lemma toPromLabels_key2:
  assumes "CHR '','' \<notin> set u" and "CHR '','' \<notin> set p" and "CHR 0x22 \<notin> set u" and "CHR 0x22 \<notin> set p"
  shows "toPromLabels (key2 u p) =
    ''upstream='' @ CHR 0x22 # u @ [CHR 0x22] @ '',proto='' @ CHR 0x22 # p @ [CHR 0x22]"
proof -
  have quiet: "replaceChar (CHR 0x22) by s = s" if "CHR 0x22 \<notin> set s" for "by" s
    using that by (induction s) (auto simp: replaceChar_def)
  have "splitChar (CHR '','') (key2 u p) = [''upstream='' @ u, ''proto='' @ p]"
    using assms(1,2) splitChar_append [of "CHR '',''" "''upstream='' @ u" "''proto='' @ p"]
      splitChar_none [of "CHR '',''" "''proto='' @ p"]
    by (simp add: key2_def)
  then show ?thesis
    using assms(3,4) by (simp add: toPromLabels_def quiet)
qed

section \<open>Properties\<close>

text \<open>
  The selection counter counts selections: after metrics were enabled, whatever events are
  recorded in whatever order, the exported counter of an upstream and protocol is the number of
  selections of exactly that upstream and protocol, modulo \<open>2 ^ 64\<close>, and it is exported under
  the labels of that upstream and protocol when the name has neither a comma nor a quote in it.
\<close>

theorem selection_counter_exact:
  assumes "\<And>u p. Selected u p \<in> set evs \<Longrightarrow> p \<in> {''tcp'', ''udp''}" and "p \<in> {''tcp'', ''udp''}"
    and "CHR '','' \<notin> set u" and "CHR 0x22 \<notin> set u"
  shows "mget 0 (selectedTotal (fold tapply evs (EnablePrometheusMetrics noMetrics))) (key2 u p) =
      length (filter (\<lambda>e. e = Selected u p) evs) mod 2 ^ 64 \<and>
    toPromLabels (key2 u p) =
      ''upstream='' @ CHR 0x22 # u @ [CHR 0x22] @ '',proto='' @ CHR 0x22 # p @ [CHR 0x22]"
proof
  have "enabled (EnablePrometheusMetrics noMetrics)"
    and "mget 0 (selectedTotal (EnablePrometheusMetrics noMetrics)) (key2 u p) = 0"
    by (simp_all add: EnablePrometheusMetrics_def noMetrics_def mget_def)
  with selected_fold [OF this(1) assms(1,2)]
  show "mget 0 (selectedTotal (fold tapply evs (EnablePrometheusMetrics noMetrics))) (key2 u p) =
      length (filter (\<lambda>e. e = Selected u p) evs) mod 2 ^ 64"
    by simp
  show "toPromLabels (key2 u p) =
      ''upstream='' @ CHR 0x22 # u @ [CHR 0x22] @ '',proto='' @ CHR 0x22 # p @ [CHR 0x22]"
    by (rule toPromLabels_key2) (use assms(2-4) in auto)
qed

theorem selection_counter_exact_witness:
  "mget 0 (selectedTotal (fold tapply [Selected ''a'' ''tcp'', WSFrame ''in'' 5, Selected ''a'' ''udp'', Selected ''a'' ''tcp'']
     (EnablePrometheusMetrics noMetrics))) (key2 ''a'' ''tcp'') = 2"
proof -
  have h: "p \<in> {''tcp'', ''udp''}"
    if "Selected u p \<in> set [Selected ''a'' ''tcp'', WSFrame ''in'' 5, Selected ''a'' ''udp'', Selected ''a'' ''tcp'']" for u p
    using that by auto
  show ?thesis
    using selection_counter_exact [of "[Selected ''a'' ''tcp'', WSFrame ''in'' 5, Selected ''a'' ''udp'', Selected ''a'' ''tcp'']"
        "''tcp''" "''a''", OF h] by simp
qed

text \<open>
  A comma in an upstream's name breaks the exported line: the labels are split at it.
\<close>

lemma toPromLabels_comma:
  "toPromLabels (key2 ''a,b'' ''tcp'') =
     ''upstream='' @ [CHR 0x22] @ ''a'' @ [CHR 0x22] @ '',b,proto='' @ [CHR 0x22] @ ''tcp'' @ [CHR 0x22]"
  by (simp add: toPromLabels_def key2_def replaceChar_def)

end
