(* ===== verification/Lb_Types.thy ===== *)
theory Lb_Types
  imports Metrics
begin

text \<open>
  The data of the load balancer: configuration (\<^verbatim>\<open>internal/config.go\<close>), health-check and
  upstream state, the balancer itself (\<^verbatim>\<open>internal/lb.go\<close>), and the arithmetic on time it
  uses (\<^verbatim>\<open>util.go\<close>, \<^verbatim>\<open>rand.go\<close>). A \<^verbatim>\<open>time.Duration\<close> is an \<^verbatim>\<open>int64\<close>
  number of nanoseconds, a \<^verbatim>\<open>time.Time\<close> the nanoseconds since the zero time, an unbounded
  integer. Pointers to upstreams are indices into the pool, which never changes. The counting
  semaphores, buffered channels in the code, are the number of tokens in them. Counters of
  check results are unbounded: they grow by one per check.
\<close>

section \<open>Definitions\<close>

type_synonym duration = int
type_synonym gotime = int

definition zeroTime :: gotime where [simp]: "zeroTime = 0"

definition millisecond :: duration where [simp]: "millisecond = 10 ^ 6"
definition second :: duration where [simp]: "second = 10 ^ 9"

text \<open>\<^verbatim>\<open>Time.Sub\<close> saturates; \<^verbatim>\<open>Duration.Milliseconds\<close> truncates towards zero.\<close>

definition timeSub :: "gotime \<Rightarrow> gotime \<Rightarrow> duration" where
  "timeSub a b = max (- (2 ^ 63)) (min (2 ^ 63 - 1) (a - b))"

definition milliseconds :: "duration \<Rightarrow> int" where
  "milliseconds d = sgn d * (\<bar>d\<bar> div 10 ^ 6)"

subsection \<open>Configuration\<close>

record UpstreamConfig =
  Name :: string
  Weight :: f64
  TCPWSS :: string
  UDPWSS :: string
  Cipher :: string
  Secret :: string

record HealthcheckConfig =
  Interval :: duration
  Timeout :: duration
  FailThreshold :: int
  SuccessThreshold :: int
  MinInterval :: duration
  MaxInterval :: duration
  Jitter :: duration
  BackoffFactor :: f64
  RTTScale :: f64

record SelectionConfig =
  StickyTTL :: duration
  Cooldown :: duration
  MinSwitch :: duration
  WarmStandbyN :: int
  WarmStandbyInterval :: duration
  StandbyKeepalive :: bool
  StandbyKeepaliveInterval :: duration
  StandbyKeepaliveProbeTimeout :: duration

record ProbeConfig =
  EnableTCP :: bool
  EnableUDP :: bool
  ProbeTimeout :: duration
  TCPTarget :: string
  UDPTarget :: string
  DNSName :: string
  DNSType :: string

subsection \<open>State\<close>

record hcState =
  healthy :: bool
  failCount :: int
  successCount :: int
  inFlight :: bool
  lastError :: "err option"
  lastCheckTime :: gotime
  lastRTT :: duration
  rttEWMA :: duration
  nextHC :: gotime
  hcEvery :: duration

definition hcZero :: hcState where
  "hcZero = \<lparr>healthy = False, failCount = 0, successCount = 0, inFlight = False, lastError = None,
     lastCheckTime = zeroTime, lastRTT = 0, rttEWMA = 0, nextHC = zeroTime, hcEvery = 0\<rparr>"

text \<open>A warm standby connection is known by its number.\<close>

record UpstreamState =
  cfg :: UpstreamConfig
  tcp :: hcState
  udp :: hcState
  tcpCooldownUntil :: gotime
  udpCooldownUntil :: gotime
  standbyTCP :: "nat option"
  standbyUDP :: "nat option"

record LoadBalancer =
  hc :: HealthcheckConfig
  sel :: SelectionConfig
  probe :: ProbeConfig
  fwmark :: "32 word"
  pool :: "UpstreamState list"
  current :: "nat option"
  stickyUntil :: gotime
  lastSelectionLog :: "string gomap"
  lastSelectionLogAt :: "gotime gomap"
  dialSem :: nat
  probeSem :: nat
  probeDialSem :: nat

definition dialParallelLimit :: nat where [simp]: "dialParallelLimit = 32"
definition probeParallelLimit :: nat where [simp]: "probeParallelLimit = 2"
definition probeDialParallelLimit :: nat where [simp]: "probeDialParallelLimit = 4"

definition newUpstream :: "UpstreamConfig \<Rightarrow> UpstreamState" where
  "newUpstream u = \<lparr>cfg = u, tcp = hcZero\<lparr>healthy := False\<rparr>, udp = hcZero\<lparr>healthy := False\<rparr>,
     tcpCooldownUntil = zeroTime, udpCooldownUntil = zeroTime, standbyTCP = None, standbyUDP = None\<rparr>"

definition NewLoadBalancer ::
  "UpstreamConfig list \<Rightarrow> HealthcheckConfig \<Rightarrow> SelectionConfig \<Rightarrow> ProbeConfig \<Rightarrow> 32 word \<Rightarrow> LoadBalancer" where
  "NewLoadBalancer ups h s p mark =
     \<lparr>hc = h, sel = s, probe = p, fwmark = mark, pool = map newUpstream ups, current = None,
      stickyUntil = zeroTime, lastSelectionLog = [], lastSelectionLogAt = [],
      dialSem = 0, probeSem = 0, probeDialSem = 0\<rparr>"

text \<open>
  Access to the half of an upstream that belongs to one protocol, and update of one upstream
  of the pool.
\<close>

definition hcOf :: "bool \<Rightarrow> UpstreamState \<Rightarrow> hcState" where
  "hcOf isTCP u = (if isTCP then tcp u else udp u)"

definition cooldownOf :: "bool \<Rightarrow> UpstreamState \<Rightarrow> gotime" where
  "cooldownOf isTCP u = (if isTCP then tcpCooldownUntil u else udpCooldownUntil u)"

definition setHc :: "bool \<Rightarrow> hcState \<Rightarrow> UpstreamState \<Rightarrow> UpstreamState" where
  "setHc isTCP h u = (if isTCP then u\<lparr>tcp := h\<rparr> else u\<lparr>udp := h\<rparr>)"

definition setCooldown :: "bool \<Rightarrow> gotime \<Rightarrow> UpstreamState \<Rightarrow> UpstreamState" where
  "setCooldown isTCP t u = (if isTCP then u\<lparr>tcpCooldownUntil := t\<rparr> else u\<lparr>udpCooldownUntil := t\<rparr>)"

definition protoName :: "bool \<Rightarrow> string" where
  "protoName isTCP = (if isTCP then ''tcp'' else ''udp'')"

definition updUp :: "nat \<Rightarrow> (UpstreamState \<Rightarrow> UpstreamState) \<Rightarrow> LoadBalancer \<Rightarrow> LoadBalancer" where
  "updUp i f b = b\<lparr>pool := (pool b)[i := f (pool b ! i)]\<rparr>"

text \<open>The balancer together with the process-wide telemetry it writes to.\<close>

record world =
  wlb :: LoadBalancer
  wtel :: telemetry

subsection \<open>Time arithmetic\<close>

text \<open>
  \<open>rnd\<close> is the random source: asked for a number below \<open>n\<close>, it gives one
  (\<^verbatim>\<open>rng.Int63n\<close>).
\<close>

definition randInt63n :: "(int \<Rightarrow> int) \<Rightarrow> int \<Rightarrow> int" where
  "randInt63n rnd n = (if n \<le> 0 then 0 else rnd n)"

definition applyJitter :: "(int \<Rightarrow> int) \<Rightarrow> duration \<Rightarrow> duration \<Rightarrow> duration" where
  "applyJitter rnd d jitter =
     (if jitter \<le> 0 then d
      else let j = i64 (randInt63n rnd (i64 (i64 (2 * jitter) + 1)) - jitter)
           in if i64 (d + j) < 0 then d else i64 (d + j))"

definition minDur :: "duration \<Rightarrow> duration \<Rightarrow> duration" where
  "minDur a b = (if a < b then a else b)"

definition DisableBackgroundProbes :: "gotime \<Rightarrow> LoadBalancer \<Rightarrow> LoadBalancer" where
  "DisableBackgroundProbes now b =
     b\<lparr>pool := map (\<lambda>s. s\<lparr>
         tcp := (tcp s)\<lparr>healthy := True, failCount := 0, successCount := 1, lastError := None, lastCheckTime := now\<rparr>,
         udp := (udp s)\<lparr>healthy := True, failCount := 0, successCount := 1, lastError := None, lastCheckTime := now\<rparr>,
         tcpCooldownUntil := zeroTime, udpCooldownUntil := zeroTime\<rparr>) (pool b)\<rparr>"

section \<open>Lemmas\<close>

lemma updUp_simps [simp]:
  "length (pool (updUp i f b)) = length (pool b)"
  "hc (updUp i f b) = hc b" "sel (updUp i f b) = sel b" "current (updUp i f b) = current b"
  "stickyUntil (updUp i f b) = stickyUntil b" "probe (updUp i f b) = probe b"
  "probeSem (updUp i f b) = probeSem b" "probeDialSem (updUp i f b) = probeDialSem b"
  "dialSem (updUp i f b) = dialSem b"
  by (simp_all add: updUp_def)

lemma pool_updUp:
  "j < length (pool b) \<Longrightarrow> pool (updUp i f b) ! j = (if j = i then f (pool b ! i) else pool b ! j)"
  by (cases "i < length (pool b)") (auto simp: updUp_def nth_list_update)

lemma hcOf_setHc [simp]:
  "hcOf t (setHc t h u) = h" "hcOf (\<not> t) (setHc t h u) = hcOf (\<not> t) u"
  "hcOf t (setCooldown t' c u) = hcOf t u" "cooldownOf t (setHc t' h u) = cooldownOf t u"
  "cooldownOf t (setCooldown t c u) = c" "cooldownOf (\<not> t) (setCooldown t c u) = cooldownOf (\<not> t) u"
  "cfg (setHc t h u) = cfg u" "cfg (setCooldown t c u) = cfg u"
  by (auto simp: hcOf_def setHc_def setCooldown_def cooldownOf_def)

lemma hcOf_setHc_if: "hcOf t (setHc t' h u) = (if t = t' then h else hcOf t u)"
  by (auto simp: hcOf_def setHc_def)

lemma cooldownOf_setCooldown_if: "cooldownOf t (setCooldown t' c u) = (if t = t' then c else cooldownOf t u)"
  by (auto simp: cooldownOf_def setCooldown_def)

end
