(* ===== verification/Transport.thy ===== *)
theory Transport
  imports Go_Url Lb_Types
begin

text \<open>
  How a WebSocket connection is dialled (\<^verbatim>\<open>internal/ws.go\<close>): the transport hints in the
  query of an upstream URL, the order of the HTTP/3, HTTP/2 and HTTP/1.1 attempts and when one
  falls back to the next, the control parameters that are taken out of the URL
  (\<^verbatim>\<open>stripHealthcheckQueryParams\<close>, \<^verbatim>\<open>cleanedRequestURI\<close>,
  \<^verbatim>\<open>h3HealthcheckURL\<close>), the choice of health check for a URL (\<^verbatim>\<open>lb.go\<close>) and the
  HTTP/2 dialler \<^verbatim>\<open>dialRFC8441\<close> (\<^verbatim>\<open>ws_h2.go\<close>). The diallers are arguments that
  act on a state \<open>s\<close> of the world outside; \<open>elapsed\<close> is the time the dial took.
\<close>

section \<open>Definitions\<close>

subsection \<open>Hints and clean URLs\<close>

record transportHints =
  tryH2 :: bool
  h2Only :: bool
  tryH3 :: bool
  h3Only :: bool
  connectOnly :: bool

definition parseTransportHints :: "Values \<Rightarrow> transportHints" where
  "parseTransportHints q =
     (let g = vget q;
          try2 = (g ''h2'' = ''1'' \<or> g ''http2'' = ''1'' \<or> g ''h2c'' = ''1'' \<or> g ''rfc8441'' = ''1'');
          only2 = (g ''h2'' = ''only'' \<or> g ''http2'' = ''only'' \<or> g ''h2only'' = ''1'' \<or> g ''rfc8441'' = ''only'');
          try3 = (g ''h3'' = ''1'' \<or> g ''http3'' = ''1'' \<or> g ''quic'' = ''1'' \<or> g ''rfc9220'' = ''1'');
          only3 = (g ''h3'' = ''only'' \<or> g ''http3'' = ''only'' \<or> g ''h3only'' = ''1'' \<or> g ''quic'' = ''only'' \<or>
                   g ''rfc9220'' = ''only'');
          conn = (g ''connect'' = ''only'' \<or> g ''extended_connect'' = ''only'' \<or> g ''extended-connect'' = ''only'' \<or>
                  g ''connect_protocol'' = ''only'')
      in \<lparr>tryH2 = try2 \<or> only2, h2Only = only2, tryH3 = try3 \<or> only3, h3Only = only3,
          connectOnly = conn \<or> only2 \<or> only3\<rparr>)"

definition stripHealthcheckQueryParams :: "URL \<Rightarrow> URL" where
  "stripHealthcheckQueryParams u =
     u\<lparr>RawQuery := encode (vdel ''test_path'' (vdel ''health_path'' (vdel ''hc_path'' (urlQuery u))))\<rparr>"

definition isWebSocketLikeScheme :: "string \<Rightarrow> bool" where
  "isWebSocketLikeScheme s \<longleftrightarrow> toLower s \<in> {''ws'', ''wss'', ''http'', ''https''}"

definition upstreamFromURL :: "URL \<Rightarrow> string \<times> string" where
  "upstreamFromURL u =
     (let name = (if Host u = [] then ''unknown'' else Host u)
      in if contains (toLower (Path u)) ''udp'' then (name, ''udp'') else (name, ''tcp''))"

definition cleanedRequestURI :: "URL \<Rightarrow> string" where
  "cleanedRequestURI u =
     (let q = fold vdel [''h2'', ''http2'', ''h2only'', ''h2c'', ''h3'', ''http3'', ''h3only'', ''quic'',
                         ''test_path'', ''health_path'', ''hc_path''] (urlQuery u);
          path = (if escapedPath u = [] then ''/'' else escapedPath u);
          qs = encode q
      in if qs = [] then path else path @ ''?'' @ qs)"

definition h3HealthcheckURL :: "URL \<Rightarrow> URL" where
  "h3HealthcheckURL u =
     (let q = urlQuery u;
          p1 = trimSpace (vget q ''hc_path'');
          p2 = (if p1 = [] then trimSpace (vget q ''health_path'') else p1);
          p3 = (if p2 = [] then trimSpace (vget q ''test_path'') else p2);
          c = u\<lparr>RawQuery := encode (vdel ''test_path'' (vdel ''health_path'' (vdel ''hc_path'' q)))\<rparr>
      in if p3 = [] then c
         else c\<lparr>Path := (if hasPrefix p3 ''/'' then p3 else CHR ''/'' # p3), RawPath := []\<rparr>)"

definition splitHostPortDefault :: "string \<Rightarrow> string \<Rightarrow> string \<times> string" where
  "splitHostPortDefault hostport defPort =
     (case splitHostPort hostport of
        Inr (h, p) \<Rightarrow> (let b = (\<lambda>c. c = CHR ''['' \<or> c = CHR '']'') in rev (dropWhile b (rev (dropWhile b h))), p)
      | Inl _ \<Rightarrow> (hostport, defPort))"

definition h3HandshakeTimeout :: duration where
  "h3HandshakeTimeout = 12 * second"

definition wsDialTimeoutForURL :: "duration \<Rightarrow> string \<Rightarrow> duration" where
  "wsDialTimeoutForURL base rawurl =
     (if base \<le> 0 then base
      else case urlParse rawurl of
        Inl _ \<Rightarrow> base
      | Inr u \<Rightarrow>
          let h = parseTransportHints (urlQuery u)
          in if (tryH3 h \<or> h3Only h) \<and> base < h3HandshakeTimeout then h3HandshakeTimeout else base)"

definition shouldUseH3Healthcheck :: "string \<Rightarrow> bool" where
  "shouldUseH3Healthcheck rawurl =
     (case urlParse rawurl of
        Inl _ \<Rightarrow> False
      | Inr u \<Rightarrow> let h = parseTransportHints (urlQuery u) in tryH3 h \<or> h3Only h)"

subsection \<open>Dialling\<close>

definition errRFC8441NotSupported :: err where
  "errRFC8441NotSupported = Sentinel ''rfc8441 not supported by transport''"

type_synonym ('u, 's, 'c) dialer = "'u \<Rightarrow> 's \<Rightarrow> (err + 'c) \<times> 's"

text \<open>The attempts that follow the one over HTTP/3.\<close>

definition dialAfterH3 ::
  "(URL, 's, 'c) dialer \<Rightarrow> (string, 's, 'c) dialer \<Rightarrow> transportHints \<Rightarrow> bool \<Rightarrow> URL \<Rightarrow> string \<Rightarrow> 's \<Rightarrow> (err + 'c) \<times> 's" where
  "dialAfterH3 dialRFC8441 dialCoder h try2 uDial sch s =
     (let classic = (\<lambda>s. if connectOnly h
            then (Inl (Msg ''extended-connect-only mode blocks h1 websocket upgrade fallback''), s)
            else dialCoder (urlString uDial) s)
      in if h2Only h then
           (if \<not> isWebSocketLikeScheme sch
            then (Inl (Msg (''h2-only mode requires ws/wss URL, got scheme='' @ quote sch)), s)
            else case dialRFC8441 uDial s of
                (Inr c, s') \<Rightarrow> (Inr c, s')
              | (Inl e, s') \<Rightarrow> (Inl (Wrap ''h2-only connect failed: '' e), s'))
         else if try2 \<and> isWebSocketLikeScheme sch then
           (case dialRFC8441 uDial s of
              (Inr c, s') \<Rightarrow> (Inr c, s')
            | (Inl e, s') \<Rightarrow> if \<not> errors_Is e errRFC8441NotSupported then (Inl e, s') else classic s')
         else classic s)"

definition dialAttempts ::
  "(URL, 's, 'c) dialer \<Rightarrow> (URL, 's, 'c) dialer \<Rightarrow> (string, 's, 'c) dialer \<Rightarrow> URL \<Rightarrow> 's \<Rightarrow> (err + 'c) \<times> 's" where
  "dialAttempts dialRFC9220 dialRFC8441 dialCoder u s =
     (let uDial = stripHealthcheckQueryParams u;
          h = parseTransportHints (urlQuery u)
      in if tryH3 h \<and> isWebSocketLikeScheme (Scheme u) then
           (case dialRFC9220 uDial s of
              (Inr c, s') \<Rightarrow> (Inr c, s')
            | (Inl e, s') \<Rightarrow>
                if h3Only h then (Inl (Wrap ''h3-only connect failed: '' e), s')
                else dialAfterH3 dialRFC8441 dialCoder h True uDial (Scheme u) s')
         else if h3Only h then (Inl (Msg (''h3-only mode requires ws/wss URL, got scheme='' @ quote (Scheme u))), s)
         else dialAfterH3 dialRFC8441 dialCoder h (tryH2 h) uDial (Scheme u) s)"

definition DialWSStream ::
  "(URL, 's, 'c) dialer \<Rightarrow> (URL, 's, 'c) dialer \<Rightarrow> (string, 's, 'c) dialer \<Rightarrow> duration \<Rightarrow> string \<Rightarrow>
     's \<times> telemetry \<Rightarrow> (err + 'c) \<times> 's \<times> telemetry" where
  "DialWSStream dialRFC9220 dialRFC8441 dialCoder elapsed rawurl st =
     (let (s, tel) = st
      in case urlParse rawurl of
           Inl e \<Rightarrow> (Inl e, s, tel)
         | Inr u \<Rightarrow>
             let (upstream, proto) = upstreamFromURL u
             in case dialAttempts dialRFC9220 dialRFC8441 dialCoder u s of
                  (Inr c, s') \<Rightarrow> (Inr c, s', observeDial upstream proto elapsed tel)
                | (Inl e, s') \<Rightarrow> (Inl e, s', tel))"

text \<open>
  \<^verbatim>\<open>ProbeWSS\<close>: dial and close at once; \<open>closeConn\<close> closes the connection with the given
  code and reason, its result is ignored.
\<close>

definition ProbeWSS ::
  "(string \<Rightarrow> 's \<times> telemetry \<Rightarrow> (err + 'c) \<times> 's \<times> telemetry) \<Rightarrow> ('c \<Rightarrow> nat \<Rightarrow> string \<Rightarrow> 's \<Rightarrow> 's) \<Rightarrow>
     duration \<Rightarrow> string \<Rightarrow> 's \<times> telemetry \<Rightarrow> (duration \<times> err option) \<times> 's \<times> telemetry" where
  "ProbeWSS dial closeConn elapsed rawurl st =
     (case dial rawurl st of
        (Inl e, st') \<Rightarrow> ((0, Some e), st')
      | (Inr c, (s', tel)) \<Rightarrow> ((elapsed, None), closeConn c 1000 ''probe'' s', tel))"

text \<open>
  \<^verbatim>\<open>dialRFC8441\<close>. \<open>newReq\<close> is the error of \<^verbatim>\<open>http.NewRequestWithContext\<close> if any,
  \<open>hasProtocol\<close> whether \<^verbatim>\<open>http.Request\<close> of the toolchain has a field
  \<^verbatim>\<open>Protocol\<close>, \<open>doReq\<close> sends the request and gives status code, status text and the
  response body, \<open>rawH2\<close> is \<^verbatim>\<open>dialRFC8441RawH2\<close>. The second result lists what was
  closed.
\<close>

record h2Request =
  reqURL :: string
  reqProtocol :: string
  reqHeader :: "(string \<times> string) list"

datatype h2Closed = PipeReader | PipeWriter | ResponseBody

definition dialRFC8441 ::
  "(string \<Rightarrow> err option) \<Rightarrow> bool \<Rightarrow> (h2Request \<Rightarrow> 's \<Rightarrow> (err + int \<times> string \<times> 'c) \<times> 's) \<Rightarrow> (URL, 's, 'c) dialer \<Rightarrow>
     URL \<Rightarrow> 's \<Rightarrow> (err + 'c) \<times> h2Closed list \<times> 's" where
  "dialRFC8441 newReq hasProtocol doReq rawH2 u s =
     (if Scheme u \<noteq> ''wss'' \<and> Scheme u \<noteq> ''ws''
      then (Inl (Msg (''unsupported scheme for rfc8441: '' @ Scheme u)), [], s)
      else
        let target = urlString (u\<lparr>Scheme := (if Scheme u = ''wss'' then ''https'' else ''http'')\<rparr>)
        in case newReq target of
             Some e \<Rightarrow> (Inl e, [PipeWriter], s)
           | None \<Rightarrow>
               if \<not> hasProtocol
               then (let (r, s') = rawH2 u s in (r, [PipeReader, PipeWriter], s'))
               else
                 let origin = vget (urlQuery u) ''origin'';
                     req = \<lparr>reqURL = target, reqProtocol = ''websocket'',
                            reqHeader = (''sec-websocket-version'', ''13'') # (if origin = [] then [] else [(''origin'', origin)])\<rparr>
                 in case doReq req s of
                      (Inl e, s') \<Rightarrow> (Inl e, [PipeWriter], s')
                    | (Inr (statusCode, status, c), s') \<Rightarrow>
                        if statusCode \<noteq> 200 then (Inl (Msg (''rfc8441 connect failed: '' @ status)), [ResponseBody, PipeWriter], s')
                        else (Inr c, [], s'))"

section \<open>Lemmas\<close>

lemma urlQuery_encode:
  "distinct (map fst q) \<Longrightarrow> mget [] (urlQuery (u\<lparr>RawQuery := encode q\<rparr>)) k = mget [] q k"
  by (simp add: urlQuery_def parseQuery_encode)

lemma distinct_urlQuery [simp]: "distinct (map fst (urlQuery u))"
  by (simp add: urlQuery_def)

lemma distinct_vdels: "distinct (map fst q) \<Longrightarrow> distinct (map fst (fold vdel ks q))"
  by (induction ks arbitrary: q) simp_all

lemma mget_vdels: "mget d (fold vdel ks q) k = (if k \<in> set ks then d else mget d q k)"
  by (induction ks arbitrary: q) auto

lemma vget_cong: "mget [] q k = mget [] q' k \<Longrightarrow> vget q k = vget q' k"
  by (simp add: vget_def)

lemma hints_cong:
  assumes "\<And>k. k \<notin> {''hc_path'', ''health_path'', ''test_path''} \<Longrightarrow> mget [] q k = mget [] q' k"
  shows "parseTransportHints q = parseTransportHints q'"
proof -
  have "vget q k = vget q' k" if "k \<notin> {''hc_path'', ''health_path'', ''test_path''}" for k
    using that assms by (intro vget_cong) simp
  then show ?thesis by (simp add: parseTransportHints_def Let_def)
qed

text \<open>An HTTP/2 dial fails with the fall-back error only when something outside does.\<close>

lemma dialRFC8441_error:
  assumes "dialRFC8441 newReq hp doReq rawH2 u s = (Inl e, cl, s')"
    and "\<And>t e. newReq t = Some e \<Longrightarrow> \<not> errors_Is e errRFC8441NotSupported"
    and "\<And>r s e s'. doReq r s = (Inl e, s') \<Longrightarrow> \<not> errors_Is e errRFC8441NotSupported"
    and "\<And>u s e s'. rawH2 u s = (Inl e, s') \<Longrightarrow> \<not> errors_Is e errRFC8441NotSupported"
  shows "\<not> errors_Is e errRFC8441NotSupported"
  using assms
  by (auto simp: dialRFC8441_def Let_def errRFC8441NotSupported_def
      split: if_splits option.splits prod.splits sum.splits)

section \<open>Properties\<close>

text \<open>
  Taking out the health-check parameters takes out nothing else: the URL that is dialled has
  the query parameters of the upstream URL, all values of each in their order, without
  \<^verbatim>\<open>hc_path\<close>, \<^verbatim>\<open>health_path\<close> and \<^verbatim>\<open>test_path\<close>; it carries the same transport
  hints and agrees in everything but the query.
\<close>

theorem strip_keeps_the_rest:
  "let v = stripHealthcheckQueryParams u
   in (\<forall>k. mget [] (urlQuery v) k =
        (if k \<in> {''hc_path'', ''health_path'', ''test_path''} then [] else mget [] (urlQuery u) k)) \<and>
      parseTransportHints (urlQuery v) = parseTransportHints (urlQuery u) \<and> v\<lparr>RawQuery := RawQuery u\<rparr> = u"
proof -
  have q: "mget [] (urlQuery (stripHealthcheckQueryParams u)) k =
      (if k \<in> {''hc_path'', ''health_path'', ''test_path''} then [] else mget [] (urlQuery u) k)" for k
    unfolding stripHealthcheckQueryParams_def by (subst urlQuery_encode) auto
  moreover have "parseTransportHints (urlQuery (stripHealthcheckQueryParams u)) = parseTransportHints (urlQuery u)"
    by (rule hints_cong) (simp add: q)
  ultimately show ?thesis
    by (simp add: Let_def) (simp add: stripHealthcheckQueryParams_def)
qed

text \<open>
  The request target that HTTP/2 and HTTP/3 send: the escaped path, \<^verbatim>\<open>/\<close> for an empty
  one, and a query with exactly the parameters of the URL except eleven control parameters. The
  other spellings of the same hints, \<^verbatim>\<open>rfc8441\<close>, \<^verbatim>\<open>rfc9220\<close>, \<^verbatim>\<open>connect\<close>,
  \<^verbatim>\<open>extended_connect\<close>, \<^verbatim>\<open>extended-connect\<close> and \<^verbatim>\<open>connect_protocol\<close>, are not among
  the eleven and do reach the server.
\<close>

theorem cleaned_uri_params:
  "\<exists>qs. cleanedRequestURI u =
      (if escapedPath u = [] then ''/'' else escapedPath u) @ (if qs = [] then [] else ''?'' @ qs) \<and>
    (\<forall>k. mget [] (parseQuery qs) k =
      (if k \<in> {''h2'', ''http2'', ''h2only'', ''h2c'', ''h3'', ''http3'', ''h3only'', ''quic'',
               ''test_path'', ''health_path'', ''hc_path''} then [] else mget [] (urlQuery u) k)) \<and>
    list_all (\<lambda>k. vget (parseQuery qs) k = vget (urlQuery u) k)
      [''rfc8441'', ''rfc9220'', ''connect'', ''extended_connect'', ''extended-connect'', ''connect_protocol'']"
proof -
  let ?ks = "[''h2'', ''http2'', ''h2only'', ''h2c'', ''h3'', ''http3'', ''h3only'', ''quic'',
               ''test_path'', ''health_path'', ''hc_path'']"
  let ?qs = "encode (fold vdel ?ks (urlQuery u))"
  have g: "mget [] (parseQuery ?qs) k = (if k \<in> set ?ks then [] else mget [] (urlQuery u) k)" for k
    by (subst parseQuery_encode) (simp_all only: distinct_vdels distinct_urlQuery mget_vdels)
  have "vget (parseQuery ?qs) k = vget (urlQuery u) k" if "k \<notin> set ?ks" for k
    using g [of k] that by (intro vget_cong) simp
  moreover have "cleanedRequestURI u =
      (if escapedPath u = [] then ''/'' else escapedPath u) @ (if ?qs = [] then [] else ''?'' @ ?qs)"
    unfolding cleanedRequestURI_def Let_def by simp
  moreover have "\<forall>k. mget [] (parseQuery ?qs) k =
      (if k \<in> {''h2'', ''http2'', ''h2only'', ''h2c'', ''h3'', ''http3'', ''h3only'', ''quic'',
               ''test_path'', ''health_path'', ''hc_path''} then [] else mget [] (urlQuery u) k)"
    using g by simp
  ultimately show ?thesis
    by (intro exI [of _ ?qs]) simp
qed

datatype via = ViaH3 | ViaH2 | ViaH1

text \<open>Which transports the query of a URL calls for.\<close>

definition hinted :: "URL \<Rightarrow> string \<Rightarrow> string list \<Rightarrow> bool" where
  "hinted u v ks \<longleftrightarrow> (\<exists>k \<in> set ks. vget (urlQuery u) k = v)"

definition onlyH3 :: "URL \<Rightarrow> bool" where
  "onlyH3 u \<longleftrightarrow> hinted u ''only'' [''h3'', ''http3'', ''quic'', ''rfc9220''] \<or> hinted u ''1'' [''h3only'']"

definition onlyH2 :: "URL \<Rightarrow> bool" where
  "onlyH2 u \<longleftrightarrow> hinted u ''only'' [''h2'', ''http2'', ''rfc8441''] \<or> hinted u ''1'' [''h2only'']"

primrec mayUse :: "URL \<Rightarrow> via \<Rightarrow> bool" where
  "mayUse u ViaH3 \<longleftrightarrow> isWebSocketLikeScheme (Scheme u) \<and>
     (onlyH3 u \<or> hinted u ''1'' [''h3'', ''http3'', ''quic'', ''rfc9220''])"
| "mayUse u ViaH2 \<longleftrightarrow> isWebSocketLikeScheme (Scheme u) \<and> \<not> onlyH3 u \<and>
     (onlyH2 u \<or> hinted u ''1'' [''h2'', ''http2'', ''h2c'', ''rfc8441''] \<or> hinted u ''1'' [''h3'', ''http3'', ''quic'', ''rfc9220''])"
| "mayUse u ViaH1 \<longleftrightarrow> \<not> onlyH2 u \<and> \<not> onlyH3 u \<and>
     \<not> hinted u ''only'' [''connect'', ''extended_connect'', ''extended-connect'', ''connect_protocol'']"

text \<open>The elements of a list up to and including the first with a property.\<close>

fun uptoFirst :: "('a \<Rightarrow> bool) \<Rightarrow> 'a list \<Rightarrow> 'a list" where
  "uptoFirst P [] = []"
| "uptoFirst P (x # xs) = (if P x then [x] else x # uptoFirst P xs)"

text \<open>An attempt ends the dialling when it succeeds, or over HTTP/2 with any error but one.\<close>

definition ends :: "(via \<Rightarrow> err + 'c) \<Rightarrow> via \<Rightarrow> bool" where
  "ends outcome a \<longleftrightarrow>
     (case outcome a of Inr _ \<Rightarrow> True | Inl e \<Rightarrow> a = ViaH2 \<and> \<not> errors_Is e errRFC8441NotSupported)"

lemma hints_alt:
  "h3Only (parseTransportHints (urlQuery u)) \<longleftrightarrow> onlyH3 u"
  "h2Only (parseTransportHints (urlQuery u)) \<longleftrightarrow> onlyH2 u"
  "tryH3 (parseTransportHints (urlQuery u)) \<longleftrightarrow> onlyH3 u \<or> hinted u ''1'' [''h3'', ''http3'', ''quic'', ''rfc9220'']"
  "tryH2 (parseTransportHints (urlQuery u)) \<longleftrightarrow> onlyH2 u \<or> hinted u ''1'' [''h2'', ''http2'', ''h2c'', ''rfc8441'']"
  "connectOnly (parseTransportHints (urlQuery u)) \<longleftrightarrow> onlyH2 u \<or> onlyH3 u \<or>
     hinted u ''only'' [''connect'', ''extended_connect'', ''extended-connect'', ''connect_protocol'']"
  by (auto simp: parseTransportHints_def onlyH3_def onlyH2_def hinted_def Let_def)

text \<open>
  C13. Which transports are tried, exactly. The query of a URL and its scheme determine the eligible
  transports: HTTP/3 when any of its hints is given, HTTP/2 when one of its own hints or one of
  HTTP/3 is given and HTTP/3 is not demanded, both for the four WebSocket-like schemes only, and the
  classic upgrade unless a demand for HTTP/2, HTTP/3 or Extended CONNECT excludes it. Whatever the
  diallers answer, the eligible transports are tried in the order HTTP/3, HTTP/2, HTTP/1.1, each once,
  none left out, up to the first attempt that succeeds or, over HTTP/2, fails with another error
  than the one that says it is not supported. The result is a connection exactly when the last
  attempt gives it.
\<close>

theorem dial_order:
  "let outcome = (\<lambda>a. case a of ViaH3 \<Rightarrow> r3 (stripHealthcheckQueryParams u) | ViaH2 \<Rightarrow> r2 (stripHealthcheckQueryParams u)
         | ViaH1 \<Rightarrow> r1 (urlString (stripHealthcheckQueryParams u)));
       (r, trail) = dialAttempts (\<lambda>v l. (r3 v, l @ [ViaH3])) (\<lambda>v l. (r2 v, l @ [ViaH2])) (\<lambda>t l. (r1 t, l @ [ViaH1])) u []
   in trail = uptoFirst (ends outcome) (filter (mayUse u) [ViaH3, ViaH2, ViaH1]) \<and>
      (\<forall>c. r = Inr c \<longleftrightarrow> trail \<noteq> [] \<and> outcome (last trail) = Inr c)"
  by (auto simp: dialAttempts_def dialAfterH3_def hints_alt ends_def Let_def split: sum.splits)

text \<open>A URL that asks for HTTP/3 and HTTP/2, both of which refuse.\<close>

definition url_example :: URL where
  "url_example = urlZero\<lparr>Scheme := ''wss'', Host := ''h'', Path := ''/p'', RawQuery := ''h3=1''\<rparr>"

theorem dial_order_witness:
  "let r = dialAttempts (\<lambda>v l. (Inl EOF :: err + nat, l @ [ViaH3])) (\<lambda>v l. (Inl errRFC8441NotSupported, l @ [ViaH2]))
         (\<lambda>t l. (Inr 7, l @ [ViaH1])) url_example []
   in fst r = Inr 7 \<and> snd r = [ViaH3, ViaH2, ViaH1]"
proof -
  have "filter (mayUse url_example) [ViaH3, ViaH2, ViaH1] = [ViaH3, ViaH2, ViaH1]" by code_simp
  with dial_order [of "\<lambda>v. Inl EOF :: err + nat" url_example "\<lambda>v. Inl errRFC8441NotSupported" "\<lambda>t. Inr 7"] show ?thesis
    by (simp add: ends_def errRFC8441NotSupported_def Let_def case_prod_unfold)
qed

end
