(* ===== verification/Effects.thy ===== *)
theory Effects
  imports Go_Prelude
begin

text \<open>
  What an operation does to the things it holds, in the order it does it: opening and closing
  connections, files, contexts and goroutines, and writing bytes to them. An operation of the
  model returns the list of its effects beside its result; a deferred call stands behind the
  effects of the code it is deferred over. What is left open, and what was written, are
  computed from the list.
\<close>

section \<open>Definitions\<close>

datatype 'r effect =
    Opened 'r
  | Closed 'r
  | ClosedWith 'r string
  | Wrote 'r bytes

text \<open>Closing \<open>r\<close> also ends what lives inside it, \<open>within r\<close>.\<close>

primrec holdStep :: "('r \<Rightarrow> 'r list) \<Rightarrow> 'r effect \<Rightarrow> 'r list \<Rightarrow> 'r list" where
  "holdStep within (Opened r) held = held @ [r]"
| "holdStep within (Closed r) held = filter (\<lambda>x. x \<noteq> r \<and> x \<notin> set (within r)) held"
| "holdStep within (ClosedWith r s) held = filter (\<lambda>x. x \<noteq> r \<and> x \<notin> set (within r)) held"
| "holdStep within (Wrote r b) held = held"

definition heldAfter :: "('r \<Rightarrow> 'r list) \<Rightarrow> 'r list \<Rightarrow> 'r effect list \<Rightarrow> 'r list" where
  "heldAfter within held es = fold (holdStep within) es held"

definition leftOpen :: "('r \<Rightarrow> 'r list) \<Rightarrow> 'r effect list \<Rightarrow> 'r list" where
  "leftOpen within es = heldAfter within [] es"

primrec wroteOne :: "'r \<Rightarrow> 'r effect \<Rightarrow> bytes" where
  "wroteOne r (Opened x) = []"
| "wroteOne r (Closed x) = []"
| "wroteOne r (ClosedWith x s) = []"
| "wroteOne r (Wrote x b) = (if x = r then b else [])"

definition wroteTo :: "'r \<Rightarrow> 'r effect list \<Rightarrow> bytes" where
  "wroteTo r es = concat (map (wroteOne r) es)"

text \<open>A body run between opening a thing and the deferred call that closes it.\<close>

definition during :: "'r \<Rightarrow> 'a \<times> 'r effect list \<Rightarrow> 'a \<times> 'r effect list" where
  "during r body = (fst body, Opened r # snd body @ [Closed r])"

section \<open>Lemmas\<close>

lemma heldAfter_simps [simp]:
  "heldAfter within held [] = held"
  "heldAfter within held (e # es) = heldAfter within (holdStep within e held) es"
  "heldAfter within held (es @ fs) = heldAfter within (heldAfter within held es) fs"
  by (simp_all add: heldAfter_def)

lemma wroteTo_simps [simp]:
  "wroteTo r [] = []" "wroteTo r (e # es) = wroteOne r e @ wroteTo r es" "wroteTo r (es @ fs) = wroteTo r es @ wroteTo r fs"
  by (simp_all add: wroteTo_def)

lemma fst_during [simp]: "fst (during r body) = fst body"
  by (simp add: during_def)

text \<open>
  What is closed in the end is not held, and a thing that is closed at the end, with nothing
  else opened in between that outlives it, leaves no trace.
\<close>

lemma closed_not_held: "r \<notin> set (heldAfter within held (es @ [Closed r]))"
  by simp

lemma held_subset: "set (heldAfter within held es) \<subseteq> set held \<union> {r. Opened r \<in> set es}"
proof (induction es arbitrary: held)
  case (Cons e es)
  show ?case
    using Cons.IH [of "holdStep within e held"] by (cases e) auto
qed simp

lemma during_held:
  "set (heldAfter within held (snd (during r body))) \<subseteq>
     (set held \<union> {x. Opened x \<in> set (snd body)}) - {r} - set (within r)"
  using held_subset [of within "held @ [r]" "snd body"] by (auto simp: during_def)

end
