(* ===== verification/H3_Dial.thy ===== *)
theory H3_Dial
  imports Ws_Over_H3 H3_Control Transport Effects
begin

text \<open>
  Dialling over HTTP/3: \<^verbatim>\<open>dialRFC9220\<close> and \<^verbatim>\<open>dialRFC9220Profile\<close> of
  \<^verbatim>\<open>internal/ws_h3.go\<close> and the health check \<^verbatim>\<open>ProbeH3ExtendedConnect\<close> of
  \<^verbatim>\<open>internal/h3_healthcheck.go\<close>. QUIC is a parameter: the record \<open>quicIn\<close> has what
  listening and dialling give, the operations of a connection, the answers of the context before
  each write, what the server sends on the request stream, and whether the context ends before
  the response is read. The second result of a dial are its effects: what it opens, closes and
  cancels, in order, with the deferred calls at the end. The streams on which control data is sent
  are part of their connection and are not listed. Log output is left out. A panic while the
  response is read ends the process and appears as an error here.
\<close>

section \<open>Definitions\<close>

subsection \<open>The context of a dial\<close>

text \<open>
  The error of a context at time \<open>t\<close>, given its deadline and the time it is cancelled at: the
  first of the two events decides.
\<close>

definition ctxErrAt :: "gotime option \<Rightarrow> gotime option \<Rightarrow> gotime \<Rightarrow> err option" where
  "ctxErrAt ddl cancelled t =
     (let due = (\<lambda>x. case ddl of None \<Rightarrow> False | Some d \<Rightarrow> d \<le> x)
      in case cancelled of
           Some c \<Rightarrow> if c \<le> t \<and> \<not> due c then Some Canceled else if due t then Some DeadlineExceeded else None
         | None \<Rightarrow> if due t then Some DeadlineExceeded else None)"

definition ignoresDeadline :: "gotime \<Rightarrow> gotime option \<Rightarrow> bool" where
  "ignoresDeadline t0 ddl =
     (case ddl of None \<Rightarrow> False | Some d \<Rightarrow> 0 < timeSub d t0 \<and> timeSub d t0 < h3HandshakeTimeout)"

text \<open>
  The context that \<^verbatim>\<open>dialRFC9220Profile\<close> derives at time \<open>t0\<close>. When it ignores the
  caller's deadline, a goroutine passes on the end of the caller's context unless that was the
  deadline.
\<close>

definition h3ctxErr :: "gotime \<Rightarrow> gotime option \<Rightarrow> gotime option \<Rightarrow> gotime \<Rightarrow> err option" where
  "h3ctxErr t0 ddl cancelled t =
     (if ignoresDeadline t0 ddl
      then ctxErrAt (Some (t0 + h3HandshakeTimeout))
             (case cancelled of
                None \<Rightarrow> None
              | Some c \<Rightarrow> if ctxErrAt ddl cancelled c = Some DeadlineExceeded then None else Some c) t
      else ctxErrAt (Some (case ddl of None \<Rightarrow> t0 + h3HandshakeTimeout | Some d \<Rightarrow> min d (t0 + h3HandshakeTimeout)))
             cancelled t)"

subsection \<open>The request\<close>

definition h3Host :: "URL \<Rightarrow> string" where
  "h3Host u = (if urlHostname u = [] then fst (splitHostPortDefault (Host u) ''443'') else urlHostname u)"

definition h3Addr :: "URL \<Rightarrow> string" where
  "h3Addr u = joinHostPort (h3Host u) (if urlPort u = [] then ''443'' else urlPort u)"

definition h3Authority :: "URL \<Rightarrow> string" where
  "h3Authority u = (if Host u = [] then h3Host u else Host u)"

definition h3ConnectHeaderFields :: "URL \<Rightarrow> string \<Rightarrow> (string \<times> string) list" where
  "h3ConnectHeaderFields u authority =
     [('':method'', ''CONNECT''), ('':scheme'', ''https''), ('':authority'', authority), ('':path'', cleanedRequestURI u),
      ('':protocol'', ''websocket''), (''sec-websocket-version'', ''13'')] @
     (let origin = vget (urlQuery u) ''origin'' in if origin = [] then [] else [(''origin'', origin)])"

definition h3ConnectHeaders :: "URL \<Rightarrow> string \<Rightarrow> bytes" where
  "h3ConnectHeaders u authority = h3EncodeHeaders (h3ConnectHeaderFields u authority)"

definition requestFrame :: "URL \<Rightarrow> string \<Rightarrow> bytes" where
  "requestFrame u authority =
     (let headers = h3ConnectHeaders u authority
      in appendVarint (appendVarint [] h3FrameHeaders) (length headers) @ headers)"

definition h3FormatHeaders :: "(string \<rightharpoonup> string) \<Rightarrow> string" where
  "h3FormatHeaders h =
     (let keys = sorted_list_of_set (dom h);
          shorten = (\<lambda>v. if length v > 128 then take 128 v @ ''...'' else v)
      in if keys = [] then ''{}''
         else ''{'' @ join '', '' (map (\<lambda>k. k @ ''='' @ quote (shorten (the (h k)))) keys) @ ''}'')"

subsection \<open>The response\<close>

text \<open>\<^verbatim>\<open>h3ReadResponseHeaders\<close> together with what it leaves unread on the stream.\<close>

function (sequential) h3ReadResponse ::
  "(bytes \<Rightarrow> string option) \<Rightarrow> reader \<Rightarrow> err + (string \<rightharpoonup> string) \<times> reader" where
  "h3ReadResponse huffDec r =
     (case readVarint r of
        Inl e \<Rightarrow> Inl e
      | Inr (ft, r1) \<Rightarrow> (case readVarint r1 of
          Inl e \<Rightarrow> Inl e
        | Inr (n, r2) \<Rightarrow>
            bindE (makeBytes (int n)) (\<lambda>_.
              case readFull n r2 of
                Inl e \<Rightarrow> Inl e
              | Inr (buf, r3) \<Rightarrow>
                  if ft = h3FrameHeaders then bindE (h3DecodeHeaders huffDec buf) (\<lambda>m. Inr (m, r3))
                  else h3ReadResponse huffDec r3)))"
  by pat_completeness auto
termination
  by (relation "measure (\<lambda>(h, r). length (avail r))")
    (auto dest!: readVarint_shrinks readFull_shrinks)

declare h3ReadResponse.simps [simp del]

subsection \<open>Dialling\<close>

record 'c quicIn =
  qListen :: "err option"
  qDial :: "string \<Rightarrow> err + 'c"
  qNewUni :: "'c \<Rightarrow> (err + nat) \<times> 'c"
  qNewStream :: "'c \<Rightarrow> (err + nat) \<times> 'c"
  qWrite :: "nat \<Rightarrow> 'c \<Rightarrow> bytes \<Rightarrow> (int \<times> err option) \<times> 'c"
  qFlush :: "nat \<Rightarrow> 'c \<Rightarrow> err option \<times> 'c"
  qCtx :: "nat \<Rightarrow> err option"
  qReply :: reader
  qDone :: "err option"
  qElapsed :: string
  qObs :: h3PeerObservations
  qHuff :: "bytes \<Rightarrow> string option"
  qCode :: "err \<Rightarrow> nat option"

text \<open>
  Opening the client's streams and a stream for the request, and sending the CONNECT request on it;
  \<open>k\<close> counts the checks of the context.
\<close>

definition h3OpenRequest :: "'c quicIn \<Rightarrow> h3ClientStreamProfile \<Rightarrow> 'c \<Rightarrow> err + nat \<times> nat \<times> 'c" where
  "h3OpenRequest inp profile c0 =
     (case h3OpenClientUniStreams (qCtx inp) 0 (qNewUni inp) (qWrite inp) (qFlush inp) c0 profile of
        (Some e, _, _) \<Rightarrow> Inl e
      | (None, k, c1) \<Rightarrow>
          (case qNewStream inp c1 of
             (Inl e, _) \<Rightarrow> Inl e
           | (Inr st, c2) \<Rightarrow> Inr (st, k, c2)))"

definition h3WriteRequest :: "'c quicIn \<Rightarrow> URL \<Rightarrow> string \<Rightarrow> nat \<times> nat \<times> 'c \<Rightarrow> err + nat \<times> 'c" where
  "h3WriteRequest inp u authority x =
     (let (st, k, c2) = x
      in case h3WriteWithContext (qCtx inp) k (qWrite inp st) c2 (requestFrame u authority) of
           (Some e, _, _) \<Rightarrow> Inl e
         | (None, _, c3) \<Rightarrow> Inr (st, snd (qFlush inp st c3)))"

definition h3SendRequest ::
  "'c quicIn \<Rightarrow> URL \<Rightarrow> string \<Rightarrow> h3ClientStreamProfile \<Rightarrow> 'c \<Rightarrow> err + nat \<times> 'c" where
  "h3SendRequest inp u authority profile c0 = bindE (h3OpenRequest inp profile c0) (h3WriteRequest inp u authority)"

definition h3Stream :: "reader \<Rightarrow> 'c \<Rightarrow> 'c h3wsStream" where
  "h3Stream rest c = \<lparr>h3_rd = rest, h3_s = c, h3_has = (\<lambda>_. True), readBuf = OwnBuf [], frameBuf = [], closeOnce = False, released = []\<rparr>"

definition h3Response :: "'c quicIn \<Rightarrow> err + reader" where
  "h3Response inp =
     (case h3ReadResponse (qHuff inp) (qReply inp) of
        Inl e \<Rightarrow>
          let hint = h3PeerSupportHint (qCode inp) e (Some (qObs inp))
          in Inl (if hint \<noteq> [] then Msg (''rfc9220 unsupported by peer: '' @ hint) else e)
      | Inr (resp, rest) \<Rightarrow>
          let status = (case resp '':status'' of None \<Rightarrow> [] | Some s \<Rightarrow> s)
          in if status \<noteq> ''200''
             then Inl (Msg (''rfc9220 connect failed: status='' @ status @ '' headers='' @ h3FormatHeaders resp))
             else Inr rest)"

text \<open>What happens between the start of the goroutine that drains the peer's streams and the return.\<close>

definition h3Connect ::
  "'c quicIn \<Rightarrow> URL \<Rightarrow> h3ClientStreamProfile \<Rightarrow> 'c \<Rightarrow> (err + 'c h3wsStream framedWSConn) \<times> h3res effect list" where
  "h3Connect inp u profile c0 =
     (case h3OpenRequest inp profile c0 of
        Inl e \<Rightarrow> (Inl e, [])
      | Inr x \<Rightarrow>
          (case h3WriteRequest inp u (h3Authority u) x of
             Inl e \<Rightarrow> (Inl e, [Opened QStream])
           | Inr (st, c) \<Rightarrow>
               (case qDone inp of
                  Some e \<Rightarrow>
                    (Inl (if errors_Is e DeadlineExceeded
                          then Msg (''rfc9220 handshake timeout waiting response headers after '' @ qElapsed inp)
                          else e),
                     [Opened QStream, Closed QConn, Closed QEndpoint])
                | None \<Rightarrow>
                    (case h3Response inp of
                       Inl e \<Rightarrow> (Inl e, [Opened QStream])
                     | Inr rest \<Rightarrow>
                         let s = h3Stream rest c
                         in (Inr (newFramedWSConn (h3_contents s) s), [Opened QStream])))))"

definition dialRFC9220Profile ::
  "'c quicIn \<Rightarrow> URL \<Rightarrow> h3ClientStreamProfile \<Rightarrow> (err + 'c h3wsStream framedWSConn) \<times> h3res effect list" where
  "dialRFC9220Profile inp u profile =
     (if Scheme u \<noteq> ''wss'' \<and> Scheme u \<noteq> ''https''
      then (Inl (Msg (''rfc9220 requires wss/https, got '' @ quote (Scheme u))), [])
      else case qListen inp of
        Some e \<Rightarrow> (Inl e, [])
      | None \<Rightarrow>
          (case qDial inp (h3Addr u) of
             Inl e \<Rightarrow> (Inl e, [Opened QEndpoint, Closed QEndpoint])
           | Inr c0 \<Rightarrow>
               let (r, es) = h3Connect inp u profile c0;
                   deferred = (case r of Inr _ \<Rightarrow> [] | Inl _ \<Rightarrow> [Closed PeerDrainer])
               in (r, [Opened QEndpoint, Opened QConn, Opened PeerDrainer] @ es @ deferred)))"

text \<open>Closing a QUIC connection ends its streams.\<close>

definition h3Within :: "h3res \<Rightarrow> h3res list" where
  "h3Within r = (if r = QConn then [QStream] else [])"

text \<open>The attempts with the two stream profiles, each with its own QUIC connection and its own effects.\<close>

definition dialRFC9220 ::
  "(h3ClientStreamProfile \<Rightarrow> 'c quicIn) \<Rightarrow> URL \<Rightarrow> (err + 'c h3wsStream framedWSConn) \<times> h3res effect list list" where
  "dialRFC9220 inps u =
     (case dialRFC9220Profile (inps h3ClientStreamsControlAndQPACK) u h3ClientStreamsControlAndQPACK of
        (Inr c, es) \<Rightarrow> (Inr c, [es])
      | (Inl e, es) \<Rightarrow>
          if \<not> contains (err_text e) ''expected first frame to be a HEADERS frame'' then (Inl e, [es])
          else (case dialRFC9220Profile (inps h3ClientStreamsControlOnly) u h3ClientStreamsControlOnly of
                  (r, es') \<Rightarrow> (r, [es, es'])))"

subsection \<open>The health check\<close>

text \<open>
  The observations are those after the bounded wait for the peer's SETTINGS. The endpoint, the
  connection and the draining goroutine are each closed by a deferred call.
\<close>

definition hcFail :: "string \<Rightarrow> err \<Rightarrow> duration \<times> err option" where
  "hcFail s e = (0, Some (Wrap (''h3 healthcheck: '' @ s @ '': '') e))"

definition hcStop :: "string \<Rightarrow> duration \<times> err option" where
  "hcStop s = (0, Some (Msg (''h3 healthcheck: '' @ s)))"

definition h3ProbeRequest :: "'c quicIn \<Rightarrow> duration \<Rightarrow> URL \<Rightarrow> 'c \<Rightarrow> (duration \<times> err option) \<times> h3res effect list" where
  "h3ProbeRequest inp elapsed v c0 =
     (case h3OpenClientUniStreams (qCtx inp) 0 (qNewUni inp) (qWrite inp) (qFlush inp) c0 h3ClientStreamsControlAndQPACK of
        (Some e, _, _) \<Rightarrow> (hcFail ''open client control streams failed'' e, [])
      | (None, k, c1) \<Rightarrow>
          let (saw, enable) = snapshot (qObs inp)
          in if \<not> saw then (hcStop ''peer H3 control stream SETTINGS not observed'', [])
             else if \<not> enable then (hcStop ''peer SETTINGS_ENABLE_CONNECT_PROTOCOL is disabled'', [])
             else (case qNewStream inp c1 of
                (Inl e, _) \<Rightarrow> (hcFail ''open request stream failed'' e, [])
              | (Inr st, c2) \<Rightarrow>
                  (case h3WriteWithContext (qCtx inp) k (qWrite inp st) c2 (requestFrame v (h3Authority v)) of
                     (Some e, _, _) \<Rightarrow> (hcFail ''send CONNECT HEADERS failed'' e, [Opened QStream])
                   | (None, _, _) \<Rightarrow>
                       (case h3ReadResponseHeaders (qHuff inp) (qReply inp) of
                          Inl e \<Rightarrow> (hcFail ''read CONNECT response failed'' e, [Opened QStream])
                        | Inr resp \<Rightarrow>
                            let status = (case resp '':status'' of None \<Rightarrow> [] | Some s \<Rightarrow> s)
                            in if status \<noteq> ''200''
                               then (hcStop (''extended CONNECT test-path failed status='' @ status), [Opened QStream])
                               else ((elapsed, None), [Opened QStream, Closed QStream])))))"

definition ProbeH3ExtendedConnect ::
  "'c quicIn \<Rightarrow> duration \<Rightarrow> string \<Rightarrow> (duration \<times> err option) \<times> h3res effect list" where
  "ProbeH3ExtendedConnect inp elapsed rawurl =
     (case urlParse rawurl of
        Inl e \<Rightarrow> ((0, Some e), [])
      | Inr u \<Rightarrow>
          if Scheme u \<noteq> ''wss'' \<and> Scheme u \<noteq> ''https''
          then ((0, Some (Msg (''h3 healthcheck requires wss/https, got '' @ quote (Scheme u)))), [])
          else let v = h3HealthcheckURL u in
            (case qListen inp of
               Some e \<Rightarrow> (hcFail ''quic endpoint init failed'' e, [])
             | None \<Rightarrow>
                 during QEndpoint
                   (case qDial inp (h3Addr v) of
                      Inl e \<Rightarrow> (hcFail ''quic handshake failed'' e, [])
                    | Inr c0 \<Rightarrow> during QConn (during PeerDrainer (h3ProbeRequest inp elapsed v c0)))))"

section \<open>Lemmas\<close>

lemma h3ReadResponse_headers:
  "h3ReadResponseHeaders huffDec r = bindE (h3ReadResponse huffDec r) (\<lambda>(m, rest). Inr m)"
proof (induction huffDec r rule: h3ReadResponse.induct)
  case (1 huffDec r)
  show ?case
    by (subst h3ReadResponse.simps, subst h3ReadResponseHeaders.simps)
      (auto simp: bindE_def 1 split: sum.split prod.split)
qed

lemma h3Decode_encode:
  assumes "\<And>kv. kv \<in> set hs \<Longrightarrow> length (fst kv) \<le> goMaxAlloc \<and> length (snd kv) \<le> goMaxAlloc"
    and "hs = [] \<or> \<not> emptyTail (last hs)"
  shows "h3DecodeHeaders huffDec (h3EncodeHeaders hs) = Inr (map_of (rev hs))"
  using decodeLines_encode [of hs huffDec Map.empty] assms
  by (auto simp: h3DecodeHeaders_def h3EncodeHeaders_alt readPrefixedInt_def readPrefixedIntWithFirst_def foldl_upd_map_of)

lemma h3ReadResponse_frames:
  assumes "\<And>ft p. (ft, p) \<in> set fs \<Longrightarrow> ft < 2 ^ 62 \<and> ft \<noteq> h3FrameHeaders \<and> length p \<le> goMaxAlloc"
    and "\<And>kv. kv \<in> set hs \<Longrightarrow> length (fst kv) \<le> goMaxAlloc \<and> length (snd kv) \<le> goMaxAlloc"
    and "hs = [] \<or> \<not> emptyTail (last hs)" and "length (h3EncodeHeaders hs) \<le> goMaxAlloc"
  shows "h3ReadResponse huffDec (Reader (concat (map h3Frame (fs @ [(h3FrameHeaders, h3EncodeHeaders hs)])) @ zs) e) =
    Inr (map_of (rev hs), Reader zs e)"
  using assms(1)
proof (induction fs)
  case Nil
  have "length (h3EncodeHeaders hs) < 2 ^ 62"
    using assms(4) by (simp add: goMaxAlloc_def)
  with h3Decode_encode [OF assms(2,3), of huffDec] assms(4) show ?case
    by (simp add: h3ReadResponse.simps h3Frame_def makeBytes_def)
next
  case (Cons f fs)
  obtain ft p where f: "f = (ft, p)" by (cases f)
  have b: "ft < 2 ^ 62" "ft \<noteq> 1" "length p \<le> goMaxAlloc" using Cons.prems f by auto
  then have l: "length p < 2 ^ 62" by (simp add: goMaxAlloc_def)
  have IH: "h3ReadResponse huffDec (Reader (concat (map h3Frame (fs @ [(h3FrameHeaders, h3EncodeHeaders hs)])) @ zs) e) =
      Inr (map_of (rev hs), Reader zs e)"
    by (rule Cons.IH) (use Cons.prems in auto)
  show ?case
    unfolding f using b l IH
    by (subst h3ReadResponse.simps) (simp add: h3Frame_def [of "(ft, p)"] makeBytes_def)
qed

lemma map_of_rev_distinct: "distinct (map fst xs) \<Longrightarrow> map_of (rev xs) = map_of xs"
  by (subst map_of_inject_set) (simp_all flip: rev_map)

lemma requestFrame_alt: "requestFrame u a = h3Frame (h3FrameHeaders, h3EncodeHeaders (h3ConnectHeaderFields u a))"
  using appendVarint_append [of "appendVarint [] h3FrameHeaders"]
  by (simp add: requestFrame_def h3ConnectHeaders_def h3Frame_def Let_def)

lemma dial_cases:
  assumes "dialRFC9220Profile inp u profile = (r, es)"
  obtains (before) e where "r = Inl e" "leftOpen h3Within es = []"
      "\<nexists>c0. (Scheme u = ''wss'' \<or> Scheme u = ''https'') \<and> qListen inp = None \<and> qDial inp (h3Addr u) = Inr c0"
  | (sending) e c0 e' where "r = Inl e" "{QConn, QEndpoint} \<subseteq> set (leftOpen h3Within es)" "PeerDrainer \<notin> set (leftOpen h3Within es)"
      "Scheme u = ''wss'' \<or> Scheme u = ''https''" "qListen inp = None"
      "qDial inp (h3Addr u) = Inr c0" "h3SendRequest inp u (h3Authority u) profile c0 = Inl e'"
  | (waiting) e c0 sent e' where "r = Inl e" "leftOpen h3Within es = []" "Scheme u = ''wss'' \<or> Scheme u = ''https''" "qListen inp = None"
      "qDial inp (h3Addr u) = Inr c0" "h3SendRequest inp u (h3Authority u) profile c0 = Inr sent" "qDone inp = Some e'"
  | (refused) e c0 sent where "r = Inl e" "{QConn, QEndpoint} \<subseteq> set (leftOpen h3Within es)" "PeerDrainer \<notin> set (leftOpen h3Within es)"
      "Scheme u = ''wss'' \<or> Scheme u = ''https''" "qListen inp = None"
      "qDial inp (h3Addr u) = Inr c0" "h3SendRequest inp u (h3Authority u) profile c0 = Inr sent" "qDone inp = None"
      "h3Response inp = Inl e"
  | (established) c0 st c rest where "r = Inr (newFramedWSConn (h3_contents (h3Stream rest c)) (h3Stream rest c))"
      "leftOpen h3Within es = [QEndpoint, QConn, PeerDrainer, QStream]" "Scheme u = ''wss'' \<or> Scheme u = ''https''" "qListen inp = None"
      "qDial inp (h3Addr u) = Inr c0" "h3SendRequest inp u (h3Authority u) profile c0 = Inr (st, c)" "qDone inp = None"
      "h3Response inp = Inr rest"
  using assms
  by (auto simp: dialRFC9220Profile_def h3Connect_def h3SendRequest_def leftOpen_def h3Within_def bindE_def Let_def
      split: if_splits option.splits sum.splits prod.splits)

lemma probe_request_opens: "Opened r \<in> set (snd (h3ProbeRequest inp elapsed v c0)) \<Longrightarrow> r = QStream"
  by (auto simp: h3ProbeRequest_def Let_def split: option.splits sum.splits prod.splits if_splits)

lemma probe_closes_all: "leftOpen h3Within (snd (ProbeH3ExtendedConnect inp elapsed rawurl)) = []"
proof -
  have "set (heldAfter h3Within [QEndpoint] (snd (during QConn (during PeerDrainer (h3ProbeRequest inp elapsed v c0))))) \<subseteq> {QEndpoint}" for v c0
    using during_held [of h3Within "[QEndpoint]" QConn "during PeerDrainer (h3ProbeRequest inp elapsed v c0)"]
      probe_request_opens [of _ inp elapsed v c0]
    by (auto simp: h3Within_def) (auto simp: during_def)
  then have "heldAfter h3Within [] (snd (during QEndpoint (during QConn (during PeerDrainer (h3ProbeRequest inp elapsed v c0))))) = []" for v c0
    unfolding during_def [of QEndpoint] by (auto simp: filter_empty_conv)
  moreover have "heldAfter h3Within [] (snd (during QEndpoint (x, []))) = []" for x :: "duration \<times> err option"
    by (simp add: during_def)
  ultimately show ?thesis
    by (simp add: ProbeH3ExtendedConnect_def leftOpen_def Let_def split: sum.split option.split)
qed

lemma small_pieces: "b \<in> set controlPieces \<Longrightarrow> length b \<le> goMaxAlloc" "length (appendVarint [] v) \<le> goMaxAlloc"
  by (auto simp: controlPieces_def clientSettings_def appendVarint_def goMaxAlloc_def)

lemma h3Open_opened:
  assumes "quic_conn newUni qw qflush opened sentOn"
    and "h3OpenClientUniStreams ctx k newUni qw qflush c profile = (None, k', c')"
  shows "opened c \<subseteq> opened c'"
proof -
  have step: "opened c \<subseteq> opened c'" if "openUni ctx k newUni qw qflush c bs = (None, k', c')"
    "\<And>b. b \<in> set bs \<Longrightarrow> length b \<le> goMaxAlloc" for k c bs k' c'
    by (rule quic_conn.openUni_sent [OF assms(1) that]) auto
  have one: "opened c \<subseteq> opened c'" if "openUni ctx k newUni qw qflush c [appendVarint [] v] = (None, k', c')" for k c v k' c'
    using step [OF that] small_pieces(2) by simp
  have ctl: "opened c \<subseteq> opened c'" if "openUni ctx k newUni qw qflush c controlPieces = (None, k', c')" for k c k' c'
    using step [OF that small_pieces(1)] by simp
  show ?thesis
    using assms(2)
    by (auto simp: h3OpenClientUniStreams_def split: prod.splits option.splits if_splits dest!: ctl one)
qed

lemma h3SendRequest_sent:
  assumes "quic_conn (qNewUni inp) (qWrite inp) (qFlush inp) opened sentOn"
    and "quic_conn (qNewStream inp) (qWrite inp) (qFlush inp) opened sentOn"
    and "h3SendRequest inp u a profile c0 = Inr (st, c)" and "length (requestFrame u a) \<le> goMaxAlloc"
  shows "st \<notin> opened c0 \<and> st \<in> opened c \<and> sentOn st c = requestFrame u a"
proof -
  from assms(3) obtain k c1 c2 k' c3 where
    o: "h3OpenClientUniStreams (qCtx inp) 0 (qNewUni inp) (qWrite inp) (qFlush inp) c0 profile = (None, k, c1)" and
    n: "qNewStream inp c1 = (Inr st, c2)" and
    w: "h3WriteWithContext (qCtx inp) k (qWrite inp st) c2 (requestFrame u a) = (None, k', c3)" and
    c: "c = snd (qFlush inp st c3)"
    by (auto simp: h3SendRequest_def h3OpenRequest_def h3WriteRequest_def bindE_def split: prod.splits option.splits sum.splits)
  have new: "st \<notin> opened c1" "st \<in> opened c2" "sentOn st c2 = []"
    using quic_conn.new_ok [OF assms(2) n] by auto
  then have "quic_conn.only_on opened sentOn st c2 c2" by (simp add: quic_conn.only_on_def [OF assms(2)])
  from quic_conn.writeAll_sent [OF assms(2) _ this, of "qCtx inp" k "[requestFrame u a]" k' c3] w assms(4) new
  have "st \<in> opened c3 \<and> sentOn st c3 = requestFrame u a"
    by (auto simp: quic_conn.only_on_def [OF assms(2)])
  with quic_conn.flush_keeps [OF assms(2), of st c3 "fst (qFlush inp st c3)" c] c new h3Open_opened [OF assms(1) o]
  show ?thesis by auto
qed

lemma requestFrame_read:
  assumes "length (requestFrame u a) \<le> goMaxAlloc" and "length a \<le> goMaxAlloc" and "length (cleanedRequestURI u) \<le> goMaxAlloc"
    and "length (vget (urlQuery u) ''origin'') \<le> goMaxAlloc"
  shows "h3ReadResponseHeaders huffDec (Reader (requestFrame u a) EOF) = Inr (map_of (rev (h3ConnectHeaderFields u a)))"
proof -
  have "length (h3EncodeHeaders (h3ConnectHeaderFields u a)) \<le> goMaxAlloc"
    using assms(1) by (simp add: requestFrame_alt h3Frame_def)
  moreover have "length (fst kv) \<le> goMaxAlloc \<and> length (snd kv) \<le> goMaxAlloc" if "kv \<in> set (h3ConnectHeaderFields u a)" for kv
    using that assms by (auto simp: h3ConnectHeaderFields_def goMaxAlloc_def Let_def split: if_splits)
  moreover have "\<not> emptyTail (last (h3ConnectHeaderFields u a))"
    by (simp add: h3ConnectHeaderFields_def emptyTail_def Let_def)
  ultimately show ?thesis
    using h3ReadResponse_frames [of "[]" "h3ConnectHeaderFields u a" huffDec "[]" EOF]
    by (simp add: requestFrame_alt h3ReadResponse_headers)
qed

lemma length_ok_block: "length (h3EncodeHeaders [('':status'', ''200'')]) \<le> goMaxAlloc"
  by (simp add: h3EncodeHeaders_def encodeLine_def h3StaticTable_def appendPrefixedInt_def goMaxAlloc_def)

lemma dial_accepted_conn:
  assumes "Scheme u = ''wss''" and "qListen inp = None" and "qDial inp (h3Addr u) = Inr c0"
    and "h3SendRequest inp u (h3Authority u) profile c0 = Inr (st, c)" and "qDone inp = None"
    and "\<And>ft p. (ft, p) \<in> set fs \<Longrightarrow> ft < 2 ^ 62 \<and> ft \<noteq> h3FrameHeaders \<and> length p \<le> goMaxAlloc"
    and "\<And>p. p \<in> set ps \<Longrightarrow> length p \<le> h3MaxDataFrameSize"
    and "qReply inp = Reader (concat (map h3Frame (fs @ [(h3FrameHeaders, h3EncodeHeaders [('':status'', ''200'')])])) @
           concat (map dataFrame ps)) EOF"
  shows "\<exists>conn kept. dialRFC9220Profile inp u profile = (Inr conn, kept) \<and> h3_s (strm conn) = c \<and> br conn = Reader (concat ps) EOF"
proof -
  let ?rest = "Reader (concat (map dataFrame ps)) EOF"
  have "h3ReadResponse (qHuff inp) (qReply inp) = Inr (map_of (rev [('':status'', ''200'')]), ?rest)"
    unfolding assms(8) by (rule h3ReadResponse_frames [OF assms(6)]) (use length_ok_block in \<open>auto simp: emptyTail_def\<close>, simp_all add: goMaxAlloc_def)
  then have "h3Response inp = Inr ?rest"
    by (simp add: h3Response_def)
  moreover obtain r es where d: "dialRFC9220Profile inp u profile = (r, es)" by fastforce
  ultimately have "r = Inr (newFramedWSConn (h3_contents (h3Stream ?rest c)) (h3Stream ?rest c))"
    using assms(1-5) by (cases rule: dial_cases [OF d]) auto
  moreover have "h3_contents (h3Stream ?rest c) = Reader (concat ps) EOF"
    using h3_stream_dataFrames [OF assms(7) cap_small, of ps "[]" EOF]
    by (simp add: h3_contents_def h3Stream_def Let_def)
  ultimately show ?thesis using d by (simp add: newFramedWSConn_def h3Stream_def)
qed

section \<open>Properties\<close>

text \<open>
  C37. What dialling over HTTP/3 leaves open, computed from everything it opens, closes and cancels.
  A dial that succeeds leaves open the endpoint, the connection, the draining goroutine and the
  request stream, and closing the connection it hands out releases exactly these. A dial that fails
  has stopped the goroutine, but leaves the QUIC connection and its UDP endpoint open, for good, in
  every case in which the QUIC handshake succeeded, except when the context ended while the dial
  waited for the response; otherwise it leaves nothing. The health check, which opens the same
  things, leaves nothing open however it ends.
\<close>

theorem h3_dial_resources:
  assumes "dialRFC9220Profile inp u profile = (r, es)"
  shows "(case r of
      Inr c \<Rightarrow> leftOpen h3Within es = [QEndpoint, QConn, PeerDrainer, QStream] \<and>
        set (released (snd (h3Close cerr (strm c)))) = set (leftOpen h3Within es)
    | Inl e \<Rightarrow> PeerDrainer \<notin> set (leftOpen h3Within es) \<and>
        (if \<exists>c0. (Scheme u = ''wss'' \<or> Scheme u = ''https'') \<and> qListen inp = None \<and> qDial inp (h3Addr u) = Inr c0 \<and>
          (qDone inp = None \<or> (\<exists>e'. h3SendRequest inp u (h3Authority u) profile c0 = Inl e'))
         then {QConn, QEndpoint} \<subseteq> set (leftOpen h3Within es) else leftOpen h3Within es = [])) \<and>
    leftOpen h3Within (snd (ProbeH3ExtendedConnect inp elapsed rawurl)) = []"
proof
  show "case r of
      Inr c \<Rightarrow> leftOpen h3Within es = [QEndpoint, QConn, PeerDrainer, QStream] \<and>
        set (released (snd (h3Close cerr (strm c)))) = set (leftOpen h3Within es)
    | Inl e \<Rightarrow> PeerDrainer \<notin> set (leftOpen h3Within es) \<and>
        (if \<exists>c0. (Scheme u = ''wss'' \<or> Scheme u = ''https'') \<and> qListen inp = None \<and> qDial inp (h3Addr u) = Inr c0 \<and>
          (qDone inp = None \<or> (\<exists>e'. h3SendRequest inp u (h3Authority u) profile c0 = Inl e'))
         then {QConn, QEndpoint} \<subseteq> set (leftOpen h3Within es) else leftOpen h3Within es = [])"
    using assms
  proof (cases rule: dial_cases)
    case (established c0 st c rest)
    then show ?thesis by (auto simp: newFramedWSConn_def h3Stream_def h3Close_def)
  qed auto
  show "leftOpen h3Within (snd (ProbeH3ExtendedConnect inp elapsed rawurl)) = []"
    by (rule probe_closes_all)
qed

text \<open>An example connection and what the server sends on the request stream.\<close>

definition quic_example :: "bytes \<Rightarrow> bytes list quicIn" where
  "quic_example reply = \<lparr>qListen = None, qDial = (\<lambda>_. Inr []), qNewUni = qc_new, qNewStream = qc_new, qWrite = qc_write,
     qFlush = qc_flush, qCtx = (\<lambda>_. None), qReply = Reader reply EOF, qDone = None, qElapsed = ''1s'',
     qObs = newH3PeerObservations, qHuff = (\<lambda>_. None), qCode = (\<lambda>_. None)\<rparr>"

definition h3_url_example :: URL where
  "h3_url_example = urlZero\<lparr>Scheme := ''wss'', Host := ''h''\<rparr>"

lemma quic_example_sends:
  "h3SendRequest (quic_example reply) u a h3ClientStreamsControlOnly [] = Inr (1, [concat controlPieces, requestFrame u a])"
proof -
  have "requestFrame u a \<noteq> []" by (simp add: requestFrame_alt h3Frame_def)
  then show ?thesis
    by (simp add: h3SendRequest_def h3OpenRequest_def h3WriteRequest_def quic_example_def h3OpenClientUniStreams_def openUni_def controlPieces_def clientSettings_def
        qc_new_def qc_write_def qc_flush_def h3WriteWithContext.simps appendVarint_def)
qed

theorem h3_dial_resources_witness:
  "\<exists>es. dialRFC9220Profile (quic_example []) h3_url_example h3ClientStreamsControlOnly = (Inl EOF, es) \<and>
     {QConn, QEndpoint} \<subseteq> set (leftOpen h3Within es) \<and> PeerDrainer \<notin> set (leftOpen h3Within es)"
proof -
  obtain r es where d: "dialRFC9220Profile (quic_example []) h3_url_example h3ClientStreamsControlOnly = (r, es)"
    by fastforce
  have "h3Response (quic_example []) = Inl EOF"
    by (simp add: h3Response_def quic_example_def h3ReadResponse.simps readVarint_def readFull.simps h3PeerSupportHint_def)
  with d quic_example_sends have r: "r = Inl EOF"
    by (cases rule: dial_cases) (auto simp: quic_example_def h3_url_example_def)
  show ?thesis
    using h3_dial_resources [OF d, of "\<lambda>_. None" 0 "[]"] d r by (simp add: quic_example_def h3_url_example_def)
qed

text \<open>
  C36. An accepted dial over HTTP/3. Over a QUIC connection that keeps its contract, once the request
  is sent it is alone on a new stream: one HEADERS frame with exactly the fields of an Extended
  CONNECT for WebSocket, in this order, to the cleaned path at the URL's authority, version 13, with
  the origin if the URL gives one and nothing more; and a server that reads the stream gets exactly
  these fields. When the server answers with status 200, after any frames of other types,
  and the context lasts, the dial succeeds, and the connection handed out reads exactly the payloads
  of the DATA frames that follow the response.
\<close>

theorem h3_dial_accepted:
  assumes "quic_conn (qNewUni inp) (qWrite inp) (qFlush inp) opened sentOn"
    and "quic_conn (qNewStream inp) (qWrite inp) (qFlush inp) opened sentOn"
    and "Scheme u = ''wss''" and "qListen inp = None" and "qDial inp (h3Addr u) = Inr c0"
    and "h3SendRequest inp u (h3Authority u) profile c0 = Inr (st, c)" and "qDone inp = None"
    and "length (requestFrame u (h3Authority u)) \<le> goMaxAlloc" and "length (h3Authority u) \<le> goMaxAlloc"
    and "length (cleanedRequestURI u) \<le> goMaxAlloc" and "length (vget (urlQuery u) ''origin'') \<le> goMaxAlloc"
    and "\<And>ft p. (ft, p) \<in> set fs \<Longrightarrow> ft < 2 ^ 62 \<and> ft \<noteq> h3FrameHeaders \<and> length p \<le> goMaxAlloc"
    and "\<And>p. p \<in> set ps \<Longrightarrow> length p \<le> h3MaxDataFrameSize"
    and "qReply inp = Reader (concat (map h3Frame (fs @ [(h3FrameHeaders, h3EncodeHeaders [('':status'', ''200'')])])) @
           concat (map dataFrame ps)) EOF"
  shows "(\<exists>conn kept. dialRFC9220Profile inp u profile = (Inr conn, kept) \<and> h3_s (strm conn) = c \<and> br conn = Reader (concat ps) EOF) \<and>
    st \<notin> opened c0 \<and> st \<in> opened c \<and>
    (let fields = [('':method'', ''CONNECT''), ('':scheme'', ''https''), ('':authority'', h3Authority u), ('':path'', cleanedRequestURI u),
         ('':protocol'', ''websocket''), (''sec-websocket-version'', ''13'')] @
         (if vget (urlQuery u) ''origin'' = [] then [] else [(''origin'', vget (urlQuery u) ''origin'')])
     in sentOn st c = h3Frame (h3FrameHeaders, h3EncodeHeaders fields) \<and>
        h3ReadResponseHeaders huffDec (Reader (sentOn st c) EOF) = Inr (map_of fields))"
proof -
  have sent: "st \<notin> opened c0 \<and> st \<in> opened c \<and> sentOn st c = requestFrame u (h3Authority u)"
    by (rule h3SendRequest_sent [OF assms(1,2,6,8)])
  have "map_of (rev (h3ConnectHeaderFields u (h3Authority u))) = map_of (h3ConnectHeaderFields u (h3Authority u))"
    by (rule map_of_rev_distinct) (simp add: h3ConnectHeaderFields_def Let_def)
  with dial_accepted_conn [OF assms(3-7,12-14)] requestFrame_read [OF assms(8-11), of huffDec] sent show ?thesis
    by (simp add: h3ConnectHeaderFields_def requestFrame_alt Let_def)
qed

theorem h3_dial_accepted_witness:
  "\<exists>conn kept. dialRFC9220Profile
       (quic_example (h3Frame (0x21, []) @ h3Frame (h3FrameHeaders, h3EncodeHeaders [('':status'', ''200'')]) @ dataFrame [7, 8]))
       h3_url_example h3ClientStreamsControlOnly = (Inr conn, kept) \<and> br conn = Reader [7, 8] EOF"
proof -
  let ?r = "concat (map h3Frame ([(0x21, [])] @ [(h3FrameHeaders, h3EncodeHeaders [('':status'', ''200'')])])) @ concat (map dataFrame [[7, 8]])"
  let ?i = "quic_example ?r" and ?u = h3_url_example
  have q: "quic_conn qc_new qc_write qc_flush (\<lambda>c. {..<length c}) (\<lambda>i c. c ! i)"
    by unfold_locales
  have s: "h3SendRequest ?i ?u (h3Authority ?u) h3ClientStreamsControlOnly [] = Inr (1, [concat controlPieces, requestFrame ?u (h3Authority ?u)])"
    by (rule quic_example_sends)
  have u: "h3Authority ?u = ''h''" "cleanedRequestURI ?u = ''/''" "vget (urlQuery ?u) ''origin'' = []" by code_simp+
  have l: "length (requestFrame ?u (h3Authority ?u)) \<le> 1000" by code_simp
  have "\<exists>conn kept. dialRFC9220Profile ?i ?u h3ClientStreamsControlOnly = (Inr conn, kept) \<and>
      h3_s (strm conn) = [concat controlPieces, requestFrame ?u (h3Authority ?u)] \<and> br conn = Reader (concat [[7, 8]]) EOF"
    by (rule h3_dial_accepted [where inp = ?i and u = ?u and huffDec = "\<lambda>_. None" and fs = "[(0x21, [])]" and ps = "[[7, 8]]"
          and opened = "\<lambda>c. {..<length c}" and sentOn = "\<lambda>i c. c ! i", OF _ _ _ _ _ s, THEN conjunct1])
      (use q u l in \<open>auto simp: quic_example_def h3_url_example_def goMaxAlloc_def h3MaxDataFrameSize_def\<close>)
  then show ?thesis by auto
qed

text \<open>
  The time a dial over HTTP/3 gets: unless the caller's deadline has already passed, the dial's
  context ends exactly \<open>h3HandshakeTimeout\<close> after the start, whatever the caller's deadline is,
  or when the caller cancels before both.
\<close>

theorem h3_dial_time:
  assumes "case ddl of None \<Rightarrow> True | Some d \<Rightarrow> t0 < d"
  shows "h3ctxErr t0 ddl None t = (if t0 + h3HandshakeTimeout \<le> t then Some DeadlineExceeded else None) \<and>
    (c < t0 + h3HandshakeTimeout \<and> (case ddl of None \<Rightarrow> True | Some d \<Rightarrow> c < d) \<longrightarrow>
      h3ctxErr t0 ddl (Some c) t = (if c \<le> t then Some Canceled else if t0 + h3HandshakeTimeout \<le> t then Some DeadlineExceeded else None))"
  using assms
  by (auto simp: h3ctxErr_def ignoresDeadline_def ctxErrAt_def timeSub_def h3HandshakeTimeout_def min_def max_def
      split: option.splits)

end
