(* ===== verification/H2_Raw.thy ===== *)
theory H2_Raw
  imports Transport Ws_Over_H3
begin

text \<open>
  WebSocket over one raw HTTP/2 connection (\<^verbatim>\<open>internal/rfc8441_raw_h2.go\<close>): connection
  preface and SETTINGS, the Extended CONNECT request and its response, the stream adapter with
  its read pump and WINDOW_UPDATE batching, and closing. The framer of \<^verbatim>\<open>x/net/http2\<close> over
  a buffered writer is given by \<open>wrf\<close> (write one frame into the buffer) and \<open>fl\<close> (flush),
  which act on a state \<open>'w\<close>; the frames it will read, and the error after them, are part of the
  connection. HPACK is a parameter. \<open>ctxErr i\<close> is what \<^verbatim>\<open>ctx.Err()\<close> says at the
  \<open>i\<close>-th check of a loop.
\<close>

section \<open>Definitions\<close>

subsection \<open>Frames and state\<close>

datatype h2frame =
    SettingsF bool "(nat \<times> nat) list"
  | HeadersF nat bytes bool
  | MetaHeadersF nat "(string \<times> string) list"
  | ContinuationF nat bytes bool
  | GoAwayF
  | RSTStreamF nat string
  | DataF nat bytes bool
  | OtherF

datatype outFrame =
    Preface
  | OSettings "(nat \<times> nat) list"
  | OSettingsAck
  | OHeaders nat bytes bool bool
  | OData nat bool bytes
  | OWindowUpdate nat "32 word"
  | ORSTStream nat nat

type_synonym 'w fwrite = "outFrame \<Rightarrow> 'w \<Rightarrow> err option \<times> 'w"
type_synonym 'w fflush = "'w \<Rightarrow> err option \<times> 'w"

record 'w rawH2Conn =
  fw :: 'w
  fin :: "h2frame list"
  ferr :: err
  h2closed :: bool
  netCloses :: nat

record 'w rawH2Stream =
  parent :: "'w rawH2Conn"
  pipe :: bytes
  pipeEnd :: "err option"

definition rawH2MaxDataFrameChunk :: nat where "rawH2MaxDataFrameChunk = 16 * 1024"
definition rawH2WindowUpdateBatch :: "32 word" where "rawH2WindowUpdateBatch = 64 * 1024"

definition errRFC8441HandshakeFailed :: err where
  "errRFC8441HandshakeFailed = Sentinel ''rfc8441 handshake failed''"

definition newRawH2Conn :: "'w \<Rightarrow> h2frame list \<Rightarrow> err \<Rightarrow> 'w rawH2Conn" where
  "newRawH2Conn w fs e = \<lparr>fw = w, fin = fs, ferr = e, h2closed = False, netCloses = 0\<rparr>"

definition readFrameH2 :: "'w rawH2Conn \<Rightarrow> (err + h2frame) \<times> 'w rawH2Conn" where
  "readFrameH2 c = (case fin c of [] \<Rightarrow> (Inl (ferr c), c) | f # fs \<Rightarrow> (Inr f, c\<lparr>fin := fs\<rparr>))"

definition writeFrame :: "'w fwrite \<Rightarrow> 'w fflush \<Rightarrow> outFrame \<Rightarrow> 'w \<Rightarrow> err option \<times> 'w" where
  "writeFrame wrf fl f w = (case wrf f w of (Some e, w') \<Rightarrow> (Some e, w') | (None, w') \<Rightarrow> fl w')"

definition rawClose :: "err option \<Rightarrow> 'w rawH2Conn \<Rightarrow> err option \<times> 'w rawH2Conn" where
  "rawClose cerr c =
     (if h2closed c then (None, c) else (cerr, c\<lparr>h2closed := True, netCloses := Suc (netCloses c)\<rparr>))"

subsection \<open>Preface and SETTINGS\<close>

definition settingEnableConnectProtocol :: nat where "settingEnableConnectProtocol = 8"

text \<open>The last value of a setting in a SETTINGS frame, as the callback leaves it.\<close>

definition lastSetting :: "nat \<Rightarrow> (nat \<times> nat) list \<Rightarrow> nat option" where
  "lastSetting k ss = foldl (\<lambda>r s. if fst s = k then Some (snd s) else r) None ss"

fun settingsLoop ::
  "'w fwrite \<Rightarrow> 'w fflush \<Rightarrow> (nat \<Rightarrow> err option) \<Rightarrow> nat \<Rightarrow> err \<Rightarrow> h2frame list \<Rightarrow> 'w \<Rightarrow> err option \<times> h2frame list \<times> 'w" where
  "settingsLoop wrf fl ctxErr i re [] w = (Some (case ctxErr i of Some e \<Rightarrow> e | None \<Rightarrow> re), [], w)"
| "settingsLoop wrf fl ctxErr i re (f # fs) w =
     (case ctxErr i of
        Some e \<Rightarrow> (Some e, f # fs, w)
      | None \<Rightarrow>
          (case f of
             SettingsF False ss \<Rightarrow>
               (case lastSetting settingEnableConnectProtocol ss of
                  Some (Suc 0) \<Rightarrow> (let (e, w') = writeFrame wrf fl OSettingsAck w in (e, fs, w'))
                | v \<Rightarrow> (Some (Msg (''rfc8441 not supported by server: SETTINGS_ENABLE_CONNECT_PROTOCOL='' @
                      itoa (case v of None \<Rightarrow> 0 | Some n \<Rightarrow> n) @ '' (present='' @
                      (if v = None then ''false'' else ''true'') @ '')'')), fs, w))
           | _ \<Rightarrow> settingsLoop wrf fl ctxErr (Suc i) re fs w))"

definition rawInit ::
  "'w fwrite \<Rightarrow> 'w fflush \<Rightarrow> (nat \<Rightarrow> err option) \<Rightarrow> 'w rawH2Conn \<Rightarrow> err option \<times> 'w rawH2Conn" where
  "rawInit wrf fl ctxErr c =
     (case writeFrame wrf fl Preface (fw c) of
        (Some e, w) \<Rightarrow> (Some e, c\<lparr>fw := w\<rparr>)
      | (None, w) \<Rightarrow>
          (case writeFrame wrf fl (OSettings [(settingEnableConnectProtocol, 1)]) w of
             (Some e, w') \<Rightarrow> (Some e, c\<lparr>fw := w'\<rparr>)
           | (None, w') \<Rightarrow>
               let (e, fs, w'') = settingsLoop wrf fl ctxErr 0 (ferr c) (fin c) w'
               in (e, c\<lparr>fw := w'', fin := fs\<rparr>)))"

subsection \<open>The accept key: SHA-1 and base64\<close>

definition rotl32 :: "nat \<Rightarrow> 32 word \<Rightarrow> 32 word" where
  "rotl32 n w = push_bit n w OR drop_bit (32 - n) w"

definition sha1Pad :: "bytes \<Rightarrow> bytes" where
  "sha1Pad m = m @ 0x80 # replicate ((119 - length m mod 64) mod 64) 0 @
     map (\<lambda>k. ucast (drop_bit (8 * k) (word_of_nat (8 * length m) :: 64 word))) [7, 6, 5, 4, 3, 2, 1, 0]"

fun words32 :: "bytes \<Rightarrow> 32 word list" where
  "words32 (a # b # c # d # r) =
     (push_bit 24 (ucast a) OR push_bit 16 (ucast b) OR push_bit 8 (ucast c) OR ucast d) # words32 r"
| "words32 _ = []"

text \<open>The message schedule is kept newest first.\<close>

fun schedule :: "nat \<Rightarrow> 32 word list \<Rightarrow> 32 word list" where
  "schedule 0 ws = ws"
| "schedule (Suc n) ws = schedule n (rotl32 1 ((ws ! 2) XOR (ws ! 7) XOR (ws ! 13) XOR (ws ! 15)) # ws)"

type_synonym sha1State = "32 word \<times> 32 word \<times> 32 word \<times> 32 word \<times> 32 word"

definition sha1Round :: "sha1State \<Rightarrow> nat \<times> 32 word \<Rightarrow> sha1State" where
  "sha1Round st tw = (let (a, b, c, d, e) = st; (t, w) = tw;
       (f, k) = (if t < 20 then ((b AND c) OR (NOT b AND d), 0x5A827999)
                 else if t < 40 then (b XOR c XOR d, 0x6ED9EBA1)
                 else if t < 60 then ((b AND c) OR (b AND d) OR (c AND d), 0x8F1BBCDC)
                 else (b XOR c XOR d, 0xCA62C1D6))
     in (rotl32 5 a + f + e + w + k, a, rotl32 30 b, c, d))"

definition sha1Block :: "sha1State \<Rightarrow> 32 word list \<Rightarrow> sha1State" where
  "sha1Block st ws = (let (a, b, c, d, e) = st;
       (a', b', c', d', e') = foldl sha1Round st (zip [0..<80] (rev (schedule 64 (rev ws))))
     in (a + a', b + b', c + c', d + d', e + e'))"

fun sha1Blocks :: "nat \<Rightarrow> sha1State \<Rightarrow> 32 word list \<Rightarrow> sha1State" where
  "sha1Blocks 0 st ws = st"
| "sha1Blocks (Suc n) st ws = sha1Blocks n (sha1Block st (take 16 ws)) (drop 16 ws)"

definition sha1Sum :: "bytes \<Rightarrow> bytes" where
  "sha1Sum m = (let ws = words32 (sha1Pad m);
       (a, b, c, d, e) = sha1Blocks (length ws div 16)
         (0x67452301, 0xEFCDAB89, 0x98BADCFE, 0x10325476, 0xC3D2E1F0) ws
     in concat (map (\<lambda>w. [ucast (drop_bit 24 w), ucast (drop_bit 16 w), ucast (drop_bit 8 w), ucast w]) [a, b, c, d, e]))"

definition b64char :: "byte \<Rightarrow> char" where
  "b64char n = ''ABCDEFGHIJKLMNOPQRSTUVWXYZabcdefghijklmnopqrstuvwxyz0123456789+/'' ! unat (n AND 63)"

fun base64 :: "bytes \<Rightarrow> string" where
  "base64 [] = []"
| "base64 [a] = [b64char (drop_bit 2 a), b64char (push_bit 4 a), CHR ''='', CHR ''='']"
| "base64 [a, b] = [b64char (drop_bit 2 a), b64char (push_bit 4 a OR drop_bit 4 b), b64char (push_bit 2 b), CHR ''='']"
| "base64 (a # b # c # r) =
     b64char (drop_bit 2 a) # b64char (push_bit 4 a OR drop_bit 4 b) # b64char (push_bit 2 b OR drop_bit 6 c) # b64char c #
     base64 r"

definition computeAccept :: "string \<Rightarrow> string" where
  "computeAccept key = base64 (sha1Sum (bytes_of (key @ ''258EAFA5-E914-47DA-95CA-C5AB0DC85B11'')))"

subsection \<open>Extended CONNECT\<close>

definition addField :: "string \<times> string gomap \<Rightarrow> string \<times> string \<Rightarrow> string \<times> string gomap" where
  "addField acc f = (let name = toLower (fst f)
     in if name = '':status'' then (snd f, snd acc) else (fst acc, AList.update name (snd f) (snd acc)))"

fun responseLoop ::
  "'w fwrite \<Rightarrow> 'w fflush \<Rightarrow> (bytes \<Rightarrow> err + (string \<times> string) list) \<Rightarrow> (nat \<Rightarrow> err option) \<Rightarrow> nat \<Rightarrow> nat \<Rightarrow> err \<Rightarrow>
     bytes \<Rightarrow> h2frame list \<Rightarrow> 'w \<Rightarrow> (err + string \<times> string gomap) \<times> h2frame list \<times> 'w" where
  "responseLoop wrf fl hpackDec ctxErr sid i re block [] w = (Inl (case ctxErr i of Some e \<Rightarrow> e | None \<Rightarrow> re), [], w)"
| "responseLoop wrf fl hpackDec ctxErr sid i re block (f # fs) w =
     (case ctxErr i of
        Some e \<Rightarrow> (Inl e, f # fs, w)
      | None \<Rightarrow>
          let continue = (\<lambda>b w'. responseLoop wrf fl hpackDec ctxErr sid (Suc i) re b fs w');
              decode = (\<lambda>b. (bindE (hpackDec b) (\<lambda>hs. Inr (foldl addField ([], []) hs)), fs, w))
          in case f of
               SettingsF ack _ \<Rightarrow>
                 if ack then continue block w else continue block (snd (writeFrame wrf fl OSettingsAck w))
             | HeadersF s frag ended \<Rightarrow>
                 if s \<noteq> sid then continue block w
                 else if ended then decode (block @ frag) else continue (block @ frag) w
             | MetaHeadersF s hfs \<Rightarrow>
                 if s \<noteq> sid then continue block w else (Inr (foldl addField ([], []) hfs), fs, w)
             | ContinuationF s frag ended \<Rightarrow>
                 if s \<noteq> sid then continue block w
                 else if ended then decode (block @ frag) else continue (block @ frag) w
             | GoAwayF \<Rightarrow> (Inl (WrapPre errRFC8441HandshakeFailed '': received GOAWAY''), fs, w)
             | RSTStreamF s ec \<Rightarrow>
                 if s \<noteq> sid then continue block w
                 else (Inl (WrapPre errRFC8441HandshakeFailed ('': received RST_STREAM (code='' @ ec @ '')'')), fs, w)
             | _ \<Rightarrow> continue block w)"

definition readResponseHeaders ::
  "'w fwrite \<Rightarrow> 'w fflush \<Rightarrow> (bytes \<Rightarrow> err + (string \<times> string) list) \<Rightarrow> (nat \<Rightarrow> err option) \<Rightarrow> nat \<Rightarrow> 'w rawH2Conn \<Rightarrow>
     (err + string \<times> string gomap) \<times> 'w rawH2Conn" where
  "readResponseHeaders wrf fl hpackDec ctxErr sid c =
     (let (r, fs, w) = responseLoop wrf fl hpackDec ctxErr sid 0 (ferr c) [] (fin c) (fw c)
      in (r, c\<lparr>fin := fs, fw := w\<rparr>))"

definition connectFields :: "URL \<Rightarrow> string \<Rightarrow> (string \<times> string) list" where
  "connectFields u key =
     [('':method'', ''CONNECT''), ('':scheme'', ''https''), ('':authority'', Host u), ('':path'', cleanedRequestURI u),
      ('':protocol'', ''websocket''), (''sec-websocket-version'', ''13''), (''sec-websocket-key'', key)] @
     (let origin = vget (urlQuery u) ''origin'' in if origin = [] then [] else [(''origin'', origin)])"

definition openWebSocketStream ::
  "'w fwrite \<Rightarrow> 'w fflush \<Rightarrow> ((string \<times> string) list \<Rightarrow> bytes) \<Rightarrow> (bytes \<Rightarrow> err + (string \<times> string) list) \<Rightarrow>
     (err + bytes) \<Rightarrow> (nat \<Rightarrow> err option) \<Rightarrow> URL \<Rightarrow> 'w rawH2Conn \<Rightarrow> (err + 'w rawH2Stream) \<times> 'w rawH2Conn" where
  "openWebSocketStream wrf fl hpackEnc hpackDec rnd ctxErr u c =
     (case rnd of
        Inl e \<Rightarrow> (Inl e, c)
      | Inr keyRaw \<Rightarrow>
          let key = base64 keyRaw; accept = computeAccept key
          in case writeFrame wrf fl (OHeaders 1 (hpackEnc (connectFields u key)) True False) (fw c) of
               (Some e, w) \<Rightarrow> (Inl e, c\<lparr>fw := w\<rparr>)
             | (None, w) \<Rightarrow>
                 case readResponseHeaders wrf fl hpackDec ctxErr 1 (c\<lparr>fw := w\<rparr>) of
                   (Inl e, c') \<Rightarrow> (Inl e, c')
                 | (Inr (status, hdrs), c') \<Rightarrow>
                     if status \<noteq> ''200''
                     then (Inl (WrapPre errRFC8441HandshakeFailed ('': unexpected status '' @ status)), c')
                     else if mget [] hdrs ''sec-websocket-accept'' \<noteq> [] \<and> mget [] hdrs ''sec-websocket-accept'' \<noteq> accept
                     then (Inl (WrapPre errRFC8441HandshakeFailed '': bad sec-websocket-accept''), c')
                     else (Inr \<lparr>parent = c', pipe = [], pipeEnd = None\<rparr>, c'))"

definition rawHost :: "URL \<Rightarrow> string" where
  "rawHost u = (if CHR '':'' \<in> set (Host u) then Host u else Host u @ '':443'')"

definition rawServerName :: "string \<Rightarrow> string \<Rightarrow> string" where
  "rawServerName tlsName host =
     (if tlsName \<noteq> [] then tlsName else case splitHostPort host of Inr (h, _) \<Rightarrow> h | Inl _ \<Rightarrow> host)"

definition rawProtos :: "string list \<Rightarrow> string list" where
  "rawProtos ps = (if ps = [] then [''h2'', ''http/1.1''] else if ''h2'' \<in> set ps then ps else ''h2'' # ps)"

text \<open>
  The dial. \<open>dialTCP\<close> gives a connection, \<open>handshake\<close> runs TLS on it with a server name
  and protocol list and gives the negotiated protocol; \<open>tlsName\<close> and \<open>tlsProtos\<close> are those of
  the transport's TLS configuration. The second result is the connection as it is left, if one
  was made.
\<close>

definition dialRFC8441RawH2 ::
  "'w fwrite \<Rightarrow> 'w fflush \<Rightarrow> ((string \<times> string) list \<Rightarrow> bytes) \<Rightarrow> (bytes \<Rightarrow> err + (string \<times> string) list) \<Rightarrow>
     (err + bytes) \<Rightarrow> (nat \<Rightarrow> err option) \<Rightarrow> (string \<Rightarrow> err + 'w rawH2Conn) \<Rightarrow>
     (string \<Rightarrow> string list \<Rightarrow> 'w rawH2Conn \<Rightarrow> (err + string) \<times> 'w rawH2Conn) \<Rightarrow> string \<Rightarrow> string list \<Rightarrow>
     URL \<Rightarrow> (err + 'w rawH2Stream) \<times> 'w rawH2Conn option" where
  "dialRFC8441RawH2 wrf fl hpackEnc hpackDec rnd ctxErr dialTCP handshake tlsName tlsProtos u =
     (if Scheme u \<noteq> ''wss'' then (Inl (Msg (''rfc8441 raw h2 requires wss, got '' @ quote (Scheme u))), None)
      else case dialTCP (rawHost u) of
             Inl e \<Rightarrow> (Inl e, None)
           | Inr c \<Rightarrow>
               case handshake (rawServerName tlsName (rawHost u)) (rawProtos tlsProtos) c of
                    (Inl e, c') \<Rightarrow> (Inl e, Some (snd (rawClose None c')))
                  | (Inr alpn, c') \<Rightarrow>
                      if alpn \<noteq> ''h2''
                      then (Inl (Msg (''rfc8441 requires h2 ALPN, negotiated '' @ quote alpn)), Some (snd (rawClose None c')))
                      else case rawInit wrf fl ctxErr c' of
                          (Some e, c'') \<Rightarrow> (Inl e, Some (snd (rawClose None c'')))
                        | (None, c'') \<Rightarrow>
                            case openWebSocketStream wrf fl hpackEnc hpackDec rnd ctxErr u c'' of
                              (Inl e, d) \<Rightarrow> (Inl e, Some (snd (rawClose None d)))
                            | (Inr ws, d) \<Rightarrow> (Inr ws, Some d))"

subsection \<open>The stream\<close>

function rawWriteLoop :: "'w fwrite \<Rightarrow> bytes \<Rightarrow> nat \<Rightarrow> 'w \<Rightarrow> (nat \<times> err option) \<times> 'w" where
  "rawWriteLoop wrf p off w =
     (if p = [] then ((off, None), w)
      else let chunk = take rawH2MaxDataFrameChunk p
           in case wrf (OData 1 False chunk) w of
                (Some e, w') \<Rightarrow> ((off, Some e), w')
              | (None, w') \<Rightarrow> rawWriteLoop wrf (drop rawH2MaxDataFrameChunk p) (off + length chunk) w')"
  by pat_completeness auto
termination
  by (relation "measure (\<lambda>(wrf, p, off, w). length p)") (auto simp: rawH2MaxDataFrameChunk_def)

definition rawWrite ::
  "'w fwrite \<Rightarrow> 'w fflush \<Rightarrow> 'w rawH2Stream \<Rightarrow> bytes \<Rightarrow> (int \<times> err option) \<times> 'w rawH2Stream" where
  "rawWrite wrf fl s p =
     (let put = (\<lambda>w. s\<lparr>parent := (parent s)\<lparr>fw := w\<rparr>\<rparr>)
      in case rawWriteLoop wrf p 0 (fw (parent s)) of
           ((off, Some e), w) \<Rightarrow> ((int off, Some e), put w)
         | ((off, None), w) \<Rightarrow>
             (case fl w of
                (Some e, w') \<Rightarrow> ((int off, Some e), put w')
              | (None, w') \<Rightarrow> ((int (length p), None), put w')))"

text \<open>\<^verbatim>\<open>PipeWriter.Close\<close> and \<^verbatim>\<open>CloseWithError\<close>: the first one decides what readers see.\<close>

definition closePipe :: "err \<Rightarrow> 'w rawH2Stream \<Rightarrow> 'w rawH2Stream" where
  "closePipe e s = (case pipeEnd s of None \<Rightarrow> s\<lparr>pipeEnd := Some e\<rparr> | Some _ \<Rightarrow> s)"

definition streamClose ::
  "'w fwrite \<Rightarrow> 'w fflush \<Rightarrow> err option \<Rightarrow> 'w rawH2Stream \<Rightarrow> err option \<times> 'w rawH2Stream" where
  "streamClose wrf fl cerr s =
     (let w = snd (writeFrame wrf fl (ORSTStream 1 8) (fw (parent s)));
          c = snd (rawClose cerr ((parent s)\<lparr>fw := w\<rparr>))
      in (None, closePipe EOF (s\<lparr>parent := c\<rparr>)))"

definition flushWindowUpdate ::
  "'w fwrite \<Rightarrow> 'w fflush \<Rightarrow> bool \<Rightarrow> 32 word \<Rightarrow> 'w \<Rightarrow> 32 word \<times> 'w" where
  "flushWindowUpdate wrf fl force pend w =
     (if pend = 0 then (pend, w)
      else if \<not> force \<and> pend < rawH2WindowUpdateBatch then (pend, w)
      else (0, snd (writeFrame wrf fl (OWindowUpdate 1 pend) (snd (wrf (OWindowUpdate 0 pend) w)))))"

text \<open>
  The pump: \<open>isClosed i\<close> says whether the connection is seen closed at the \<open>i\<close>-th turn. It
  returns with the bytes not yet credited, which the deferred calls of \<open>readLoop\<close> then credit
  before they close the pipe.
\<close>

definition pumpData ::
  "'w fwrite \<Rightarrow> 'w fflush \<Rightarrow> bytes \<Rightarrow> 32 word \<times> 'w rawH2Stream \<Rightarrow> 32 word \<times> 'w rawH2Stream" where
  "pumpData wrf fl data ps =
     (if data = [] then ps
      else let (pend, s) = ps;
               s' = (if pipeEnd s = None then s\<lparr>pipe := pipe s @ data\<rparr> else s);
               (pend', w) = flushWindowUpdate wrf fl False (pend + word_of_nat (length data)) (fw (parent s'))
           in (pend', s'\<lparr>parent := (parent s')\<lparr>fw := w\<rparr>\<rparr>))"

definition creditAll :: "'w fwrite \<Rightarrow> 'w fflush \<Rightarrow> 32 word \<times> 'w rawH2Stream \<Rightarrow> 32 word \<times> 'w rawH2Stream" where
  "creditAll wrf fl ps =
     (let (pend, s) = ps; (pend', w) = flushWindowUpdate wrf fl True pend (fw (parent s))
      in (pend', s\<lparr>parent := (parent s)\<lparr>fw := w\<rparr>\<rparr>))"

text \<open>One turn of the loop on a frame, and whether the loop goes on.\<close>

definition pumpTurn ::
  "'w fwrite \<Rightarrow> 'w fflush \<Rightarrow> h2frame \<Rightarrow> 32 word \<times> 'w rawH2Stream \<Rightarrow> bool \<times> 32 word \<times> 'w rawH2Stream" where
  "pumpTurn wrf fl f ps =
     (case f of
        DataF sid data ended \<Rightarrow>
          if sid \<noteq> 1 then (True, ps)
          else if ended then (False, creditAll wrf fl (pumpData wrf fl data ps))
          else (True, pumpData wrf fl data ps)
      | RSTStreamF sid _ \<Rightarrow> (sid \<noteq> 1, ps)
      | GoAwayF \<Rightarrow> (False, ps)
      | _ \<Rightarrow> (True, ps))"

fun pump ::
  "'w fwrite \<Rightarrow> 'w fflush \<Rightarrow> (nat \<Rightarrow> bool) \<Rightarrow> (nat \<Rightarrow> err option) \<Rightarrow> nat \<Rightarrow> err \<Rightarrow> h2frame list \<Rightarrow>
     32 word \<times> 'w rawH2Stream \<Rightarrow> 32 word \<times> 'w rawH2Stream" where
  "pump wrf fl isClosed ctxErr i re [] ps =
     (if isClosed i \<or> ctxErr i \<noteq> None then ps else (fst ps, closePipe re (snd ps)))"
| "pump wrf fl isClosed ctxErr i re (f # fs) ps =
     (if isClosed i \<or> ctxErr i \<noteq> None then ps
      else case pumpTurn wrf fl f ps of
          (True, ps') \<Rightarrow> pump wrf fl isClosed ctxErr (Suc i) re fs ps'
        | (False, ps') \<Rightarrow> ps')"

text \<open>The deferred calls: credit what is pending, then close the pipe.\<close>

definition pumpExit :: "'w fwrite \<Rightarrow> 'w fflush \<Rightarrow> 32 word \<times> 'w rawH2Stream \<Rightarrow> 'w rawH2Stream" where
  "pumpExit wrf fl ps = closePipe EOF (snd (creditAll wrf fl ps))"

definition readLoop ::
  "'w fwrite \<Rightarrow> 'w fflush \<Rightarrow> (nat \<Rightarrow> bool) \<Rightarrow> (nat \<Rightarrow> err option) \<Rightarrow> 'w rawH2Stream \<Rightarrow> 'w rawH2Stream" where
  "readLoop wrf fl isClosed ctxErr s =
     pumpExit wrf fl (pump wrf fl isClosed ctxErr 0 (ferr (parent s)) (fin (parent s)) (0, s))"

declare rawWriteLoop.simps [simp del]

section \<open>What a framer promises\<close>

text \<open>
  A frame that was written without error is behind the earlier ones, a flush without error has
  put all of them on the network.
\<close>

locale h2_framer =
  fixes wrf :: "'w fwrite" and fl :: "'w fflush"
    and written :: "'w \<Rightarrow> outFrame list"
    and onWire :: "'w \<Rightarrow> outFrame list"
  assumes wrf_ok: "wrf f w = (None, w') \<Longrightarrow> written w' = written w @ [f]"
    and fl_ok: "fl w = (None, w') \<Longrightarrow> written w' = written w \<and> onWire w' = written w'"
begin

lemma writeFrame_ok:
  "writeFrame wrf fl f w = (None, w') \<Longrightarrow> written w' = written w @ [f] \<and> onWire w' = written w'"
proof -
  assume "writeFrame wrf fl f w = (None, w')"
  then obtain w1 where "wrf f w = (None, w1)" "fl w1 = (None, w')"
    by (auto simp: writeFrame_def split: prod.splits option.splits)
  with wrf_ok [of f w w1] fl_ok [of w1 w'] show ?thesis by simp
qed

lemma rawWriteLoop_ok:
  "rawWriteLoop wrf p off w = ((n, None), w') \<Longrightarrow>
   n = off + length p \<and> (\<exists>cs. concat cs = p \<and> (\<forall>c \<in> set cs. c \<noteq> [] \<and> length c \<le> rawH2MaxDataFrameChunk) \<and>
     written w' = written w @ map (OData 1 False) cs)"
proof (induction p arbitrary: off w rule: length_induct)
  case (1 p)
  show ?case
  proof (cases "p = []")
    case True
    with 1(2) show ?thesis by (auto simp: rawWriteLoop.simps intro: exI [of _ "[]"])
  next
    case False
    let ?c = "take rawH2MaxDataFrameChunk p"
    obtain w1 where w1: "wrf (OData 1 False ?c) w = (None, w1)"
      and rec: "rawWriteLoop wrf (drop rawH2MaxDataFrameChunk p) (off + length ?c) w1 = ((n, None), w')"
      using 1(2) False by (auto simp: rawWriteLoop.simps [of wrf p] Let_def split: prod.splits option.splits)
    have "length (drop rawH2MaxDataFrameChunk p) < length p"
      using False by (simp add: rawH2MaxDataFrameChunk_def)
    with 1(1) rec obtain cs where cs: "n = off + length ?c + length (drop rawH2MaxDataFrameChunk p)"
      "concat cs = drop rawH2MaxDataFrameChunk p" "\<forall>c \<in> set cs. c \<noteq> [] \<and> length c \<le> rawH2MaxDataFrameChunk"
      "written w' = written w1 @ map (OData 1 False) cs"
      by blast
    have "concat (?c # cs) = p" "\<forall>c \<in> set (?c # cs). c \<noteq> [] \<and> length c \<le> rawH2MaxDataFrameChunk"
      "written w' = written w @ map (OData 1 False) (?c # cs)"
      using cs wrf_ok [OF w1] False by (simp_all add: rawH2MaxDataFrameChunk_def)
    moreover have "n = off + length p" using cs(1) by simp
    ultimately show ?thesis by blast
  qed
qed

end

fun dataOf :: "outFrame \<Rightarrow> bytes" where
  "dataOf (OData sid _ d) = (if sid = 1 then d else [])"
| "dataOf _ = []"

definition h2Payload :: "outFrame list \<Rightarrow> bytes" where
  "h2Payload fs = concat (map dataOf fs)"

text \<open>
  So the stream is a writer in the sense of \<^verbatim>\<open>io.Writer\<close>, and what is proved about writing
  messages on any writer holds for it.
\<close>

definition h2Sent :: "('w \<Rightarrow> outFrame list) \<Rightarrow> ('w \<Rightarrow> outFrame list) \<Rightarrow> outFrame list \<Rightarrow> 'w rawH2Stream \<Rightarrow> bool" where
  "h2Sent written onWire pre s \<longleftrightarrow> onWire (fw (parent s)) = written (fw (parent s)) \<and>
     (\<exists>cs. written (fw (parent s)) = pre @ map (OData 1 False) cs \<and> (\<forall>c \<in> set cs. c \<noteq> [] \<and> length c \<le> rawH2MaxDataFrameChunk))"

sublocale h2_framer \<subseteq> h2: io_writer "rawWrite wrf fl" "\<lambda>s. h2Payload (written (fw (parent s)))" "h2Sent written onWire pre" goMaxAlloc
  for pre
proof
  fix s p n s'
  assume g: "h2Sent written onWire pre s" and "rawWrite wrf fl s p = ((n, None), s')"
  then obtain m w w' where l: "rawWriteLoop wrf p 0 (fw (parent s)) = ((m, None), w)" and f: "fl w = (None, w')"
    and s': "s' = s\<lparr>parent := (parent s)\<lparr>fw := w'\<rparr>\<rparr>" and n: "n = int (length p)"
    by (auto simp: rawWrite_def Let_def split: prod.splits option.splits)
  from rawWriteLoop_ok [OF l] obtain cs where cs: "concat cs = p" "\<forall>c \<in> set cs. c \<noteq> [] \<and> length c \<le> rawH2MaxDataFrameChunk"
    "written w = written (fw (parent s)) @ map (OData 1 False) cs"
    by blast
  from g obtain bs where bs: "written (fw (parent s)) = pre @ map (OData 1 False) bs"
    "\<forall>c \<in> set bs. c \<noteq> [] \<and> length c \<le> rawH2MaxDataFrameChunk"
    by (auto simp: h2Sent_def)
  have "h2Sent written onWire pre s'"
    unfolding h2Sent_def using cs bs fl_ok [OF f] s' by (intro conjI exI [of _ "bs @ cs"]) auto
  with cs fl_ok [OF f] s' n show "h2Sent written onWire pre s' \<and> 0 \<le> n \<and> n \<le> int (length p) \<and>
      h2Payload (written (fw (parent s'))) = h2Payload (written (fw (parent s))) @ take (nat n) p"
    by (simp add: h2Payload_def comp_def)
qed

context h2_framer
begin

lemmas h2_writeMsgs_sent = h2.writeMsgs_sent

end

text \<open>A framer that never fails: the frames in the buffer and those on the network.\<close>

type_synonym h2list = "outFrame list \<times> outFrame list"

definition list_write :: "h2list fwrite" where
  "list_write f w = (None, (fst w @ [f], snd w))"

definition list_flush :: "h2list fflush" where
  "list_flush w = (None, ([], snd w @ fst w))"

interpretation h2l: h2_framer list_write list_flush "\<lambda>w. snd w @ fst w" snd
  by unfold_locales (auto simp: list_write_def list_flush_def)

section \<open>The pump\<close>

fun credit :: "nat \<Rightarrow> outFrame \<Rightarrow> nat" where
  "credit sid (OWindowUpdate i v) = (if i = sid then unat v else 0)"
| "credit sid _ = 0"

definition credited :: "nat \<Rightarrow> outFrame list \<Rightarrow> nat" where
  "credited sid fs = sum_list (map (credit sid) fs)"

lemma credited_simps [simp]:
  "credited sid [] = 0" "credited sid (f # fs) = credit sid f + credited sid fs"
  "credited sid (fs @ gs) = credited sid fs + credited sid gs"
  by (simp_all add: credited_def)

fun inData :: "h2frame \<Rightarrow> bytes" where
  "inData (DataF sid d _) = (if sid = 1 then d else [])"
| "inData _ = []"

text \<open>Frames after which the pump goes on.\<close>

fun inert :: "h2frame \<Rightarrow> bool" where
  "inert (DataF sid _ ended) \<longleftrightarrow> sid \<noteq> 1 \<or> \<not> ended"
| "inert (RSTStreamF sid _) \<longleftrightarrow> sid \<noteq> 1"
| "inert GoAwayF \<longleftrightarrow> False"
| "inert _ \<longleftrightarrow> True"

context h2_framer
begin

text \<open>
  Bytes are neither lost nor credited twice: the credits written and those pending together
  grow by what is moved into the pipe.
\<close>

definition moved :: "nat \<Rightarrow> bytes \<Rightarrow> 32 word \<times> 'w rawH2Stream \<Rightarrow> 32 word \<times> 'w rawH2Stream \<Rightarrow> bool" where
  "moved sid d ps ps' \<longleftrightarrow> pipe (snd ps') = pipe (snd ps) @ d \<and> pipeEnd (snd ps') = pipeEnd (snd ps) \<and>
     credited sid (written (fw (parent (snd ps')))) + unat (fst ps') =
     credited sid (written (fw (parent (snd ps)))) + unat (fst ps) + length d"

lemma moved_trans: "moved sid d ps ps' \<Longrightarrow> moved sid e ps' ps'' \<Longrightarrow> moved sid (d @ e) ps ps''"
  by (auto simp: moved_def)

lemma moved_refl: "moved sid [] ps ps"
  by (simp add: moved_def)

lemma flush_credit:
  assumes "\<And>f w. fst (wrf f w) = None" and "\<And>w. fst (fl w) = None" and "sid = 0 \<or> sid = 1"
    and "flushWindowUpdate wrf fl force pend w = (pend', w')"
  shows "credited sid (written w') + unat pend' = credited sid (written w) + unat pend \<and> (force \<longrightarrow> pend' = 0)"
proof (cases "pend = 0 \<or> (\<not> force \<and> pend < rawH2WindowUpdateBatch)")
  case True
  with assms(4) show ?thesis by (auto simp: flushWindowUpdate_def split: if_splits)
next
  case False
  let ?w1 = "snd (wrf (OWindowUpdate 0 pend) w)"
  have w': "pend' = 0" "w' = snd (writeFrame wrf fl (OWindowUpdate 1 pend) ?w1)"
    using False assms(4) by (auto simp: flushWindowUpdate_def split: if_splits)
  have "written ?w1 = written w @ [OWindowUpdate 0 pend]"
    using assms(1) by (intro wrf_ok) (metis prod.collapse)
  moreover have "fst (writeFrame wrf fl (OWindowUpdate 1 pend) ?w1) = None"
    using assms(1,2) by (simp add: writeFrame_def split: prod.split option.split) (metis fst_conv option.distinct(1))
  then have "written w' = written ?w1 @ [OWindowUpdate 1 pend]"
    using writeFrame_ok [of "OWindowUpdate 1 pend" ?w1 w'] w'(2) by (metis prod.collapse)
  ultimately show ?thesis using w'(1) assms(3) by auto
qed

lemma pumpData_moved:
  assumes "\<And>f w. fst (wrf f w) = None" and "\<And>w. fst (fl w) = None" and "sid = 0 \<or> sid = 1"
    and "pipeEnd (snd ps) = None" and "unat (fst ps) + length d < 2 ^ 32"
  shows "moved sid d ps (pumpData wrf fl d ps)"
proof (cases "d = []")
  case True
  then show ?thesis by (simp add: pumpData_def moved_refl)
next
  case False
  obtain pend s where ps: "ps = (pend, s)" by (cases ps)
  obtain pend' w' where f: "flushWindowUpdate wrf fl False (pend + word_of_nat (length d)) (fw (parent s)) = (pend', w')"
    by fastforce
  have "unat (pend + word_of_nat (length d)) = unat pend + length d"
    using assms(5) ps by (simp add: unat_word_ariths unat_of_nat)
  with flush_credit [OF assms(1-3) f] False assms(4) show ?thesis
    by (simp add: pumpData_def ps f moved_def)
qed

lemma creditAll_moved:
  assumes "\<And>f w. fst (wrf f w) = None" and "\<And>w. fst (fl w) = None" and "sid = 0 \<or> sid = 1"
  shows "moved sid [] ps (creditAll wrf fl ps) \<and> fst (creditAll wrf fl ps) = 0"
proof -
  obtain pend s where ps: "ps = (pend, s)" by (cases ps)
  obtain pend' w' where f: "flushWindowUpdate wrf fl True pend (fw (parent s)) = (pend', w')" by fastforce
  from flush_credit [OF assms f] show ?thesis
    by (auto simp: creditAll_def ps f moved_def)
qed

lemma pump_inert:
  assumes "\<And>f w. fst (wrf f w) = None" and "\<And>w. fst (fl w) = None" and "sid = 0 \<or> sid = 1"
  shows "list_all inert fs \<Longrightarrow> pipeEnd (snd ps) = None \<Longrightarrow>
    credited sid (written (fw (parent (snd ps)))) + unat (fst ps) + length (concat (map inData fs)) < 2 ^ 32 \<Longrightarrow>
    \<exists>ps'. pump wrf fl (\<lambda>_. False) (\<lambda>_. None) i re (fs @ gs) ps =
        pump wrf fl (\<lambda>_. False) (\<lambda>_. None) (i + length fs) re gs ps' \<and> moved sid (concat (map inData fs)) ps ps'"
proof (induction fs arbitrary: i ps)
  case Nil
  then show ?case by (intro exI [of _ ps]) (simp add: moved_refl)
next
  case (Cons f fs)
  obtain ps1 where step: "\<And>gs. pump wrf fl (\<lambda>_. False) (\<lambda>_. None) i re (f # gs) ps =
      pump wrf fl (\<lambda>_. False) (\<lambda>_. None) (Suc i) re gs ps1" and m: "moved sid (inData f) ps ps1"
  proof (cases f)
    case (DataF k d e)
    have "moved sid d ps (pumpData wrf fl d ps)" if "k = 1"
      using Cons.prems that DataF by (intro pumpData_moved assms) simp_all
    with DataF Cons.prems that [of "if k = 1 then pumpData wrf fl d ps else ps"] show ?thesis
      by (auto simp: moved_refl pumpTurn_def)
  next
    case (RSTStreamF k c)
    with Cons.prems that [of ps] show ?thesis by (simp add: moved_refl pumpTurn_def)
  qed (use Cons.prems that [of ps] in \<open>simp_all add: moved_refl pumpTurn_def\<close>)
  have "pipeEnd (snd ps1) = None" "credited sid (written (fw (parent (snd ps1)))) + unat (fst ps1) +
      length (concat (map inData fs)) < 2 ^ 32"
    using m Cons.prems by (auto simp: moved_def)
  with Cons.IH [of ps1 "Suc i"] Cons.prems(1) obtain ps' where
    "pump wrf fl (\<lambda>_. False) (\<lambda>_. None) (Suc i) re (fs @ gs) ps1 =
        pump wrf fl (\<lambda>_. False) (\<lambda>_. None) (Suc i + length fs) re gs ps'" "moved sid (concat (map inData fs)) ps1 ps'"
    by auto
  with step m show ?case
    by (intro exI [of _ ps']) (auto intro: moved_trans)
qed

lemma readLoop_moved:
  assumes "\<And>f w. fst (wrf f w) = None" and "\<And>w. fst (fl w) = None" and "sid = 0 \<or> sid = 1"
    and "list_all inert fs" and "fin (parent s) = fs @ DataF 1 d True # gs" and "pipeEnd s = None"
    and "credited sid (written (fw (parent s))) + length (concat (map inData fs) @ d) < 2 ^ 32"
  shows "let s' = readLoop wrf fl (\<lambda>_. False) (\<lambda>_. None) s in
    pipe s' = pipe s @ concat (map inData fs) @ d \<and> pipeEnd s' = Some EOF \<and>
    credited sid (written (fw (parent s'))) = credited sid (written (fw (parent s))) + length (concat (map inData fs) @ d)"
proof -
  obtain ps where p: "pump wrf fl (\<lambda>_. False) (\<lambda>_. None) 0 (ferr (parent s)) (fin (parent s)) (0, s) =
      creditAll wrf fl (pumpData wrf fl d ps)" and m: "moved sid (concat (map inData fs)) (0, s) ps"
    using pump_inert [OF assms(1-3), of fs "(0, s)" 0 "ferr (parent s)" "DataF 1 d True # gs"] assms(4-7) by (auto simp: pumpTurn_def)
  let ?p1 = "pumpData wrf fl d ps" let ?p2 = "creditAll wrf fl ?p1" let ?p3 = "creditAll wrf fl ?p2"
  have m1: "moved sid d ps ?p1"
    using m assms(6,7) by (intro pumpData_moved assms(1-3)) (auto simp: moved_def)
  have m2: "moved sid [] ?p1 ?p2" "moved sid [] ?p2 ?p3" "fst ?p3 = 0"
    using creditAll_moved [OF assms(1-3)] by blast+
  have "moved sid (concat (map inData fs) @ d) (0, s) ?p3"
    using moved_trans [OF moved_trans [OF moved_trans [OF m m1] m2(1)] m2(2)] by simp
  with m2(3) assms(6) show ?thesis
    by (simp add: readLoop_def pumpExit_def p closePipe_def moved_def Let_def)
qed

end

section \<open>Flow control\<close>

text \<open>
  A download against a server that follows RFC 9113: it may have sent at most the initial window of
  65535 bytes plus the credit the client has written, on the connection (stream 0) and on stream 1.
  \<open>sentData\<close> is the number of bytes sent on stream 1 so far, \<open>inFlight\<close> the frames the client has not
  read yet, \<open>running\<close> whether the client's loop runs. The server may send any frames, also ones that
  end the stream; the client takes turns of its loop, leaves it in any of the ways the code has (at a
  frame that ends it, when the context or the connection has ended, when reading fails), which runs the
  deferred calls, and writes data of its own at any time.
\<close>

record 'w flow =
  running :: bool
  client :: "32 word \<times> 'w rawH2Stream"
  sentData :: nat
  inFlight :: "h2frame list"

inductive h2_flow ::
  "'w fwrite \<Rightarrow> 'w fflush \<Rightarrow> ('w \<Rightarrow> outFrame list) \<Rightarrow> 'w flow \<Rightarrow> 'w flow \<Rightarrow> bool"
  for wrf fl written where
  server_sends_data:
    "sentData st + length d \<le> 65535 + credited 0 (written (fw (parent (snd (client st))))) \<Longrightarrow>
     sentData st + length d \<le> 65535 + credited 1 (written (fw (parent (snd (client st))))) \<Longrightarrow>
     h2_flow wrf fl written st (st\<lparr>sentData := sentData st + length d, inFlight := inFlight st @ [DataF 1 d ended]\<rparr>)"
| server_sends_other:
    "(\<And>d ended. f \<noteq> DataF 1 d ended) \<Longrightarrow> h2_flow wrf fl written st (st\<lparr>inFlight := inFlight st @ [f]\<rparr>)"
| client_turn:
    "running st \<Longrightarrow> inFlight st = f # q \<Longrightarrow> pumpTurn wrf fl f (client st) = (True, ps) \<Longrightarrow>
     h2_flow wrf fl written st (st\<lparr>client := ps, inFlight := q\<rparr>)"
| client_ends:
    "running st \<Longrightarrow> inFlight st = f # q \<Longrightarrow> pumpTurn wrf fl f (client st) = (False, ps) \<Longrightarrow>
     h2_flow wrf fl written st (st\<lparr>running := False, client := (0, pumpExit wrf fl ps), inFlight := q\<rparr>)"
| client_stops:
    "running st \<Longrightarrow> h2_flow wrf fl written st (st\<lparr>running := False, client := (0, pumpExit wrf fl (client st))\<rparr>)"
| read_fails:
    "running st \<Longrightarrow> h2_flow wrf fl written st
       (st\<lparr>running := False, client := (0, pumpExit wrf fl (fst (client st), closePipe e (snd (client st))))\<rparr>)"
| client_writes:
    "rawWrite wrf fl (snd (client st)) p = ((n, None), s) \<Longrightarrow>
     h2_flow wrf fl written st (st\<lparr>client := (fst (client st), s)\<rparr>)"

inductive_cases h2_flowE: "h2_flow wrf fl written st st'"

definition noCredit :: "outFrame list \<Rightarrow> bool" where
  "noCredit fs \<longleftrightarrow> (\<forall>sid v. OWindowUpdate sid v \<notin> set fs)"

lemma noCredit_simps [simp]: "noCredit (fs @ map (OData k e) cs) \<longleftrightarrow> noCredit fs"
  by (auto simp: noCredit_def)

lemma credited_none: "noCredit fs \<Longrightarrow> credited sid fs = 0"
proof (induction fs)
  case (Cons f fs)
  then show ?case by (cases f) (auto simp: noCredit_def)
qed simp

definition stalled :: "('w \<Rightarrow> outFrame list) \<Rightarrow> 'w flow \<Rightarrow> bool" where
  "stalled written st \<longleftrightarrow> length (pipe (snd (client st))) \<le> 65535 \<and>
     (running st \<longrightarrow> noCredit (written (fw (parent (snd (client st))))) \<and> pipeEnd (snd (client st)) = None \<and>
       length (pipe (snd (client st))) = unat (fst (client st)) \<and>
       unat (fst (client st)) + length (concat (map inData (inFlight st))) = sentData st \<and> sentData st \<le> 65535)"

lemma pumpData_small:
  assumes "unat (fst ps) + length d \<le> 65535" and "pipeEnd (snd ps) = None"
  shows "fw (parent (snd (pumpData wrf fl d ps))) = fw (parent (snd ps)) \<and>
    pipeEnd (snd (pumpData wrf fl d ps)) = None \<and>
    unat (fst (pumpData wrf fl d ps)) = unat (fst ps) + length d \<and>
    pipe (snd (pumpData wrf fl d ps)) = pipe (snd ps) @ d"
proof -
  obtain pend s where ps: "ps = (pend, s)" by (cases ps)
  have u: "unat (pend + word_of_nat (length d)) = unat pend + length d"
    using assms(1) ps by (simp add: unat_word_ariths unat_of_nat)
  then have "pend + word_of_nat (length d) < rawH2WindowUpdateBatch"
    using assms(1) ps by (simp add: word_less_nat_alt rawH2WindowUpdateBatch_def)
  then have "flushWindowUpdate wrf fl False (pend + word_of_nat (length d)) w = (pend + word_of_nat (length d), w)" for w
    by (auto simp: flushWindowUpdate_def)
  with u assms(2) ps show ?thesis
    by (simp add: pumpData_def Let_def)
qed

lemma pumpExit_pipe: "pipe (pumpExit wrf fl ps) = pipe (snd ps)" "pipe (snd (creditAll wrf fl ps)) = pipe (snd ps)"
  "pipe (closePipe e s) = pipe s"
  by (simp_all add: pumpExit_def creditAll_def closePipe_def Let_def case_prod_unfold split: option.split)


text \<open>A turn on a frame that is within the window.\<close>

lemma pumpTurn_small:
  assumes "pumpTurn wrf fl f ps = (go, ps')" and "unat (fst ps) + length (inData f) \<le> 65535" and "pipeEnd (snd ps) = None"
  shows "pipe (snd ps') = pipe (snd ps) @ inData f \<and>
    (go \<longrightarrow> fw (parent (snd ps')) = fw (parent (snd ps)) \<and> pipeEnd (snd ps') = None \<and>
      unat (fst ps') = unat (fst ps) + length (inData f)) \<or> \<not> go \<and> pipe (snd ps') = pipe (snd ps)"
  using assms pumpData_small [of ps "inData f" wrf fl]
  by (cases f) (auto simp: pumpTurn_def pumpExit_pipe split: if_splits)

lemma rawWrite_keeps:
  "rawWrite wrf fl s p = (r, s') \<Longrightarrow> pipe s' = pipe s \<and> pipeEnd s' = pipeEnd s"
  by (auto simp: rawWrite_def Let_def split: prod.splits option.splits)

context h2_framer
begin

lemma rawWrite_noCredit:
  assumes "rawWrite wrf fl s p = ((n, None), s')" and "noCredit (written (fw (parent s)))"
  shows "noCredit (written (fw (parent s')))"
proof -
  from assms(1) obtain m w w' where l: "rawWriteLoop wrf p 0 (fw (parent s)) = ((m, None), w)" and f: "fl w = (None, w')"
    and s': "s' = s\<lparr>parent := (parent s)\<lparr>fw := w'\<rparr>\<rparr>"
    by (auto simp: rawWrite_def Let_def split: prod.splits option.splits)
  with rawWriteLoop_ok [OF l] fl_ok [OF f] assms(2) show ?thesis by auto
qed

lemma stalled_step:
  assumes "h2_flow wrf fl written st st'" and "stalled written st"
  shows "stalled written st'"
  using assms(1)
proof cases
  case (server_sends_data d ended)
  with assms(2) show ?thesis by (auto simp: stalled_def credited_none)
next
  case (server_sends_other f)
  then have "inData f = []" by (cases f) auto
  with server_sends_other assms(2) show ?thesis by (auto simp: stalled_def)
next
  case (client_turn f q ps)
  have "unat (fst (client st)) + length (inData f) \<le> 65535" "pipeEnd (snd (client st)) = None"
    using client_turn assms(2) by (auto simp: stalled_def)
  from pumpTurn_small [OF client_turn(4) this] client_turn assms(2) show ?thesis
    by (auto simp: stalled_def)
next
  case (client_ends f q ps)
  have l: "unat (fst (client st)) + length (inData f) \<le> 65535" "pipeEnd (snd (client st)) = None"
    "length (pipe (snd (client st))) = unat (fst (client st))"
    using client_ends assms(2) by (auto simp: stalled_def)
  from pumpTurn_small [OF client_ends(4) l(1,2)] client_ends l show ?thesis
    by (auto simp: stalled_def pumpExit_pipe)
next
  case (client_writes p n s)
  with assms(2) rawWrite_noCredit [OF client_writes(2)] rawWrite_keeps [OF client_writes(2)] show ?thesis
    by (auto simp: stalled_def)
qed (use assms(2) in \<open>auto simp: stalled_def pumpExit_pipe\<close>)

end

text \<open>How a raw dial ends.\<close>

lemma raw_dial_cases:
  assumes "dialRFC8441RawH2 wrf fl hpackEnc hpackDec rnd ctxErr dialTCP handshake tlsName tlsProtos u = (r, co)"
  obtains
    (scheme) "Scheme u \<noteq> ''wss''" "r = Inl (Msg (''rfc8441 raw h2 requires wss, got '' @ quote (Scheme u)))" "co = None"
  | (tcp) h e where "dialTCP h = Inl e" "r = Inl e" "co = None"
  | (tls) h c n ps e c1 where "dialTCP h = Inr c" "handshake n ps c = (Inl e, c1)" "r = Inl e" "co = Some (snd (rawClose None c1))"
  | (alpn) h c n ps a c1 where "dialTCP h = Inr c" "handshake n ps c = (Inr a, c1)"
      "r = Inl (Msg (''rfc8441 requires h2 ALPN, negotiated '' @ quote a))" "co = Some (snd (rawClose None c1))"
  | (settings) h c n ps a c1 e c2 where "dialTCP h = Inr c" "handshake n ps c = (Inr a, c1)"
      "rawInit wrf fl ctxErr c1 = (Some e, c2)" "r = Inl e" "co = Some (snd (rawClose None c2))"
  | (connect) h c n ps a c1 c2 e c3 where "dialTCP h = Inr c" "handshake n ps c = (Inr a, c1)"
      "rawInit wrf fl ctxErr c1 = (None, c2)" "openWebSocketStream wrf fl hpackEnc hpackDec rnd ctxErr u c2 = (Inl e, c3)"
      "r = Inl e" "co = Some (snd (rawClose None c3))"
  | (opened) h c n ps a c1 c2 ws c3 where "dialTCP h = Inr c" "handshake n ps c = (Inr a, c1)"
      "rawInit wrf fl ctxErr c1 = (None, c2)" "openWebSocketStream wrf fl hpackEnc hpackDec rnd ctxErr u c2 = (Inr ws, c3)"
      "r = Inr ws" "co = Some c3"
proof (cases "Scheme u = ''wss''")
  case False
  with assms scheme show thesis by (auto simp: dialRFC8441RawH2_def)
next
  case wss: True
  show thesis
  proof (cases "dialTCP (rawHost u)")
    case (Inl e)
    with assms wss tcp show thesis by (auto simp: dialRFC8441RawH2_def)
  next
    case (Inr c)
    obtain q c1 where h: "handshake (rawServerName tlsName (rawHost u)) (rawProtos tlsProtos) c = (q, c1)" by fastforce
    obtain e2 c2 where i: "rawInit wrf fl ctxErr c1 = (e2, c2)" by fastforce
    obtain r3 c3 where o: "openWebSocketStream wrf fl hpackEnc hpackDec rnd ctxErr u c2 = (r3, c3)" by fastforce
    have dial: "(r, co) = (case q of Inl e \<Rightarrow> (Inl e, Some (snd (rawClose None c1)))
       | Inr a \<Rightarrow> if a \<noteq> ''h2'' then (Inl (Msg (''rfc8441 requires h2 ALPN, negotiated '' @ quote a)), Some (snd (rawClose None c1)))
         else case e2 of Some e \<Rightarrow> (Inl e, Some (snd (rawClose None c2)))
           | None \<Rightarrow> (case r3 of Inl e \<Rightarrow> (Inl e, Some (snd (rawClose None c3))) | Inr ws \<Rightarrow> (Inr ws, Some c3)))"
      unfolding assms [symmetric] dialRFC8441RawH2_def
      by (simp add: wss Inr h i o split: option.split sum.split)
    show thesis
    proof (cases q)
      case (Inl e)
      with dial h tls [OF Inr] show thesis by simp
    next
      case a: (Inr a)
      with dial h i o alpn [OF Inr] settings [OF Inr] connect [OF Inr] opened [OF Inr] show thesis
        by (auto split: if_splits option.splits sum.splits)
    qed
  qed
qed

lemma rawInit_keeps: "rawInit wrf fl ctxErr c = (e, c') \<Longrightarrow> h2closed c' = h2closed c \<and> netCloses c' = netCloses c"
  by (auto simp: rawInit_def split: prod.splits option.splits)

lemma open_keeps:
  "openWebSocketStream wrf fl hpackEnc hpackDec rnd ctxErr u c = (r, c') \<Longrightarrow>
   h2closed c' = h2closed c \<and> netCloses c' = netCloses c \<and> (\<forall>ws. r = Inr ws \<longrightarrow> parent ws = c')"
  by (auto simp: openWebSocketStream_def readResponseHeaders_def Let_def
      split: prod.splits option.splits sum.splits if_splits)

section \<open>The error that would allow falling back\<close>

definition foreign :: "err \<Rightarrow> bool" where
  "foreign e \<longleftrightarrow> \<not> errors_Is e errRFC8441NotSupported"

lemma foreign_simps [simp]:
  "foreign (Msg s)" "foreign (WrapPre e s) \<longleftrightarrow> foreign e" "foreign errRFC8441HandshakeFailed"
  by (simp_all add: foreign_def errRFC8441NotSupported_def errRFC8441HandshakeFailed_def)

text \<open>The errors of framer, context and random source are not ours.\<close>

definition foreignIO :: "'w fwrite \<Rightarrow> 'w fflush \<Rightarrow> (bytes \<Rightarrow> err + (string \<times> string) list) \<Rightarrow> (err + bytes) \<Rightarrow> (nat \<Rightarrow> err option) \<Rightarrow> bool" where
  "foreignIO wrf fl hpackDec rnd ctxErr \<longleftrightarrow>
     (\<forall>f w e. fst (wrf f w) = Some e \<longrightarrow> foreign e) \<and> (\<forall>w e. fst (fl w) = Some e \<longrightarrow> foreign e) \<and>
     (\<forall>b e. hpackDec b = Inl e \<longrightarrow> foreign e) \<and> (\<forall>e. rnd = Inl e \<longrightarrow> foreign e) \<and>
     (\<forall>i e. ctxErr i = Some e \<longrightarrow> foreign e)"

lemma dialAttempts_cong:
  assumes "tryH2 (parseTransportHints (urlQuery u)) \<or> tryH3 (parseTransportHints (urlQuery u))"
    and "isWebSocketLikeScheme (Scheme u)"
    and "\<And>h v sch t. isWebSocketLikeScheme sch \<Longrightarrow> dialAfterH3 h2 h1 h True v sch t = dialAfterH3 h2 h1' h True v sch t"
  shows "dialAttempts h3 h2 h1 u s = dialAttempts h3 h2 h1' u s"
  using assms by (cases "tryH3 (parseTransportHints (urlQuery u))") (simp_all add: dialAttempts_def Let_def split: prod.split sum.split)

lemma writeFrame_foreign:
  "foreignIO wrf fl hpackDec rnd ctxErr \<Longrightarrow> writeFrame wrf fl f w = (Some e, w') \<Longrightarrow> foreign e"
  by (auto simp: writeFrame_def foreignIO_def split: prod.splits option.splits) (metis fst_conv)+

lemma settingsLoop_foreign:
  assumes "foreignIO wrf fl hpackDec rnd ctxErr" and "foreign re"
  shows "settingsLoop wrf fl ctxErr i re fs w = (Some e, fs', w') \<Longrightarrow> foreign e"
proof (induction fs arbitrary: i)
  case Nil
  with assms show ?case by (auto simp: foreignIO_def split: option.splits)
next
  case (Cons f fs)
  have c: "ctxErr i = Some e' \<Longrightarrow> foreign e'" for e'
    using assms(1) by (auto simp: foreignIO_def)
  show ?case
    using Cons c writeFrame_foreign [OF assms(1)]
    by (auto simp: Let_def split: option.splits h2frame.splits bool.splits nat.splits prod.splits)
qed

lemma responseLoop_foreign:
  assumes "foreignIO wrf fl hpackDec rnd ctxErr" and "foreign re"
  shows "responseLoop wrf fl hpackDec ctxErr sid i re block fs w = (Inl e, fs', w') \<Longrightarrow> foreign e"
proof (induction fs arbitrary: i block w)
  case Nil
  with assms show ?case by (auto simp: foreignIO_def split: option.splits)
next
  case (Cons f fs)
  have c: "ctxErr i = Some e' \<Longrightarrow> foreign e'" "hpackDec b = Inl e' \<Longrightarrow> foreign e'" for e' b
    using assms(1) by (auto simp: foreignIO_def)
  show ?case
  proof (cases "ctxErr i")
    case (Some e')
    with Cons.prems c(1) show ?thesis by simp
  next
    case None
    with Cons.prems Cons.IH c(2) show ?thesis
      by (cases f) (auto simp: Let_def bindE_def split: if_splits sum.splits)
  qed
qed

lemma rawInit_foreign:
  assumes "foreignIO wrf fl hpackDec rnd ctxErr" and "foreign (ferr c)" and "rawInit wrf fl ctxErr c = (Some e, c')"
  shows "foreign e"
  using assms(3) writeFrame_foreign [OF assms(1)] settingsLoop_foreign [OF assms(1,2)]
  by (auto simp: rawInit_def split: prod.splits option.splits)

lemma openWebSocketStream_foreign:
  assumes "foreignIO wrf fl hpackDec rnd ctxErr" and "foreign (ferr c)"
    and "openWebSocketStream wrf fl hpackEnc hpackDec rnd ctxErr u c = (Inl e, c')"
  shows "foreign e"
proof -
  have r: "rnd = Inl e' \<Longrightarrow> foreign e'" for e'
    using assms(1) by (auto simp: foreignIO_def)
  show ?thesis
    using assms(3) r writeFrame_foreign [OF assms(1)] responseLoop_foreign [OF assms(1,2)]
    by (auto simp: openWebSocketStream_def readResponseHeaders_def Let_def
        split: prod.splits option.splits sum.splits if_splits)
qed

lemma rawInit_ferr: "rawInit wrf fl ctxErr c = (e, c') \<Longrightarrow> ferr c' = ferr c"
  by (auto simp: rawInit_def split: prod.splits option.splits)

lemma raw_dial_foreign:
  assumes "foreignIO wrf fl hpackDec rnd ctxErr" and "\<And>h e. dialTCP h = Inl e \<Longrightarrow> foreign e"
    and "\<And>n ps c e c'. handshake n ps c = (Inl e, c') \<Longrightarrow> foreign e"
    and "\<And>n ps c r c'. handshake n ps c = (r, c') \<Longrightarrow> foreign (ferr c')"
    and "dialRFC8441RawH2 wrf fl hpackEnc hpackDec rnd ctxErr dialTCP handshake tlsName tlsProtos u = (Inl e, c)"
  shows "foreign e"
  using assms(5)
proof (cases rule: raw_dial_cases)
  case (settings h c0 n ps a c1 e' c2)
  with rawInit_foreign [OF assms(1) assms(4) [OF settings(2)] settings(3)] show ?thesis by simp
next
  case (connect h c0 n ps a c1 c2 e' c3)
  then have "foreign (ferr c2)" using assms(4) [OF connect(2)] rawInit_ferr [OF connect(3)] by simp
  with connect openWebSocketStream_foreign [OF assms(1) this connect(4)] show ?thesis by simp
qed (use assms(2,3) in auto)

section \<open>Properties\<close>


definition h2_example :: "h2list rawH2Stream" where
  "h2_example = \<lparr>parent = newRawH2Conn ([], []) [] EOF, pipe = [], pipeEnd = None\<rparr>"


text \<open>
  C15. What the pump does while data flows: reading frames up to the end of stream 1, it puts
  exactly the DATA of stream 1 into the pipe, in order, ignores all other frames, ends the pipe
  with \<^verbatim>\<open>EOF\<close>, and by then has credited every byte, on the connection and on the stream.
\<close>

theorem readLoop_delivers:
  assumes "h2_framer wrf fl written onWire" and "\<And>f w. fst (wrf f w) = None" and "\<And>w. fst (fl w) = None"
    and "list_all inert fs" and "fin (parent s) = fs @ DataF 1 d True # gs" and "pipeEnd s = None"
    and "written (fw (parent s)) = []" and "length (concat (map inData fs) @ d) < 2 ^ 32"
  shows "let s' = readLoop wrf fl (\<lambda>_. False) (\<lambda>_. None) s; data = concat (map inData fs) @ d in
    pipe s' = pipe s @ data \<and> pipeEnd s' = Some EOF \<and>
    credited 0 (written (fw (parent s'))) = length data \<and> credited 1 (written (fw (parent s'))) = length data"
  using h2_framer.readLoop_moved [OF assms(1-3) _ assms(4-6), of 0] h2_framer.readLoop_moved [OF assms(1-3) _ assms(4-6), of 1] assms(7,8)
  by (simp add: Let_def)

theorem readLoop_delivers_witness:
  "let s = h2_example\<lparr>parent := newRawH2Conn ([], []) [OtherF, DataF 1 [1, 2] False, DataF 3 [9] False, DataF 1 [3] True, GoAwayF] EOF\<rparr>
   in pipe (readLoop list_write list_flush (\<lambda>_. False) (\<lambda>_. None) s) = [1, 2, 3]"
proof -
  let ?s = "h2_example\<lparr>parent := newRawH2Conn ([], []) [OtherF, DataF 1 [1, 2] False, DataF 3 [9] False, DataF 1 [3] True, GoAwayF] EOF\<rparr>"
  have f: "fin (parent ?s) = [OtherF, DataF 1 [1, 2] False, DataF 3 [9] False] @ DataF 1 [3] True # [GoAwayF]"
    "pipeEnd ?s = None" "snd (fw (parent ?s)) @ fst (fw (parent ?s)) = []"
    by (simp_all add: newRawH2Conn_def h2_example_def)
  have c: "fst (list_write f w) = None" "fst (list_flush w) = None" for f w
    by (simp_all add: list_write_def list_flush_def)
  have i: "list_all inert [OtherF, DataF 1 [1, 2] False, DataF 3 [9] False]" by simp
  show ?thesis
    using readLoop_delivers [OF h2l.h2_framer_axioms c i f] by (simp add: Let_def h2_example_def)
qed

definition h2_io :: "'w fwrite \<Rightarrow> 'w fflush \<Rightarrow> err option \<Rightarrow> 'w rawH2Stream rwc" where
  "h2_io wrf fl cerr = \<lparr>rwc_write = rawWrite wrf fl, rwc_close = streamClose wrf fl cerr\<rparr>"

text \<open>
  C16. End to end over HTTP/2: when a client writes messages on a connection over any framer that
  keeps its contract, with nothing left in its buffer, and all writes succeed, then behind what was on
  the network before there are only DATA frames of stream 1, each non-empty and of at most 16 KiB, and
  a server that puts their payloads together and decodes the WebSocket frames receives exactly these
  messages, in order, and nothing else. Everything is on the network, nothing waits in a buffer.
\<close>

theorem messages_over_h2:
  assumes "h2_framer wrf fl written onWire"
    and "\<And>n. \<exists>key. rnd n = Inr key \<and> length key = 4"
    and "onWire (fw (parent s)) = pre" and "written (fw (parent s)) = pre"
    and "\<And>m. m \<in> set ms \<Longrightarrow> length (snd m) \<le> wsMaxFrame"
    and "writeMsgs (h2_io wrf fl cerr) rnd (newFramedWSConn r s) ms = (None, c)"
  shows "\<exists>cs. onWire (fw (parent (strm c))) = pre @ map (OData 1 False) cs \<and>
    (\<forall>d \<in> set cs. d \<noteq> [] \<and> length d \<le> 16 * 1024) \<and>
    decodeN (readFrame True) (length ms) (Reader (concat cs) EOF) =
      Inr (map (\<lambda>(t, d). (t AND 0x0F, d, True)) ms, Reader [] EOF)"
proof -
  have io: "rwc_write (h2_io wrf fl cerr) = rawWrite wrf fl" by (simp add: h2_io_def)
  have l: "length (snd m) + 14 \<le> goMaxAlloc" if "m \<in> set ms" for m
    using assms(5) [OF that] by (simp add: wsMaxFrame_def goMaxAlloc_def)
  have g: "h2Sent written onWire pre (strm (newFramedWSConn r s))"
    using assms(3,4) by (auto simp: h2Sent_def newFramedWSConn_def intro: exI [of _ "[]"])
  obtain keys where k: "\<forall>k \<in> set keys. length k = 4" "length keys = length ms" "h2Sent written onWire pre (strm c)"
    "h2Payload (written (fw (parent (strm c)))) = h2Payload pre @
      concat (map wire_enc (map2 (\<lambda>k m. (True, fst m, Some k, snd m)) keys ms))"
    using h2_framer.h2_writeMsgs_sent [OF assms(1) io assms(2) g l assms(6)] assms(4)
    by (auto simp: newFramedWSConn_def)
  then obtain cs where cs: "onWire (fw (parent (strm c))) = pre @ map (OData 1 False) cs"
    "written (fw (parent (strm c))) = pre @ map (OData 1 False) cs"
    "\<forall>c \<in> set cs. c \<noteq> [] \<and> length c \<le> rawH2MaxDataFrameChunk"
    by (auto simp: h2Sent_def)
  have "concat cs = concat (map wire_enc (map2 (\<lambda>k m. (True, fst m, Some k, snd m)) keys ms))"
    using k(4) cs(2) by (simp add: h2Payload_def comp_def)
  with cs decode_wire_messages [OF k(2,1) assms(5), of "[]" EOF] show ?thesis
    by (intro exI [of _ cs]) (simp add: rawH2MaxDataFrameChunk_def)
qed

theorem messages_over_h2_witness:
  "\<exists>c cs. writeMsgs (h2_io list_write list_flush None) (\<lambda>_. Inr [1, 2, 3, 4])
       (newFramedWSConn (Reader [] EOF) h2_example) [(2, [7, 8]), (1, [9])] = (None, c) \<and>
     snd (fw (parent (strm c))) = map (OData 1 False) cs \<and>
     decodeN (readFrame True) (length [(2, [7, 8]), (1 :: ws_type, [9 :: byte])]) (Reader (concat cs) EOF) =
       Inr ([(2, [7, 8], True), (1, [9], True)], Reader [] EOF)"
proof -
  let ?w = "writeMsgs (h2_io list_write list_flush None) (\<lambda>_. Inr [1, 2, 3, 4])
         (newFramedWSConn (Reader [] EOF) h2_example) [(2, [7, 8]), (1, [9])]"
  have w: "?w = (None, snd ?w)"
    by (simp add: h2_io_def newFramedWSConn_def newRawH2Conn_def h2_example_def conn_Write_def writeRaw_def
        buildFrame_def frameHeader_def applyMask_def rawWrite_def writeLoop.simps rawWriteLoop.simps Let_def
        list_write_def list_flush_def rawH2MaxDataFrameChunk_def)
  have k: "\<exists>key. (\<lambda>_. Inr [1, 2, 3, 4]) n = (Inr key :: err + bytes) \<and> length key = 4" for n :: nat
    by simp
  have l: "length (snd m) \<le> wsMaxFrame" if "m \<in> set [(2, [7, 8]), (1 :: ws_type, [9 :: byte])]" for m
    using that by (auto simp: wsMaxFrame_def)
  have e: "snd (fw (parent h2_example)) = []" "snd (fw (parent h2_example)) @ fst (fw (parent h2_example)) = []"
    by (simp_all add: h2_example_def newRawH2Conn_def)
  from messages_over_h2 [OF h2l.h2_framer_axioms k e l w] w show ?thesis
    by auto
qed

text \<open>
  A failed raw HTTP/2 dial leaves no connection behind: whatever fails, the handshake, the
  negotiated protocol, the exchange of SETTINGS, the random key, the CONNECT request or its
  response, a connection that was opened has been closed, exactly once; and a dial that succeeds
  hands over an open one.
\<close>

theorem raw_dial_closes_on_failure:
  assumes "\<And>h c. dialTCP h = Inr c \<Longrightarrow> \<not> h2closed c \<and> netCloses c = 0"
    and "\<And>n ps c r c'. handshake n ps c = (r, c') \<Longrightarrow> h2closed c' = h2closed c \<and> netCloses c' = netCloses c"
  shows "case dialRFC8441RawH2 wrf fl hpackEnc hpackDec rnd ctxErr dialTCP handshake tlsName tlsProtos u of
      (Inl e, Some c) \<Rightarrow> h2closed c \<and> netCloses c = 1
    | (Inl e, None) \<Rightarrow> Scheme u \<noteq> ''wss'' \<or> (\<exists>h. dialTCP h = Inl e)
    | (Inr ws, Some c) \<Rightarrow> parent ws = c \<and> \<not> h2closed c \<and> netCloses c = 0
    | (Inr ws, None) \<Rightarrow> False"
proof -
  obtain r co where d: "dialRFC8441RawH2 wrf fl hpackEnc hpackDec rnd ctxErr dialTCP handshake tlsName tlsProtos u = (r, co)"
    by fastforce
  have fresh: "\<not> h2closed c1 \<and> netCloses c1 = 0" if "dialTCP h = Inr c" "handshake n ps c = (q, c1)" for h c n ps q c1
    using assms(1) [OF that(1)] assms(2) [OF that(2)] by simp
  from d show ?thesis
  proof (cases rule: raw_dial_cases)
    case (tcp h e)
    with d show ?thesis by auto
  next
    case (tls h c n ps e c1)
    with d fresh [OF tls(1,2)] show ?thesis by (simp add: rawClose_def)
  next
    case (alpn h c n ps a c1)
    with d fresh [OF alpn(1,2)] show ?thesis by (simp add: rawClose_def)
  next
    case (settings h c n ps a c1 e c2)
    with d fresh [OF settings(1,2)] rawInit_keeps [OF settings(3)] show ?thesis by (simp add: rawClose_def)
  next
    case (connect h c n ps a c1 c2 e c3)
    with d fresh [OF connect(1,2)] rawInit_keeps [OF connect(3)] open_keeps [OF connect(4)] show ?thesis
      by (simp add: rawClose_def)
  next
    case (opened h c n ps a c1 c2 ws c3)
    with d fresh [OF opened(1,2)] rawInit_keeps [OF opened(3)] open_keeps [OF opened(4)] show ?thesis by simp
  qed (simp add: d)
qed

theorem raw_dial_closes_on_failure_witness:
  "case dialRFC8441RawH2 list_write list_flush (\<lambda>_. []) (\<lambda>_. Inr []) (Inr []) (\<lambda>_. None)
      (\<lambda>_. Inr (newRawH2Conn ([], []) [SettingsF False []] EOF)) (\<lambda>_ _ c. (Inr ''h2'', c)) [] [] url_example of
      (Inl e, Some c) \<Rightarrow> h2closed c \<and> netCloses c = 1
    | _ \<Rightarrow> False"
proof -
  let ?d = "dialRFC8441RawH2 list_write list_flush (\<lambda>_. []) (\<lambda>_. Inr []) (Inr []) (\<lambda>_. None)
      (\<lambda>_. Inr (newRawH2Conn ([], []) [SettingsF False []] EOF)) (\<lambda>_ _ c. (Inr ''h2'', c)) [] [] url_example"
  have "\<exists>e c. ?d = (Inl e, Some c)"
    by (simp add: dialRFC8441RawH2_def url_example_def urlZero_def Let_def rawInit_def newRawH2Conn_def
        writeFrame_def list_write_def list_flush_def lastSetting_def)
  then obtain e c where d: "?d = (Inl e, Some c)" by blast
  define tcp where "tcp = (\<lambda>_ :: string. Inr (newRawH2Conn ([], []) [SettingsF False []] EOF) :: err + h2list rawH2Conn)"
  define tls where "tls = (\<lambda>(_ :: string) (_ :: string list) (c :: h2list rawH2Conn). (Inr ''h2'' :: err + string, c))"
  have p1: "\<not> h2closed c \<and> netCloses c = 0" if "tcp h = Inr c" for h c
    using that by (auto simp: tcp_def newRawH2Conn_def)
  have p2: "h2closed c' = h2closed c \<and> netCloses c' = netCloses c" if "tls n ps c = (r, c')" for n ps c r c'
    using that by (auto simp: tls_def)
  have d': "dialRFC8441RawH2 list_write list_flush (\<lambda>_. []) (\<lambda>_. Inr []) (Inr []) (\<lambda>_. None) tcp tls [] [] url_example =
      (Inl e, Some c)"
    using d by (simp only: tcp_def tls_def)
  from raw_dial_closes_on_failure [where dialTCP = tcp and handshake = tls and wrf = list_write and fl = list_flush
      and hpackEnc = "\<lambda>_. []" and hpackDec = "\<lambda>_. Inr []" and rnd = "Inr []" and ctxErr = "\<lambda>_. None"
      and tlsName = "[]" and tlsProtos = "[]" and u = url_example, OF p1 p2] d'
  have "h2closed c \<and> netCloses c = 1" by simp
  with d show ?thesis by simp
qed

text \<open>
  C17. The fall-back from HTTP/2 to the classic upgrade never happens: the dial over HTTP/1.1 is
  reached after HTTP/2 only with the error \<^verbatim>\<open>errRFC8441NotSupported\<close>, which no path of
  \<^verbatim>\<open>dialRFC8441\<close> produces, not even when the server says that it does not support Extended
  CONNECT. So for a URL that asks for HTTP/2 or HTTP/3 the outcome does not depend on whether the
  classic upgrade would work.
\<close>

theorem no_fallback_to_h1:
  fixes s :: 's
  assumes "foreignIO wrf fl hpackDec rnd ctxErr" and "\<And>h e. dialTCP h = Inl e \<Longrightarrow> foreign e"
    and "\<And>n ps c e c'. handshake n ps c = (Inl e, c') \<Longrightarrow> foreign e"
    and "\<And>n ps c r c'. handshake n ps c = (r, c') \<Longrightarrow> foreign (ferr c')"
    and "\<And>t e. newReq t = Some e \<Longrightarrow> foreign e" and "\<And>r s e s'. doReq r s = (Inl e, s') \<Longrightarrow> foreign e"
    and "tryH2 (parseTransportHints (urlQuery u)) \<or> tryH3 (parseTransportHints (urlQuery u))"
    and "isWebSocketLikeScheme (Scheme u)"
  shows "let raw = (\<lambda>v s. (fst (dialRFC8441RawH2 wrf fl hpackEnc hpackDec rnd ctxErr dialTCP handshake tlsName tlsProtos v), s));
             h2 = (\<lambda>v s. let (r, _, s') = dialRFC8441 newReq hasProtocol doReq raw v s in (r, s'))
         in dialAttempts h3 h2 h1 u s = dialAttempts h3 h2 h1' u s"
proof -
  let ?raw = "\<lambda>v (s :: 's). (fst (dialRFC8441RawH2 wrf fl hpackEnc hpackDec rnd ctxErr dialTCP handshake tlsName tlsProtos v), s)"
  let ?h2 = "\<lambda>v (s :: 's). let (r, _, s') = dialRFC8441 newReq hasProtocol doReq ?raw v s in (r, s')"
  have raw: "\<not> errors_Is e errRFC8441NotSupported" if "?raw v t = (Inl e, t')" for v e t t'
  proof -
    obtain r c where d: "dialRFC8441RawH2 wrf fl hpackEnc hpackDec rnd ctxErr dialTCP handshake tlsName tlsProtos v = (r, c)"
      by fastforce
    with that have "r = Inl e" by simp
    with raw_dial_foreign [where dialTCP = dialTCP and handshake = handshake and hpackEnc = hpackEnc
        and tlsName = tlsName and tlsProtos = tlsProtos and u = v and e = e and c = c, OF assms(1-4)] d
    show ?thesis by (simp add: foreign_def)
  qed
  have h2: "\<not> errors_Is e errRFC8441NotSupported" if "?h2 v t = (Inl e, t')" for v e t t'
  proof -
    obtain r cl t1 where d: "dialRFC8441 newReq hasProtocol doReq ?raw v t = (r, cl, t1)" by (metis prod_cases3)
    with that have r: "r = Inl e" by simp
    show ?thesis
      using dialRFC8441_error [OF d [unfolded r]] assms(5,6) raw unfolding foreign_def by blast
  qed
  have after: "dialAfterH3 ?h2 h1 h True v sch t = dialAfterH3 ?h2 h1' h True v sch t"
    if "isWebSocketLikeScheme sch" for h v sch t
  proof -
    obtain r t' where d: "?h2 v t = (r, t')" by fastforce
    have "\<not> errors_Is e errRFC8441NotSupported" if "r = Inl e" for e
      using h2 [of v t e t'] d that by simp
    with \<open>isWebSocketLikeScheme sch\<close> show ?thesis
      unfolding dialAfterH3_def d by (cases r) (simp_all add: Let_def)
  qed
  show ?thesis
    unfolding Let_def [of ?raw] Let_def [of ?h2] using assms(7,8) after by (intro dialAttempts_cong)
qed

theorem no_fallback_to_h1_witness:
  "let raw = (\<lambda>v s. (fst (dialRFC8441RawH2 list_write list_flush (\<lambda>_. []) (\<lambda>_. Inr []) (Inr []) (\<lambda>_. None)
           (\<lambda>_. Inr (newRawH2Conn ([], []) [SettingsF False []] EOF)) (\<lambda>_ _ c. (Inr ''h2'', newRawH2Conn (fw c) (fin c) EOF)) [] [] v), s));
       h2 = (\<lambda>v s. let (r, _, s') = dialRFC8441 (\<lambda>_. None) False (\<lambda>_ s. (Inl EOF, s)) raw v s in (r, s'))
   in dialAttempts (\<lambda>_ s. (Inl EOF, s)) h2 (\<lambda>_ s. (Inr h2_example, s)) url_example () =
      dialAttempts (\<lambda>_ s. (Inl EOF, s)) h2 (\<lambda>_ s. (Inl EOF, s)) url_example ()"
proof -
  have io: "foreignIO list_write list_flush (\<lambda>_. Inr []) (Inr []) (\<lambda>_. None)"
    by (simp add: foreignIO_def list_write_def list_flush_def)
  have eof: "foreign EOF" by (simp add: foreign_def errRFC8441NotSupported_def)
  have h: "tryH2 (parseTransportHints (urlQuery url_example)) \<or> tryH3 (parseTransportHints (urlQuery url_example))"
    "isWebSocketLikeScheme (Scheme url_example)"
    by code_simp+
  show ?thesis
    by (rule no_fallback_to_h1 [OF io _ _ _ _ _ h]) (auto simp: eof newRawH2Conn_def)
qed

end
