(* ===== verification/Ws_Conn.thy ===== *)
theory Ws_Conn
  imports Framed_Conn Metrics
begin

text \<open>
  What the rest of the program sees of a WebSocket: the interface \<^verbatim>\<open>WSConn\<close>
  (\<^verbatim>\<open>ws_api.go\<close>), its two implementations \<^verbatim>\<open>framedWSConn\<close> and
  \<^verbatim>\<open>coderConn\<close> (\<^verbatim>\<open>ws_coder.go\<close>), and the two views of it as a
  \<^verbatim>\<open>net.Conn\<close> (\<^verbatim>\<open>WSStreamConn\<close> of \<^verbatim>\<open>outline_tcp.go\<close>) and as a
  \<^verbatim>\<open>net.PacketConn\<close> (\<^verbatim>\<open>ws_packet_conn.go\<close>). An implementation is a record of
  its methods over a state of type \<open>'c\<close>. A read takes the answers its context gives to the
  successive checks, a write the answer to its single check. A loop over \<^verbatim>\<open>Read\<close> may run for
  ever on a connection that never fails, so the loops are partial: \<open>None\<close> is not returning.
\<close>

section \<open>Definitions\<close>

record 'c wsconn =
  ws_Read :: "ctx \<Rightarrow> 'c \<Rightarrow> (err + ws_type \<times> bytes) \<times> 'c"
  ws_Write :: "err option \<Rightarrow> 'c \<Rightarrow> ws_type \<Rightarrow> bytes \<Rightarrow> err option \<times> 'c"
  ws_Close :: "'c \<Rightarrow> 16 word \<Rightarrow> bytes \<Rightarrow> err option \<times> 'c"

definition WSStatusNormalClosure :: "16 word" where [simp]: "WSStatusNormalClosure = 1000"

definition framedWS :: "'s rwc \<Rightarrow> keysrc \<Rightarrow> 's framedWSConn wsconn" where
  "framedWS io rnd =
     \<lparr>ws_Read = \<lambda>ctx c. conn_Read io rnd ctx 0 c, ws_Write = conn_Write io rnd, ws_Close = conn_Close io rnd\<rparr>"

text \<open>
  \<^verbatim>\<open>github.com/coder/websocket\<close> is the argument \<open>lib\<close>: its connection reads and writes
  messages of a \<^verbatim>\<open>websocket.MessageType\<close>.
\<close>

datatype MessageType = MessageText | MessageBinary | MessageOther int

record 'l coderLib =
  lib_Read :: "ctx \<Rightarrow> 'l \<Rightarrow> (err + MessageType \<times> bytes) \<times> 'l"
  lib_Write :: "err option \<Rightarrow> 'l \<Rightarrow> MessageType \<Rightarrow> bytes \<Rightarrow> err option \<times> 'l"
  lib_Close :: "'l \<Rightarrow> 16 word \<Rightarrow> bytes \<Rightarrow> err option \<times> 'l"

definition coder_Read :: "'l coderLib \<Rightarrow> ctx \<Rightarrow> 'l \<Rightarrow> (err + ws_type \<times> bytes) \<times> 'l" where
  "coder_Read lib ctx c =
     (case lib_Read lib ctx c of
        (Inl e, c') \<Rightarrow> (Inl e, c')
      | (Inr (mt, data), c') \<Rightarrow>
          (Inr (case mt of MessageText \<Rightarrow> WSMessageText | MessageBinary \<Rightarrow> WSMessageBinary
                | MessageOther _ \<Rightarrow> WSMessageBinary, data), c'))"

definition coder_Write :: "'l coderLib \<Rightarrow> err option \<Rightarrow> 'l \<Rightarrow> ws_type \<Rightarrow> bytes \<Rightarrow> err option \<times> 'l" where
  "coder_Write lib ctxErr c typ data =
     lib_Write lib ctxErr c (if typ = WSMessageText then MessageText else MessageBinary) data"

definition coder_Close :: "'l coderLib \<Rightarrow> 'l \<Rightarrow> 16 word \<Rightarrow> bytes \<Rightarrow> err option \<times> 'l" where
  "coder_Close lib c code reason = lib_Close lib c code reason"

definition coderWS :: "'l coderLib \<Rightarrow> 'l wsconn" where
  "coderWS lib = \<lparr>ws_Read = coder_Read lib, ws_Write = coder_Write lib, ws_Close = coder_Close lib\<rparr>"

subsection \<open>A stream over a WebSocket\<close>

text \<open>
  \<open>scanceled\<close> is whether the connection's own context was cancelled by \<^verbatim>\<open>Close\<close>;
  \<open>scloses\<close> whether \<^verbatim>\<open>closeOnce\<close> has run.
\<close>

record 'c WSStreamConn =
  sc :: 'c
  rb :: bytes
  upstreamName :: string
  protoOf :: string
  scanceled :: bool
  sclosed :: bool

definition NewWSStreamConn :: "'c \<Rightarrow> string \<Rightarrow> string \<Rightarrow> 'c WSStreamConn" where
  "NewWSStreamConn c upstream proto =
     \<lparr>sc = c, rb = [], upstreamName = upstream, protoOf = proto, scanceled = False, sclosed = False\<rparr>"

definition ownCtx :: "'c WSStreamConn \<Rightarrow> ctx \<Rightarrow> ctx" where
  "ownCtx w ctx = (if scanceled w then (\<lambda>k. Some Canceled) else ctx)"

definition observeIO :: "string \<Rightarrow> string \<Rightarrow> string \<Rightarrow> nat \<Rightarrow> telemetry \<Rightarrow> telemetry" where
  "observeIO dir upstream proto n tel =
     observeUpstreamTraffic upstream proto dir (int n) (observeWSFrame dir (int n) tel)"

text \<open>The loop of \<^verbatim>\<open>Read\<close>; the \<open>j\<close>th message is read under the context \<open>ctxs j\<close>.\<close>

partial_function (option) fillLoop ::
  "'c wsconn \<Rightarrow> (nat \<Rightarrow> ctx) \<Rightarrow> nat \<Rightarrow> 'c WSStreamConn \<Rightarrow> telemetry \<Rightarrow>
     (err option \<times> 'c WSStreamConn \<times> telemetry) option" where
  "fillLoop W ctxs j w tel =
     (if rb w \<noteq> [] then Some (None, w, tel)
      else case ws_Read W (ownCtx w (ctxs j)) (sc w) of
        (Inl e, c) \<Rightarrow> Some (Some e, w\<lparr>sc := c\<rparr>, tel)
      | (Inr (typ, data), c) \<Rightarrow>
          if typ \<noteq> WSMessageBinary then fillLoop W ctxs (Suc j) (w\<lparr>sc := c\<rparr>) tel
          else fillLoop W ctxs (Suc j) (w\<lparr>sc := c, rb := data\<rparr>)
                 (observeIO ''in'' (upstreamName w) (protoOf w) (length data) tel))"

definition stream_Read ::
  "'c wsconn \<Rightarrow> (nat \<Rightarrow> ctx) \<Rightarrow> nat \<Rightarrow> 'c WSStreamConn \<times> telemetry \<Rightarrow>
     ((err + bytes) \<times> 'c WSStreamConn \<times> telemetry) option" where
  "stream_Read W ctxs n st =
     (case fillLoop W ctxs 0 (fst st) (snd st) of
        None \<Rightarrow> None
      | Some (Some e, w, tel) \<Rightarrow> Some (Inl e, w, tel)
      | Some (None, w, tel) \<Rightarrow> Some (Inr (take n (rb w)), w\<lparr>rb := drop n (rb w)\<rparr>, tel))"

definition stream_Write ::
  "'c wsconn \<Rightarrow> err option \<Rightarrow> bytes \<Rightarrow> 'c WSStreamConn \<times> telemetry \<Rightarrow> (err + nat) \<times> 'c WSStreamConn \<times> telemetry" where
  "stream_Write W ctxErr p st =
     (let (w, tel) = st
      in case ws_Write W (ownCtx w (\<lambda>k. ctxErr) 0) (sc w) WSMessageBinary p of
           (Some e, c) \<Rightarrow> (Inl e, w\<lparr>sc := c\<rparr>, tel)
         | (None, c) \<Rightarrow>
             (Inr (length p), w\<lparr>sc := c\<rparr>, observeIO ''out'' (upstreamName w) (protoOf w) (length p) tel))"

definition stream_Close :: "'c wsconn \<Rightarrow> 'c WSStreamConn \<Rightarrow> 'c WSStreamConn" where
  "stream_Close W w =
     (if sclosed w then w
      else w\<lparr>sclosed := True, scanceled := True, sc := snd (ws_Close W (sc w) 1000 [])\<rparr>)"

subsection \<open>Datagrams over a WebSocket\<close>

record 'c WSPacketConn =
  pc :: 'c
  pcUpstream :: string
  pcProto :: string

definition NewWSPacketConn :: "'c \<Rightarrow> string \<Rightarrow> string \<Rightarrow> 'c WSPacketConn" where
  "NewWSPacketConn c upstream proto = \<lparr>pc = c, pcUpstream = upstream, pcProto = proto\<rparr>"

partial_function (option) packet_ReadLoop ::
  "'c wsconn \<Rightarrow> (nat \<Rightarrow> ctx) \<Rightarrow> nat \<Rightarrow> nat \<Rightarrow> 'c WSPacketConn \<Rightarrow> telemetry \<Rightarrow>
     ((err + bytes) \<times> 'c WSPacketConn \<times> telemetry) option" where
  "packet_ReadLoop W ctxs j n w tel =
     (case ws_Read W (ctxs j) (pc w) of
        (Inl e, c) \<Rightarrow> Some (Inl e, w\<lparr>pc := c\<rparr>, tel)
      | (Inr (typ, data), c) \<Rightarrow>
          if typ \<noteq> WSMessageBinary then packet_ReadLoop W ctxs (Suc j) n (w\<lparr>pc := c\<rparr>) tel
          else Some (Inr (take n data), w\<lparr>pc := c\<rparr>,
                 observeIO ''in'' (pcUpstream w) (pcProto w) (length (take n data)) tel))"

definition packet_ReadFrom ::
  "'c wsconn \<Rightarrow> (nat \<Rightarrow> ctx) \<Rightarrow> nat \<Rightarrow> 'c WSPacketConn \<times> telemetry \<Rightarrow>
     ((err + bytes) \<times> 'c WSPacketConn \<times> telemetry) option" where
  "packet_ReadFrom W ctxs n st = packet_ReadLoop W ctxs 0 n (fst st) (snd st)"

definition packet_WriteTo ::
  "'c wsconn \<Rightarrow> err option \<Rightarrow> bytes \<Rightarrow> 'c WSPacketConn \<times> telemetry \<Rightarrow> (err + nat) \<times> 'c WSPacketConn \<times> telemetry" where
  "packet_WriteTo W ctxErr p st =
     (let (w, tel) = st
      in case ws_Write W ctxErr (pc w) WSMessageBinary p of
           (Some e, c) \<Rightarrow> (Inl e, w\<lparr>pc := c\<rparr>, tel)
         | (None, c) \<Rightarrow> (Inr (length p), w\<lparr>pc := c\<rparr>, observeIO ''out'' (pcUpstream w) (pcProto w) (length p) tel))"

definition packet_Close :: "'c wsconn \<Rightarrow> 'c WSPacketConn \<Rightarrow> err option \<times> 'c WSPacketConn" where
  "packet_Close W w =
     (case ws_Close W (pc w) WSStatusNormalClosure (bytes_of ''close'') of (e, c) \<Rightarrow> (e, w\<lparr>pc := c\<rparr>))"

subsection \<open>Reading until an error\<close>

text \<open>
  What \<^verbatim>\<open>io.Copy\<close> does with a stream: reads of \<open>n\<close> bytes until one fails, giving the
  error and all bytes read. The \<open>i\<close>th read uses the contexts \<open>ctxs i\<close>.
\<close>

partial_function (option) copyFrom ::
  "'c wsconn \<Rightarrow> (nat \<Rightarrow> nat \<Rightarrow> ctx) \<Rightarrow> nat \<Rightarrow> nat \<Rightarrow> 'c WSStreamConn \<times> telemetry \<Rightarrow> (err \<times> bytes) option" where
  "copyFrom W ctxs i n st =
     (case stream_Read W (ctxs i) n st of
        None \<Rightarrow> None
      | Some (Inl e, st') \<Rightarrow> Some (e, [])
      | Some (Inr x, st') \<Rightarrow>
          Option.bind (copyFrom W ctxs (Suc i) n st') (\<lambda>(e, ys). Some (e, x @ ys)))"

text \<open>
  What a sequence of frames delivers to repeated reads of messages: the messages and the
  outcome that ends them.
\<close>

lemma deliver_shorter: "deliver st fs = (Message t p, ps, rest) \<Longrightarrow> length rest < length fs"
proof (induction fs arbitrary: st ps)
  case Nil
  then show ?case by simp
next
  case (Cons f fs)
  obtain t' p' fin where f: "f = (t', p', fin)" by (metis surj_pair)
  have IH: "length rest < Suc (length fs)" if "deliver st' fs = (Message t p, ps', rest)" for st' ps'
    using Cons.IH [OF that] by simp
  show ?case
    using Cons.prems f IH by (auto split: if_splits option.splits prod.splits)
qed

function msgsOf :: "frame list \<Rightarrow> (ws_type \<times> bytes) list \<times> outcome" where
  "msgsOf fs =
     (case deliver None fs of
        (Message t p, _, rest) \<Rightarrow> (case msgsOf rest of (ms, oc) \<Rightarrow> ((t, p) # ms, oc))
      | (oc, _, _) \<Rightarrow> ([], oc))"
  by pat_completeness auto
termination
  by (relation "measure length") (auto dest: deliver_shorter [OF sym] deliver_shorter)

declare msgsOf.simps [simp del]

definition binaryData :: "(ws_type \<times> bytes) list \<Rightarrow> bytes" where
  "binaryData ms = concat (map snd (filter (\<lambda>m. fst m = WSMessageBinary) ms))"

text \<open>The bytes a stream still has to give, when \<open>inbox\<close> are the messages still to come.\<close>

definition pending :: "('c \<Rightarrow> (ws_type \<times> bytes) list) \<Rightarrow> 'c WSStreamConn \<Rightarrow> bytes" where
  "pending inbox w = rb w @ binaryData (inbox (sc w))"

section \<open>Streams deliver the bytes of the binary messages\<close>

text \<open>
  A connection seen from its user: the messages the coming reads give, and the error after
  them.
\<close>

locale ws_messages =
  fixes W :: "'c wsconn"
    and inbox :: "'c \<Rightarrow> (ws_type \<times> bytes) list"
    and final :: "'c \<Rightarrow> err"
  assumes read_next: "inbox c = m # ms \<Longrightarrow> (\<And>k. ctx k = None) \<Longrightarrow>
      \<exists>c'. ws_Read W ctx c = (Inr m, c') \<and> inbox c' = ms \<and> final c' = final c"
    and read_final: "inbox c = [] \<Longrightarrow> (\<And>k. ctx k = None) \<Longrightarrow> \<exists>c'. ws_Read W ctx c = (Inl (final c), c')"
begin

lemma fill_pending:
  assumes "\<And>j k. ctxs j k = None" and "\<not> scanceled w" and "pending inbox w \<noteq> []"
  shows "\<exists>w' tel'. fillLoop W ctxs j w tel = Some (None, w', tel') \<and> rb w' \<noteq> [] \<and> \<not> scanceled w' \<and>
    pending inbox w' = pending inbox w \<and> final (sc w') = final (sc w)"
  using assms
proof (induction "inbox (sc w)" arbitrary: w j tel)
  case Nil
  then show ?case by (subst fillLoop.simps) (auto simp: pending_def binaryData_def)
next
  case (Cons m ms)
  show ?case
  proof (cases "rb w = []")
    case False
    with Cons.prems show ?thesis by (subst fillLoop.simps) auto
  next
    case True
    obtain t d where m: "m = (t, d)" by (cases m)
    obtain c' where c': "ws_Read W (ctxs j) (sc w) = (Inr (t, d), c')" "inbox c' = ms" "final c' = final (sc w)"
      using read_next [OF Cons.hyps(2) [symmetric], of "ctxs j", OF Cons.prems(1)] m by blast
    define w2 where "w2 = (if t = WSMessageBinary then w\<lparr>sc := c', rb := d\<rparr> else w\<lparr>sc := c'\<rparr>)"
  have sc2: "sc w2 = c'" "scanceled w2 = scanceled w" by (simp_all add: w2_def)
    have p: "pending inbox w2 = pending inbox w"
      using True Cons.hyps(2) [symmetric] m c'(2) by (auto simp: w2_def pending_def binaryData_def)
    have q: "fillLoop W ctxs j w tel = fillLoop W ctxs (Suc j) w2
        (if t = WSMessageBinary then observeIO ''in'' (upstreamName w) (protoOf w) (length d) tel else tel)"
      using True Cons.prems(2) c' by (subst fillLoop.simps) (simp add: ownCtx_def w2_def)
    have "ms = inbox (sc w2)" "\<not> scanceled w2" "pending inbox w2 \<noteq> []"
      using c'(2) Cons.prems(2,3) p sc2 by simp_all
    from Cons.hyps(1) [OF this(1) Cons.prems(1) this(2,3)] show ?thesis
      unfolding q p sc2 c'(3) .
  qed
qed

lemma fill_final:
  assumes "\<And>j k. ctxs j k = None" and "\<not> scanceled w" and "pending inbox w = []"
  shows "\<exists>w' tel'. fillLoop W ctxs j w tel = Some (Some (final (sc w)), w', tel')"
  using assms
proof (induction "inbox (sc w)" arbitrary: w j tel)
  case Nil
  then obtain c' where "ws_Read W (ctxs j) (sc w) = (Inl (final (sc w)), c')"
    using read_final [of "sc w" "ctxs j"] by auto
  with Nil.prems show ?case by (subst fillLoop.simps) (simp add: pending_def ownCtx_def)
next
  case (Cons m ms)
  obtain t d where m: "m = (t, d)" by (cases m)
  obtain c' where c': "ws_Read W (ctxs j) (sc w) = (Inr (t, d), c')" "inbox c' = ms" "final c' = final (sc w)"
    using read_next [OF Cons.hyps(2) [symmetric], of "ctxs j", OF Cons.prems(1)] m by blast
  have e: "rb w = []" and d: "t = WSMessageBinary \<Longrightarrow> d = []" and ms: "binaryData ms = []"
    using Cons.prems(3) Cons.hyps(2) [symmetric] m by (auto simp: pending_def binaryData_def split: if_splits)
  define w2 where "w2 = (if t = WSMessageBinary then w\<lparr>sc := c', rb := d\<rparr> else w\<lparr>sc := c'\<rparr>)"
  have sc2: "sc w2 = c'" "scanceled w2 = scanceled w" by (simp_all add: w2_def)
  have p: "pending inbox w2 = []"
    using d e ms c'(2) by (auto simp: w2_def pending_def)
  have q: "fillLoop W ctxs j w tel = fillLoop W ctxs (Suc j) w2
      (if t = WSMessageBinary then observeIO ''in'' (upstreamName w) (protoOf w) (length d) tel else tel)"
    using e Cons.prems(2) c' by (subst fillLoop.simps) (simp add: ownCtx_def w2_def)
  have "ms = inbox (sc w2)" "\<not> scanceled w2"
    using c'(2) Cons.prems(2) sc2 by simp_all
  from Cons.hyps(1) [OF this(1) Cons.prems(1) this(2) p] show ?case
    unfolding q sc2 c'(3) .
qed

lemma stream_Read_pending:
  assumes "\<And>j k. ctxs j k = None" and "\<not> scanceled w" and "pending inbox w \<noteq> []" and "0 < n"
  obtains x w' tel' where "stream_Read W ctxs n (w, tel) = Some (Inr x, w', tel')" "x \<noteq> []" "length x \<le> n"
    "pending inbox w = x @ pending inbox w'" "\<not> scanceled w'" "final (sc w') = final (sc w)"
proof -
  obtain w' tel' where f: "fillLoop W ctxs 0 w tel = Some (None, w', tel')" "rb w' \<noteq> []" "\<not> scanceled w'"
    "pending inbox w' = pending inbox w" "final (sc w') = final (sc w)"
    using fill_pending [where ctxs = ctxs and j = 0 and tel = tel, OF assms(1-3)] by blast
  show thesis
    by (rule that [of "take n (rb w')" "w'\<lparr>rb := drop n (rb w')\<rparr>" tel'])
      (use f assms(4) in \<open>simp_all add: stream_Read_def pending_def flip: append_assoc\<close>)
qed

lemma copyFrom_all:
  assumes "\<And>i j k. ctxs i j k = None" and "\<not> scanceled w" and "0 < n"
  shows "copyFrom W ctxs i n (w, tel) = Some (final (sc w), pending inbox w)"
  using assms
proof (induction "length (pending inbox w)" arbitrary: w i tel rule: less_induct)
  case less
  show ?case
  proof (cases "pending inbox w = []")
    case True
    with fill_final [of "ctxs i" w 0 tel] less.prems show ?thesis
      by (subst copyFrom.simps) (auto simp: stream_Read_def)
  next
    case False
    from stream_Read_pending [where ctxs = "ctxs i" and tel = tel, OF less.prems(1,2) False less.prems(3)]
    obtain x w' tel' where r: "stream_Read W (ctxs i) n (w, tel) = Some (Inr x, w', tel')" "x \<noteq> []"
      "pending inbox w = x @ pending inbox w'" "\<not> scanceled w'" "final (sc w') = final (sc w)" by metis
    then have "copyFrom W ctxs (Suc i) n (w', tel') = Some (final (sc w'), pending inbox w')"
      by (intro less.hyps less.prems) auto
    with r show ?thesis by (subst copyFrom.simps) simp
  qed
qed

lemma packet_read:
  assumes "\<And>j k. ctxs j k = None"
  shows "\<exists>w' tel'. packet_ReadLoop W ctxs j n w tel =
    Some (case filter (\<lambda>m. fst m = WSMessageBinary) (inbox (pc w)) of [] \<Rightarrow> Inl (final (pc w)) | m # _ \<Rightarrow> Inr (take n (snd m)), w', tel') \<and>
    (filter (\<lambda>m. fst m = WSMessageBinary) (inbox (pc w)) \<noteq> [] \<longrightarrow> final (pc w') = final (pc w) \<and>
      filter (\<lambda>m. fst m = WSMessageBinary) (inbox (pc w')) = tl (filter (\<lambda>m. fst m = WSMessageBinary) (inbox (pc w))))"
  using assms
proof (induction "inbox (pc w)" arbitrary: w j)
  case Nil
  then show ?case
    using read_final [of "pc w" "ctxs j"] by (subst packet_ReadLoop.simps) auto
next
  case (Cons m ms)
  obtain t d where m: "m = (t, d)" by (cases m)
  obtain c' where c': "ws_Read W (ctxs j) (pc w) = (Inr (t, d), c')" "inbox c' = ms" "final c' = final (pc w)"
    using read_next [OF Cons.hyps(2) [symmetric], of "ctxs j", OF Cons.prems] m by blast
  show ?case
  proof (cases "t = WSMessageBinary")
    case True
    with c' m Cons.hyps(2) [symmetric] show ?thesis by (subst packet_ReadLoop.simps) simp
  next
    case False
    from Cons.hyps(1) [of "w\<lparr>pc := c'\<rparr>" "Suc j"] Cons.prems c' m Cons.hyps(2) [symmetric] False show ?thesis
      by (subst packet_ReadLoop.simps) (simp cong: list.case_cong)
  qed
qed

end

section \<open>Framed connections\<close>

lemma fragLoop_shrinks:
  "fragLoop io rnd ctx k c t b = (Inr m, c') \<Longrightarrow>
     length (avail (br c')) < length (avail (br c)) \<and> fst m = t"
proof (induction io rnd ctx k c t b rule: fragLoop.induct)
  case (1 io rnd ctx k c t b)
  show ?case
  proof (cases "ctx k = None \<and> (\<exists>v. readFrame False (br c) = Inr v)")
    case False
    with 1(4) show ?thesis
      by (auto simp: fragLoop.simps [of io rnd ctx k c] split: option.splits sum.splits)
  next
    case True
    then obtain op p fin r where rf: "ctx k = None" "readFrame False (br c) = Inr ((op, p, fin), r)"
      by (metis surj_pair)
    show ?thesis
      using "1.IH" [OF rf(1) rf(2) refl refl refl refl] 1(4) readFrame_shrinks [OF rf(2)]
      by (auto simp: fragLoop.simps [of io rnd ctx k c] rf Let_def split: if_splits)
  qed
qed

lemma conn_Read_shrinks:
  "conn_Read io rnd ctx k c = (Inr m, c') \<Longrightarrow>
     length (avail (br c')) < length (avail (br c)) \<and> (fst m = WSMessageText \<or> fst m = WSMessageBinary)"
proof (induction io rnd ctx k c rule: conn_Read.induct)
  case (1 io rnd ctx k c)
  show ?case
  proof (cases "ctx k = None \<and> (\<exists>v. readFrame False (br c) = Inr v)")
    case False
    with 1(3) show ?thesis
      by (auto simp: conn_Read.simps [of io rnd ctx k c] split: option.splits sum.splits)
  next
    case True
    then obtain op p fin r where rf: "ctx k = None" "readFrame False (br c) = Inr ((op, p, fin), r)"
      by (metis surj_pair)
    show ?thesis
      using "1.IH" [OF rf(1) rf(2) refl refl refl refl] 1(3) readFrame_shrinks [OF rf(2)]
        fragLoop_shrinks [of io rnd ctx "Suc k" "c\<lparr>br := r\<rparr>" op p m c']
      by (auto simp: conn_Read.simps [of io rnd ctx k c] rf readFragmentedMessage_def Let_def
          split: if_splits)
  qed
qed

function readAll :: "'s rwc \<Rightarrow> keysrc \<Rightarrow> 's framedWSConn \<Rightarrow> (ws_type \<times> bytes) list \<times> err" where
  "readAll io rnd c =
     (case conn_Read io rnd (\<lambda>k. None) 0 c of
        (Inl e, _) \<Rightarrow> ([], e)
      | (Inr m, c') \<Rightarrow> (case readAll io rnd c' of (ms, e) \<Rightarrow> (m # ms, e)))"
  by pat_completeness auto
termination
  by (relation "measure (\<lambda>(io, rnd, c). length (avail (br c)))") (auto dest!: conn_Read_shrinks [OF sym])

declare readAll.simps [simp del]

interpretation framedMessages: ws_messages "framedWS io rnd" "\<lambda>c. fst (readAll io rnd c)" "\<lambda>c. snd (readAll io rnd c)"
proof
  fix c :: "'a framedWSConn" and m ms and ctx :: ctx
  assume a: "fst (readAll io rnd c) = m # ms" and "\<And>k. ctx k = None"
  then have "ctx = (\<lambda>k. None)" by auto
  with a show "\<exists>c'. ws_Read (framedWS io rnd) ctx c = (Inr m, c') \<and> fst (readAll io rnd c') = ms \<and>
      snd (readAll io rnd c') = snd (readAll io rnd c)"
    by (subst (asm) readAll.simps, subst (3) readAll.simps)
      (auto simp: framedWS_def split: prod.splits sum.splits)
next
  fix c :: "'a framedWSConn" and ctx :: ctx
  assume a: "fst (readAll io rnd c) = []" and "\<And>k. ctx k = None"
  then have "ctx = (\<lambda>k. None)" by auto
  with a show "\<exists>c'. ws_Read (framedWS io rnd) ctx c = (Inl (snd (readAll io rnd c)), c')"
    by (subst (asm) readAll.simps, subst readAll.simps)
      (auto simp: framedWS_def split: prod.splits sum.splits)
qed

text \<open>What the frames on the wire mean is what is read.\<close>

lemma readAll_msgsOf:
  assumes "\<And>w. w \<in> set ws \<Longrightarrow> wire_valid False w" and "msgsOf (map wire_view ws) = (ms, PeerClosed p)"
    and "br c = Reader (concat (map wire_enc ws) @ zs) e"
  shows "readAll io rnd c = (ms, EOF)"
  using assms
proof (induction "length ws" arbitrary: ws ms c rule: less_induct)
  case less
  obtain oc pings rest where d: "deliver None (map wire_view ws) = (oc, pings, rest)"
    by (metis surj_pair)
  have "oc \<noteq> Starved"
    using less.prems(2) d by (subst (asm) msgsOf.simps) auto
  from readMsg_delivers [where ctx = "\<lambda>k. None" and io = io and rnd = rnd and k = 0, OF less.prems(1) refl d this less.prems(3)]
  obtain n where n: "rest = map wire_view (drop n ws)"
    "delivers oc (conn_Read io rnd (\<lambda>k. None) 0 c) (concat (map wire_enc (drop n ws)) @ zs) e"
    by (auto simp: readMsg_def)
  obtain r c' where r: "conn_Read io rnd (\<lambda>k. None) 0 c = (r, c')" by fastforce
  show ?case
  proof (cases oc)
    case (Message t q)
    obtain ms' oc' where m: "msgsOf rest = (ms', oc')" by fastforce
    have ms: "ms = (t, q) # ms'" "oc' = PeerClosed p"
      using less.prems(2) d m Message by (subst (asm) (1) msgsOf.simps, auto)+
    have "length (drop n ws) < length ws"
      using deliver_shorter [of None "map wire_view ws" t q pings rest] d n(1) Message by simp
    then have "readAll io rnd c' = (ms', EOF)"
      by (rule less.hyps) (use less.prems(1) m ms n r Message in \<open>auto simp: delivers_def dest: in_set_dropD\<close>)
    with n(2) r Message ms show ?thesis
      by (subst readAll.simps) (simp add: delivers_def)
  next
    case (PeerClosed q)
    with n(2) r less.prems(2) d show ?thesis
      by (subst readAll.simps, subst (asm) msgsOf.simps) (simp add: delivers_def split: sum.split)
  qed (use less.prems(2) d in \<open>subst (asm) msgsOf.simps, simp\<close>)+
qed

section \<open>Properties\<close>

definition server_frames :: "wire list" where
  "server_frames =
     [(False, WSMessageBinary, None, [1, 2]), (True, WSMessagePing, None, [7]), (True, WSMessageContinuation, None, [3]),
      (True, WSMessageText, None, [9]), (True, WSMessageBinary, None, [4]), (True, WSMessageClose, None, [])]"

text \<open>
  C24. Copying from a \<^verbatim>\<open>WSStreamConn\<close> over a framed connection, with a buffer of any
  positive size, ends with \<^verbatim>\<open>io.EOF\<close> once the peer's close frame is reached and yields the
  payloads of exactly the binary messages the peer's frames make up, in order: fragments are
  joined, pings, pongs and text messages leave no trace, nothing is lost at buffer boundaries.
\<close>

theorem stream_copies_binary_data:
  assumes "\<And>x. x \<in> set ws \<Longrightarrow> wire_valid False x"
    and "msgsOf (map wire_view ws) = (ms, PeerClosed p)"
    and "\<And>i j k. ctxs i j k = None" and "0 < n"
    and "br c = Reader (concat (map wire_enc ws) @ zs) e"
  shows "copyFrom (framedWS io rnd) ctxs 0 n (NewWSStreamConn c upstream proto, tel) = Some (EOF, binaryData ms)"
  using framedMessages.copyFrom_all [where ctxs = ctxs and w = "NewWSStreamConn c upstream proto" and n = n, OF assms(3)]
    readAll_msgsOf [OF assms(1,2,5)] assms(4)
  by (simp add: NewWSStreamConn_def pending_def)

theorem stream_copies_binary_data_witness:
  "copyFrom (framedWS pipe_io (\<lambda>n. Inr [1, 2, 3, 4])) (\<lambda>i j k. None) 0 2
     (NewWSStreamConn (newFramedWSConn (Reader (concat (map wire_enc server_frames)) EOF) \<lparr>pdata = [], pclosed = False\<rparr>)
        ''u'' ''tcp'', noMetrics) = Some (EOF, [1, 2, 3, 4])"
proof -
  have v: "wire_valid False x" if "x \<in> set server_frames" for x
    using that by (auto simp: server_frames_def wire_valid_def wsMaxFrame_def)
  have m: "msgsOf (map wire_view server_frames) =
      ([(WSMessageBinary, [1, 2, 3]), (WSMessageText, [9]), (WSMessageBinary, [4])], PeerClosed [])"
    by code_simp
  show ?thesis
    by (subst stream_copies_binary_data [OF v m, where zs = "[]" and e = EOF])
      (simp_all add: newFramedWSConn_def binaryData_def)
qed

text \<open>
  A packet connection over a framed one: every read returns, giving the next binary message cut
  to the buffer, with the messages between them skipped, or \<^verbatim>\<open>io.EOF\<close> when none is left before the
  peer's close.
\<close>

theorem packet_reads_binary:
  assumes "\<And>x. x \<in> set ws \<Longrightarrow> wire_valid False x"
    and "msgsOf (map wire_view ws) = (ms, PeerClosed p)" and "\<And>j k. ctxs j k = None"
    and "br c = Reader (concat (map wire_enc ws) @ zs) e"
  shows "\<exists>st'. packet_ReadFrom (framedWS io rnd) ctxs n (NewWSPacketConn c upstream proto, tel) =
    Some (case filter (\<lambda>m. fst m = WSMessageBinary) ms of [] \<Rightarrow> Inl EOF | m # _ \<Rightarrow> Inr (take n (snd m)), st')"
  using framedMessages.packet_read [where io = io and rnd = rnd and ctxs = ctxs and j = 0 and n = n
      and w = "NewWSPacketConn c upstream proto" and tel = tel, OF assms(3)]
    readAll_msgsOf [OF assms(1,2,4)]
  by (auto simp: packet_ReadFrom_def NewWSPacketConn_def cong: list.case_cong)

end
