(* ===== verification/Lb_Select.thy ===== *)
theory Lb_Select
  imports Lb_Types
begin

text \<open>
  Choosing an upstream: \<^verbatim>\<open>pickByEndpoint\<close>, \<^verbatim>\<open>pickBestCandidateByEndpoint\<close>,
  \<^verbatim>\<open>pickTopN\<close> and \<^verbatim>\<open>logSelectionIfChanged\<close> of \<^verbatim>\<open>internal/lb.go\<close>. Scores are
  computed in \<^verbatim>\<open>float64\<close> as in the code. The loops of \<^verbatim>\<open>pickBestCandidateByEndpoint\<close>
  and of one round of \<^verbatim>\<open>pickTopN\<close> have the same body and share \<open>scoreOf\<close> and
  \<open>scanBest\<close>. \<open>now\<close> is the time the choice is made, \<open>nowLog\<close> the later reading of the
  clock for the log line.
\<close>

section \<open>Definitions\<close>

definition repeatedSelectionLogInterval :: duration where
  "repeatedSelectionLogInterval = 30 * second"

definition logSelectionIfChanged :: "gotime \<Rightarrow> string \<Rightarrow> string \<Rightarrow> string \<Rightarrow> LoadBalancer \<Rightarrow> LoadBalancer" where
  "logSelectionIfChanged now proto upstream reason b =
     (let k = upstream @ ''|'' @ reason;
          prev = mget [] (lastSelectionLog b) proto;
          lastAt = mget zeroTime (lastSelectionLogAt b) proto
      in if prev = k \<and> timeSub now lastAt < repeatedSelectionLogInterval then b
         else b\<lparr>lastSelectionLog := AList.update proto k (lastSelectionLog b),
                lastSelectionLogAt := AList.update proto now (lastSelectionLogAt b)\<rparr>)"

text \<open>The score of an upstream for one protocol, \<open>None\<close> when the loop skips it.\<close>

definition score :: "duration \<Rightarrow> gotime \<Rightarrow> hcState \<Rightarrow> f64 \<Rightarrow> f64" where
  "score interval now h w =
     (let base = f_of_int (milliseconds (rttEWMA h));
          base = (if f_le base (Fin 0) then Fin 1000 else base);
          staleness = timeSub now (lastCheckTime h);
          stalePenalty = (if staleness > i64 (2 * interval)
                          then f_mul (f_of_int (milliseconds staleness)) (f_const (1 / 5)) else Fin 0);
          failPenalty = f_mul (f_of_int (failCount h)) (Fin 500);
          errPenalty = (if lastError h \<noteq> None then Fin 500 else Fin 0);
          w = (if f_le w (Fin 0) then Fin 1 else w)
      in f_mul (f_add (f_add (f_add base stalePenalty) failPenalty) errPenalty) (f_div (Fin 1) w))"

definition scoreOf :: "duration \<Rightarrow> gotime \<Rightarrow> bool \<Rightarrow> UpstreamState \<Rightarrow> f64 option" where
  "scoreOf interval now isTCP s =
     (if \<not> healthy (hcOf isTCP s) \<or> now < cooldownOf isTCP s then None
      else Some (score interval now (hcOf isTCP s) (Weight (cfg s))))"

definition maxScore :: f64 where
  "maxScore = f_const (10 ^ 18)"

fun scanBest :: "(nat \<Rightarrow> f64 option) \<Rightarrow> nat list \<Rightarrow> nat option \<Rightarrow> f64 \<Rightarrow> nat option" where
  "scanBest sc [] best bestScore = best"
| "scanBest sc (i # is) best bestScore =
     (case sc i of
        None \<Rightarrow> scanBest sc is best bestScore
      | Some x \<Rightarrow>
          if f_lt x bestScore then scanBest sc is (Some i) x else scanBest sc is best bestScore)"

definition pickBestCandidateByEndpoint :: "LoadBalancer \<Rightarrow> gotime \<Rightarrow> bool \<Rightarrow> err + nat \<times> duration" where
  "pickBestCandidateByEndpoint b now isTCP =
     (case scanBest (\<lambda>i. scoreOf (Interval (hc b)) now isTCP (pool b ! i)) [0..<length (pool b)] None maxScore of
        None \<Rightarrow> Inl (Msg ''no healthy upstreams'')
      | Some i \<Rightarrow> Inr (i, rttEWMA (hcOf isTCP (pool b ! i))))"

definition usableTCP :: "gotime \<Rightarrow> UpstreamState \<Rightarrow> bool" where
  "usableTCP now s \<longleftrightarrow> healthy (tcp s) \<and> tcpCooldownUntil s < now"

definition pickByEndpoint :: "gotime \<Rightarrow> gotime \<Rightarrow> bool \<Rightarrow> world \<Rightarrow> (err + nat) \<times> world" where
  "pickByEndpoint now nowLog isTCP w =
     (let b = wlb w;
          name = (\<lambda>i. Name (cfg (pool b ! i)));
          sticky = (case current b of
              Some cur \<Rightarrow> isTCP \<and> now < stickyUntil b \<and> usableTCP now (pool b ! cur)
            | None \<Rightarrow> False)
      in if sticky
         then (Inr (the (current b)),
               w\<lparr>wtel := observeSelection (name (the (current b))) ''tcp'' (wtel w)\<rparr>)
         else case pickBestCandidateByEndpoint b now isTCP of
           Inl e \<Rightarrow> (Inl e, w)
         | Inr (best, bestRTT) \<Rightarrow>
             if isTCP then
               (let (i, reason) = (case current b of
                      Some cur \<Rightarrow>
                        (let curOK = usableTCP now (pool b ! cur);
                             curRTT = rttEWMA (tcp (pool b ! cur))
                         in if cur \<noteq> best \<and> curOK \<and> curRTT > 0 \<and> bestRTT > 0 \<and>
                               i64 (curRTT - bestRTT) < MinSwitch (sel b)
                            then (cur, ''hysteresis'') else (best, ''best-candidate''))
                    | None \<Rightarrow> (best, ''best-candidate''))
                in (Inr i,
                    \<lparr>wlb = logSelectionIfChanged nowLog ''tcp'' (name i) reason
                       (b\<lparr>current := Some i, stickyUntil := now + StickyTTL (sel b)\<rparr>),
                     wtel = observeSelection (name i) ''tcp'' (wtel w)\<rparr>))
             else
               (Inr best,
                \<lparr>wlb = logSelectionIfChanged nowLog ''udp'' (name best) ''best-candidate'' b,
                 wtel = observeSelection (name best) ''udp'' (wtel w)\<rparr>))"

text \<open>
  \<^verbatim>\<open>pickTopN\<close>: rounds of the same scan over the upstreams not used yet, until \<open>n\<close> are
  found or a round finds none. A round either adds an upstream or ends the loop, so \<open>fuel\<close>
  rounds, one per upstream of the pool and one more, are enough.
\<close>

fun topRounds :: "(nat \<Rightarrow> f64 option) \<Rightarrow> nat list \<Rightarrow> nat \<Rightarrow> int \<Rightarrow> nat list \<Rightarrow> nat list" where
  "topRounds sc is 0 n out = out"
| "topRounds sc is (Suc fuel) n out =
     (if int (length out) < n then
        (case scanBest (\<lambda>i. if i \<in> set out then None else sc i) is None maxScore of
           None \<Rightarrow> out
         | Some best \<Rightarrow> topRounds sc is fuel n (out @ [best]))
      else out)"

definition pickTopN :: "LoadBalancer \<Rightarrow> gotime \<Rightarrow> int \<Rightarrow> nat list" where
  "pickTopN b now n =
     topRounds (\<lambda>i. scoreOf (Interval (hc b)) now True (pool b ! i)) [0..<length (pool b)]
       (Suc (length (pool b))) n []"

section \<open>The scan finds the first minimum\<close>

lemma round64_neq_NaN [simp]: "round64 x \<noteq> NaN"
  by (simp add: round64_def Let_def)

lemma maxScore_eq: "maxScore = Fin (10 ^ 18)"
proof -
  have q: "quantum (10 ^ 18) = 128" by code_simp
  have r: "(10 ^ 18 :: rat) / 128 = of_int 7812500000000000" by simp
  show ?thesis
    unfolding maxScore_def round64_def q r roundEven_of_int by simp
qed

lemma maxScore_neq_NaN [simp]: "maxScore \<noteq> NaN"
  by (simp add: maxScore_def)

lemma f_lt_le_trans: "f_lt a s \<Longrightarrow> \<not> f_lt x s \<Longrightarrow> x \<noteq> NaN \<Longrightarrow> f_lt a x"
  by (cases a; cases s; cases x) auto

lemma f_lt_NaN [simp]: "\<not> f_lt NaN x" "\<not> f_lt x NaN"
  by (cases x; simp)+

text \<open>
  \<open>i\<close> has the smallest score of the candidates, which is below \<open>s\<close>, and every candidate
  before it has a larger one (or none that compares).
\<close>

definition firstMin :: "(nat \<Rightarrow> f64 option) \<Rightarrow> nat list \<Rightarrow> f64 \<Rightarrow> nat \<Rightarrow> bool" where
  "firstMin sc is s i \<longleftrightarrow>
     (\<exists>as bs x. is = as @ i # bs \<and> sc i = Some x \<and> f_lt x s \<and>
       (\<forall>j \<in> set as. \<forall>y. sc j = Some y \<longrightarrow> y = NaN \<or> f_lt x y) \<and>
       (\<forall>j \<in> set bs. \<forall>y. sc j = Some y \<longrightarrow> \<not> f_lt y x))"

lemma scanBest_none:
  "(\<And>i x. i \<in> set is \<Longrightarrow> sc i = Some x \<Longrightarrow> \<not> f_lt x s) \<Longrightarrow> scanBest sc is best s = best"
  by (induction "is") (auto split: option.split)

lemma scanBest_some:
  assumes "i \<in> set is" and "sc i = Some x" and "f_lt x s"
  shows "\<exists>k. scanBest sc is best s = Some k \<and> firstMin sc is s k"
  using assms
proof (induction "is" arbitrary: i x best s)
  case Nil
  then show ?case by simp
next
  case (Cons c cs)
  have skip: ?case
    if eq: "scanBest sc (c # cs) best s = scanBest sc cs best' s'" and lt: "s' = s \<or> f_lt s' s"
      and rest: "\<exists>i \<in> set cs. \<exists>x. sc i = Some x \<and> f_lt x s'"
      and head: "\<And>y x. sc c = Some y \<Longrightarrow> f_lt x s' \<Longrightarrow> y = NaN \<or> f_lt x y"
    for best' s'
  proof -
    from rest obtain j y where "j \<in> set cs" "sc j = Some y" "f_lt y s'" by blast
    from Cons.IH [OF this] obtain k where k: "scanBest sc cs best' s' = Some k" "firstMin sc cs s' k"
      by blast
    from k(2) obtain as bs x where m: "cs = as @ k # bs" "sc k = Some x" "f_lt x s'"
      "\<forall>j \<in> set as. \<forall>y. sc j = Some y \<longrightarrow> y = NaN \<or> f_lt x y"
      "\<forall>j \<in> set bs. \<forall>y. sc j = Some y \<longrightarrow> \<not> f_lt y x"
      by (auto simp: firstMin_def)
    have "c # cs = (c # as) @ k # bs" "f_lt x s"
      "\<forall>j \<in> set (c # as). \<forall>y. sc j = Some y \<longrightarrow> y = NaN \<or> f_lt x y"
      using m lt head f_lt_trans by auto
    with m(2,5) have "firstMin sc (c # cs) s k" unfolding firstMin_def by blast
    with k(1) eq show ?thesis by auto
  qed
  show ?case
  proof (cases "sc c")
    case None
    with Cons.prems show ?thesis by (intro skip [of best s]) auto
  next
    case (Some z)
    show ?thesis
    proof (cases "f_lt z s")
      case False
      with Some Cons.prems show ?thesis
        by (intro skip [of best s]) (auto intro: f_lt_le_trans)
    next
      case lt: True
      then have z: "z \<noteq> NaN" by auto
      show ?thesis
      proof (cases "\<exists>i \<in> set cs. \<exists>x. sc i = Some x \<and> f_lt x z")
        case True
        with Some lt show ?thesis by (intro skip [of "Some c" z]) auto
      next
        case False
        then have "scanBest sc cs (Some c) z = Some c" by (intro scanBest_none) blast
        moreover have "firstMin sc (c # cs) s c"
          unfolding firstMin_def using False Some lt
          by (intro exI [of _ "[]"] exI [of _ cs] exI [of _ z]) auto
        ultimately show ?thesis using Some lt by auto
      qed
    qed
  qed
qed

lemma scanBest_cases:
  obtains (some) i where "scanBest sc is None s = Some i" "firstMin sc is s i"
  | (none) "scanBest sc is None s = None" "\<And>i x. i \<in> set is \<Longrightarrow> sc i = Some x \<Longrightarrow> \<not> f_lt x s"
proof (cases "\<exists>i \<in> set is. \<exists>x. sc i = Some x \<and> f_lt x s")
  case True
  then show thesis using scanBest_some some by blast
next
  case False
  then show thesis using scanBest_none [of "is" sc s None] none by blast
qed

lemma firstMin_least:
  assumes "firstMin sc is s i"
  shows "\<exists>x. i \<in> set is \<and> sc i = Some x \<and> f_lt x s \<and> (\<forall>j \<in> set is. \<forall>y. sc j = Some y \<longrightarrow> \<not> f_lt y x)"
proof -
  from assms obtain as bs x where m: "is = as @ i # bs" "sc i = Some x" "f_lt x s"
    "\<forall>j \<in> set as. \<forall>y. sc j = Some y \<longrightarrow> y = NaN \<or> f_lt x y"
    "\<forall>j \<in> set bs. \<forall>y. sc j = Some y \<longrightarrow> \<not> f_lt y x"
    by (auto simp: firstMin_def)
  have "\<not> f_lt y x" if "j \<in> set is" "sc j = Some y" for j y
  proof (cases "j \<in> set as")
    case True
    with m(4) that have "y = NaN \<or> f_lt x y" by blast
    with f_lt_trans [of x y x] show ?thesis by auto
  next
    case False
    with that m show ?thesis by auto
  qed
  with m(1-3) show ?thesis by auto
qed

text \<open>Which upstreams a choice ranges over, and the best of them.\<close>

definition eligible :: "gotime \<Rightarrow> bool \<Rightarrow> UpstreamState \<Rightarrow> bool" where
  "eligible now isTCP s \<longleftrightarrow> healthy (hcOf isTCP s) \<and> cooldownOf isTCP s \<le> now"

lemma scoreOf_Some:
  "scoreOf iv now t s = Some x \<longleftrightarrow> eligible now t s \<and> x = score iv now (hcOf t s) (Weight (cfg s))"
  by (auto simp: scoreOf_def eligible_def)

lemma pickBest_Inr:
  assumes "pickBestCandidateByEndpoint b now isTCP = Inr (i, rtt)"
  shows "i < length (pool b)" "eligible now isTCP (pool b ! i)" "rtt = rttEWMA (hcOf isTCP (pool b ! i))"
    "\<And>j. j < length (pool b) \<Longrightarrow> eligible now isTCP (pool b ! j) \<Longrightarrow>
       \<not> f_lt (score (Interval (hc b)) now (hcOf isTCP (pool b ! j)) (Weight (cfg (pool b ! j))))
              (score (Interval (hc b)) now (hcOf isTCP (pool b ! i)) (Weight (cfg (pool b ! i))))"
proof -
  let ?sc = "\<lambda>i. scoreOf (Interval (hc b)) now isTCP (pool b ! i)"
  from assms have s: "scanBest ?sc [0..<length (pool b)] None maxScore = Some i"
    and r: "rtt = rttEWMA (hcOf isTCP (pool b ! i))"
    by (auto simp: pickBestCandidateByEndpoint_def split: option.splits)
  from s have "firstMin ?sc [0..<length (pool b)] maxScore i"
    by (cases rule: scanBest_cases [of ?sc "[0..<length (pool b)]" maxScore]) auto
  from firstMin_least [OF this] r show "i < length (pool b)" "eligible now isTCP (pool b ! i)"
    "rtt = rttEWMA (hcOf isTCP (pool b ! i))"
    "\<And>j. j < length (pool b) \<Longrightarrow> eligible now isTCP (pool b ! j) \<Longrightarrow>
       \<not> f_lt (score (Interval (hc b)) now (hcOf isTCP (pool b ! j)) (Weight (cfg (pool b ! j))))
              (score (Interval (hc b)) now (hcOf isTCP (pool b ! i)) (Weight (cfg (pool b ! i))))"
    by (auto simp: scoreOf_Some)
qed

lemma pickBest_Inl:
  "pickBestCandidateByEndpoint b now isTCP = Inl e \<longleftrightarrow> e = Msg ''no healthy upstreams'' \<and>
     (\<forall>i < length (pool b). eligible now isTCP (pool b ! i) \<longrightarrow>
       \<not> f_lt (score (Interval (hc b)) now (hcOf isTCP (pool b ! i)) (Weight (cfg (pool b ! i)))) maxScore)"
proof -
  let ?sc = "\<lambda>i. scoreOf (Interval (hc b)) now isTCP (pool b ! i)"
  show ?thesis
  proof (cases rule: scanBest_cases [of ?sc "[0..<length (pool b)]" maxScore])
    case (some i)
    with firstMin_least [OF some(2)] show ?thesis
      by (auto simp: pickBestCandidateByEndpoint_def scoreOf_Some)
  next
    case none
    then show ?thesis
      by (auto simp: pickBestCandidateByEndpoint_def scoreOf_Some)
  qed
qed

subsection \<open>Exact scores\<close>

text \<open>
  For an upstream of weight 1 whose last check is recent, the score is a whole number of
  milliseconds: the smoothed round trip (1000 when unknown), 500 per failure in a row and 500
  for a pending error. No rounding happens.
\<close>

definition cost :: "hcState \<Rightarrow> int" where
  "cost h = (if milliseconds (rttEWMA h) \<le> 0 then 1000 else milliseconds (rttEWMA h)) +
     500 * failCount h + (if lastError h \<noteq> None then 500 else 0)"

definition plain :: "duration \<Rightarrow> gotime \<Rightarrow> hcState \<Rightarrow> bool" where
  "plain interval now h \<longleftrightarrow> timeSub now (lastCheckTime h) \<le> i64 (2 * interval) \<and>
     0 \<le> rttEWMA h \<and> rttEWMA h < 2 ^ 63 \<and> 0 \<le> failCount h \<and> failCount h < 2 ^ 40"

lemma round64_whole: "0 \<le> n \<Longrightarrow> n < 9007199254740992 \<Longrightarrow> x = of_int n \<Longrightarrow> round64 x = Fin (of_int n)"
  using round64_int [of n] by simp

lemma score_plain:
  assumes "plain interval now h"
  shows "score interval now h (Fin 1) = Fin (of_int (cost h))"
proof -
  let ?m = "milliseconds (rttEWMA h)"
  have m: "0 \<le> ?m" "?m < 2 ^ 44"
    using assms by (auto simp: plain_def milliseconds_def sgn_if)
  have fc: "0 \<le> failCount h" "failCount h < 2 ^ 40"
    using assms by (simp_all add: plain_def)
  have base: "f_of_int ?m = Fin (of_int ?m)"
    using m by (intro f_of_int_small) simp_all
  have fail: "f_mul (f_of_int (failCount h)) (Fin 500) = Fin (of_int (failCount h * 500))"
    using fc f_of_int_small [of "failCount h"] round64_whole [of "failCount h * 500"] by simp
  have one: "round64 1 = Fin 1"
    using round64_int [of 1] by simp
  have st: "(if timeSub now (lastCheckTime h) > i64 (2 * interval) then f else Fin 0) = Fin 0" for f
    using assms by (simp add: plain_def)
  show ?thesis
  proof (cases "?m \<le> 0")
    case True
    with m have "?m = 0" by simp
    with fc show ?thesis
      unfolding score_def Let_def base fail st cost_def
      by (auto simp: one round64_whole [of 1000] round64_whole [of "1000 + failCount h * 500"]
          round64_whole [of "1500 + failCount h * 500"] algebra_simps)
  next
    case False
    with m fc show ?thesis
      unfolding score_def Let_def base fail st cost_def
      by (auto simp: one round64_whole [of ?m] round64_whole [of "?m + failCount h * 500"]
          round64_whole [of "?m + failCount h * 500 + 500"] algebra_simps)
  qed
qed

section \<open>What a pick returns and leaves behind\<close>

definition lb_wf :: "LoadBalancer \<Rightarrow> bool" where
  "lb_wf b \<longleftrightarrow> (case current b of None \<Rightarrow> True | Some c \<Rightarrow> c < length (pool b))"

lemma logSelection_simps [simp]:
  "pool (logSelectionIfChanged t p u r b) = pool b" "current (logSelectionIfChanged t p u r b) = current b"
  "stickyUntil (logSelectionIfChanged t p u r b) = stickyUntil b" "hc (logSelectionIfChanged t p u r b) = hc b"
  "sel (logSelectionIfChanged t p u r b) = sel b" "probe (logSelectionIfChanged t p u r b) = probe b"
  "dialSem (logSelectionIfChanged t p u r b) = dialSem b" "probeSem (logSelectionIfChanged t p u r b) = probeSem b"
  "probeDialSem (logSelectionIfChanged t p u r b) = probeDialSem b"
  by (simp_all add: logSelectionIfChanged_def Let_def)

lemma usable_eligible: "usableTCP now s \<Longrightarrow> eligible now True s"
  by (simp add: usableTCP_def eligible_def hcOf_def cooldownOf_def)

text \<open>The three ways a TCP pick succeeds.\<close>

lemma pickTCP_cases:
  assumes "pickByEndpoint now nowLog True w = (Inr i, w')"
  obtains
    (sticky) "current (wlb w) = Some i" "now < stickyUntil (wlb w)" "usableTCP now (pool (wlb w) ! i)"
      "wlb w' = wlb w"
  | (kept) best where "pickBestCandidateByEndpoint (wlb w) now True = Inr (best, rttEWMA (tcp (pool (wlb w) ! best)))"
      "current (wlb w) = Some i" "i \<noteq> best" "usableTCP now (pool (wlb w) ! i)"
      "current (wlb w') = Some i" "stickyUntil (wlb w') = now + StickyTTL (sel (wlb w))"
      "pool (wlb w') = pool (wlb w)" "hc (wlb w') = hc (wlb w)" "sel (wlb w') = sel (wlb w)"
  | (best) "pickBestCandidateByEndpoint (wlb w) now True = Inr (i, rttEWMA (tcp (pool (wlb w) ! i)))"
      "\<And>cur. current (wlb w) = Some cur \<Longrightarrow> usableTCP now (pool (wlb w) ! cur) \<Longrightarrow> cur \<noteq> i \<Longrightarrow>
         stickyUntil (wlb w) \<le> now \<and> (rttEWMA (tcp (pool (wlb w) ! cur)) \<le> 0 \<or> rttEWMA (tcp (pool (wlb w) ! i)) \<le> 0 \<or>
           MinSwitch (sel (wlb w)) \<le> i64 (rttEWMA (tcp (pool (wlb w) ! cur)) - rttEWMA (tcp (pool (wlb w) ! i))))"
      "current (wlb w') = Some i" "stickyUntil (wlb w') = now + StickyTTL (sel (wlb w))"
      "pool (wlb w') = pool (wlb w)" "hc (wlb w') = hc (wlb w)" "sel (wlb w') = sel (wlb w)"
proof (cases "\<exists>cur. current (wlb w) = Some cur \<and> now < stickyUntil (wlb w) \<and> usableTCP now (pool (wlb w) ! cur)")
  case True
  with assms sticky show thesis
    by (auto simp: pickByEndpoint_def Let_def)
next
  case False
  let ?b = "wlb w"
  from False have ns: "(case current ?b of None \<Rightarrow> False
      | Some cur \<Rightarrow> True \<and> now < stickyUntil ?b \<and> usableTCP now (pool ?b ! cur)) = False"
    by (auto split: option.split)
  obtain bst rtt where p: "pickBestCandidateByEndpoint ?b now True = Inr (bst, rtt)"
    using assms ns by (cases "pickBestCandidateByEndpoint ?b now True") (auto simp: pickByEndpoint_def Let_def)
  have rtt: "rtt = rttEWMA (tcp (pool ?b ! bst))"
    using pickBest_Inr(3) [OF p] by (simp add: hcOf_def)
  note run = assms [unfolded pickByEndpoint_def Let_def ns p]
  show thesis
  proof (cases "current ?b")
    case None
    with run p rtt show thesis by (intro best) auto
  next
    case (Some cur)
    show thesis
    proof (cases "cur \<noteq> bst \<and> usableTCP now (pool ?b ! cur) \<and> rttEWMA (tcp (pool ?b ! cur)) > 0 \<and> rtt > 0 \<and>
        i64 (rttEWMA (tcp (pool ?b ! cur)) - rtt) < MinSwitch (sel ?b)")
      case True
      with run Some p rtt show thesis by (intro kept [of bst]) auto
    next
      case stay: False
      with run Some have i: "i = bst" and w': "wlb w' = logSelectionIfChanged nowLog ''tcp'' (Name (cfg (pool ?b ! bst))) ''best-candidate''
          (?b\<lparr>current := Some bst, stickyUntil := now + StickyTTL (sel ?b)\<rparr>)"
        by (auto split: if_splits)
      show thesis
        by (rule best) (use p rtt Some stay False in \<open>auto simp: i w' not_less\<close>)
    qed
  qed
qed

lemma pickUDP_cases:
  assumes "pickByEndpoint now nowLog False w = (Inr i, w')"
  shows "pickBestCandidateByEndpoint (wlb w) now False = Inr (i, rttEWMA (udp (pool (wlb w) ! i)))"
    and "pool (wlb w') = pool (wlb w)" and "current (wlb w') = current (wlb w)"
    and "stickyUntil (wlb w') = stickyUntil (wlb w)" and "hc (wlb w') = hc (wlb w)" and "sel (wlb w') = sel (wlb w)"
  using assms pickBest_Inr(3) [of "wlb w" now False]
  by (auto simp: pickByEndpoint_def Let_def hcOf_def split: option.splits sum.splits)

lemma pick_eligible:
  assumes "lb_wf (wlb w)" and "pickByEndpoint now nowLog t w = (Inr i, w')"
  shows "i < length (pool (wlb w)) \<and> eligible now t (pool (wlb w) ! i)"
proof (cases t)
  case True
  with assms(2) have "pickByEndpoint now nowLog True w = (Inr i, w')" by simp
  then show ?thesis
  proof (cases rule: pickTCP_cases)
    case sticky
    with assms(1) True show ?thesis by (simp add: lb_wf_def usable_eligible)
  next
    case kept
    with assms(1) True show ?thesis by (simp add: lb_wf_def usable_eligible)
  next
    case best
    with pickBest_Inr(1,2) [OF best(1)] True show ?thesis by simp
  qed
next
  case False
  with pickBest_Inr(1,2) [OF pickUDP_cases(1)] assms(2) show ?thesis by simp
qed

lemma pick_error_unchanged:
  "pickByEndpoint now nowLog t w = (Inl e, w') \<Longrightarrow> w' = w"
  by (auto simp: pickByEndpoint_def Let_def split: option.splits sum.splits if_splits prod.splits)

lemma pick_keeps:
  assumes "pickByEndpoint now nowLog t w = (r, w')"
  shows "pool (wlb w') = pool (wlb w)" "hc (wlb w') = hc (wlb w)" "sel (wlb w') = sel (wlb w)"
    "lb_wf (wlb w) \<Longrightarrow> lb_wf (wlb w')"
proof -
  have "pool (wlb w') = pool (wlb w) \<and> hc (wlb w') = hc (wlb w) \<and> sel (wlb w') = sel (wlb w) \<and>
      (lb_wf (wlb w) \<longrightarrow> lb_wf (wlb w'))"
  proof (cases r)
    case (Inl e)
    with assms pick_error_unchanged show ?thesis by blast
  next
    case (Inr i)
    note pick = assms [unfolded Inr]
    show ?thesis
    proof (cases t)
      case True
      with pick have "pickByEndpoint now nowLog True w = (Inr i, w')" by simp
      then show ?thesis
        by (cases rule: pickTCP_cases) (auto simp: lb_wf_def dest: pickBest_Inr(1))
    next
      case False
      with pick have "pickByEndpoint now nowLog False w = (Inr i, w')" by simp
      from pickUDP_cases [OF this] show ?thesis by (simp add: lb_wf_def split: option.split)
    qed
  qed
  then show "pool (wlb w') = pool (wlb w)" "hc (wlb w') = hc (wlb w)" "sel (wlb w') = sel (wlb w)"
    "lb_wf (wlb w) \<Longrightarrow> lb_wf (wlb w')"
    by simp_all
qed

section \<open>Top candidates\<close>

definition scoreBelow :: "(nat \<Rightarrow> f64 option) \<Rightarrow> nat \<Rightarrow> bool" where
  "scoreBelow sc i \<longleftrightarrow> (case sc i of None \<Rightarrow> False | Some x \<Rightarrow> f_lt x maxScore)"

definition worse :: "(nat \<Rightarrow> f64 option) \<Rightarrow> nat \<Rightarrow> nat \<Rightarrow> bool" where
  "worse sc i j \<longleftrightarrow> (\<forall>x y. sc i = Some x \<longrightarrow> sc j = Some y \<longrightarrow> \<not> f_lt y x)"

definition topInv :: "(nat \<Rightarrow> f64 option) \<Rightarrow> nat list \<Rightarrow> nat list \<Rightarrow> bool" where
  "topInv sc is out \<longleftrightarrow> distinct out \<and> set out \<subseteq> {i \<in> set is. scoreBelow sc i} \<and>
     sorted_wrt (worse sc) out \<and> (\<forall>i \<in> set out. \<forall>j \<in> set is - set out. worse sc i j)"

lemma topInv_add:
  assumes "topInv sc is out"
    and "scanBest (\<lambda>i. if i \<in> set out then None else sc i) is None maxScore = Some best"
  shows "topInv sc is (out @ [best])"
proof -
  let ?sc = "\<lambda>i. if i \<in> set out then None else sc i"
  have "firstMin ?sc is maxScore best"
    using assms(2) by (cases rule: scanBest_cases [of ?sc "is" maxScore]) auto
  from firstMin_least [OF this] obtain x where b: "best \<in> set is" "best \<notin> set out" "sc best = Some x" "f_lt x maxScore"
    and least: "\<And>j y. j \<in> set is \<Longrightarrow> j \<notin> set out \<Longrightarrow> sc j = Some y \<Longrightarrow> \<not> f_lt y x"
    by (auto split: if_splits)
  with assms(1) have "\<forall>i \<in> set out. worse sc i best"
    by (simp add: topInv_def)
  with b least assms(1) show ?thesis
    by (auto simp: topInv_def sorted_wrt_append scoreBelow_def worse_def)
qed

lemma topRounds_ok:
  assumes "topInv sc is out" and "length is < fuel + length out" and "int (length out) \<le> n"
  shows "topInv sc is (topRounds sc is fuel n out) \<and> int (length (topRounds sc is fuel n out)) \<le> n \<and>
    (int (length (topRounds sc is fuel n out)) < n \<longrightarrow>
      {i \<in> set is. scoreBelow sc i} \<subseteq> set (topRounds sc is fuel n out))"
  using assms
proof (induction fuel arbitrary: out)
  case 0
  have "card (set out) \<le> card (set is)"
    using 0(1) by (intro card_mono) (auto simp: topInv_def)
  also have "\<dots> \<le> length is" by (rule card_length)
  finally have "length out \<le> length is"
    using 0(1) by (simp add: topInv_def distinct_card)
  with 0(2) show ?case by simp
next
  case (Suc fuel)
  let ?sc = "\<lambda>i. if i \<in> set out then None else sc i"
  show ?case
  proof (cases "int (length out) < n")
    case False
    with Suc.prems show ?thesis by simp
  next
    case lt: True
    show ?thesis
    proof (cases rule: scanBest_cases [of ?sc "is" maxScore])
      case (some i)
      from Suc.IH [OF topInv_add [OF Suc.prems(1) some(1)]] Suc.prems(2) lt
      show ?thesis by (simp add: some(1))
    next
      case none
      have "i \<in> set out" if "i \<in> set is" "scoreBelow sc i" for i
      proof (rule ccontr)
        assume "i \<notin> set out"
        with that none(2) [of i] show False by (auto simp: scoreBelow_def split: option.splits)
      qed
      with lt none(1) Suc.prems show ?thesis by auto
    qed
  qed
qed

section \<open>Properties\<close>

text \<open>A pool for the witnesses: two healthy upstreams with round trips of 50 and 20 ms.\<close>

definition lb_example :: LoadBalancer where
  "lb_example = (let b = DisableBackgroundProbes 5 (NewLoadBalancer
       [\<lparr>Name = ''a'', Weight = Fin 1, TCPWSS = [], UDPWSS = [], Cipher = [], Secret = []\<rparr>,
        \<lparr>Name = ''b'', Weight = Fin 1, TCPWSS = [], UDPWSS = [], Cipher = [], Secret = []\<rparr>]
       \<lparr>Interval = 30 * second, Timeout = second, FailThreshold = 1, SuccessThreshold = 1, MinInterval = second,
        MaxInterval = 60 * second, Jitter = 0, BackoffFactor = Fin 2, RTTScale = Fin 1\<rparr>
       \<lparr>StickyTTL = 60 * second, Cooldown = 20 * second, MinSwitch = 10 * millisecond, WarmStandbyN = 1,
        WarmStandbyInterval = second, StandbyKeepalive = False, StandbyKeepaliveInterval = second,
        StandbyKeepaliveProbeTimeout = second\<rparr>
       \<lparr>EnableTCP = False, EnableUDP = False, ProbeTimeout = second, TCPTarget = [], UDPTarget = [],
        DNSName = [], DNSType = []\<rparr> 0)
     in updUp 0 (\<lambda>s. s\<lparr>tcp := (tcp s)\<lparr>rttEWMA := 50 * millisecond\<rparr>\<rparr>)
          (updUp 1 (\<lambda>s. s\<lparr>tcp := (tcp s)\<lparr>rttEWMA := 20 * millisecond\<rparr>\<rparr>) b))"

lemma lb_example_cost: "cost (tcp (pool lb_example ! 0)) = 50" "cost (tcp (pool lb_example ! 1)) = 20"
  by code_simp+

lemma lb_example_plain:
  "list_all (\<lambda>s. Weight (cfg s) = Fin 1 \<and> plain (Interval (hc lb_example)) 10 (tcp s) \<and> eligible 10 True s) (pool lb_example)"
  "length (pool lb_example) = 2"
  by code_simp+

lemma lb_example_score:
  "scoreOf (Interval (hc lb_example)) 10 True (pool lb_example ! 0) = Some (Fin 50)"
  "scoreOf (Interval (hc lb_example)) 10 True (pool lb_example ! Suc 0) = Some (Fin 20)"
  using lb_example_plain lb_example_cost
  by (simp_all add: scoreOf_Some list_all_length score_plain hcOf_def)

lemma lb_example_best: "pickBestCandidateByEndpoint lb_example 10 True = Inr (1, 20 * 10 ^ 6)"
proof -
  have "rttEWMA (tcp (pool lb_example ! 1)) = 20 * 10 ^ 6" by code_simp
  then show ?thesis
    by (simp add: pickBestCandidateByEndpoint_def lb_example_plain lb_example_score upt_rec [of 0 2]
        upt_rec [of "Suc 0" 2] maxScore_eq hcOf_def)
qed

text \<open>
  C10. The candidate that is chosen is the best one: \<^verbatim>\<open>pickBestCandidateByEndpoint\<close> returns
  a healthy upstream that is not cooling down, such that no other healthy upstream out of
  cooldown has a lower score, together with its smoothed round-trip time; it fails only when
  no such upstream has a score below \<open>10 ^ 18\<close>.
\<close>

theorem pick_best_optimal:
  "case pickBestCandidateByEndpoint b now isTCP of
     Inr (i, rtt) \<Rightarrow> i < length (pool b) \<and> eligible now isTCP (pool b ! i) \<and>
       rtt = rttEWMA (hcOf isTCP (pool b ! i)) \<and>
       filter (\<lambda>s. eligible now isTCP s \<and>
         f_lt (score (Interval (hc b)) now (hcOf isTCP s) (Weight (cfg s)))
              (score (Interval (hc b)) now (hcOf isTCP (pool b ! i)) (Weight (cfg (pool b ! i))))) (pool b) = []
   | Inl e \<Rightarrow> e = Msg ''no healthy upstreams'' \<and>
       filter (\<lambda>s. eligible now isTCP s \<and>
         f_lt (score (Interval (hc b)) now (hcOf isTCP s) (Weight (cfg s))) maxScore) (pool b) = []"
proof (cases "pickBestCandidateByEndpoint b now isTCP")
  case (Inl e)
  then show ?thesis
    using pickBest_Inl [of b now isTCP e] by (auto simp: filter_empty_conv in_set_conv_nth)
next
  case (Inr p)
  obtain i rtt where p: "p = (i, rtt)" by (cases p)
  with Inr have "pickBestCandidateByEndpoint b now isTCP = Inr (i, rtt)" by simp
  from pickBest_Inr [OF this] this show ?thesis
    by (auto simp: filter_empty_conv in_set_conv_nth)
qed

text \<open>
  C11. What the score means: when all candidates have weight 1, recent checks and fewer than
  \<open>2 ^ 40\<close> failures, floating-point rounding plays no role and the upstream that is chosen
  minimises the whole number of milliseconds of its smoothed round trip (1000 when unknown) plus
  500 for each consecutive failure and 500 for a pending error.
\<close>

theorem pick_plain_cheapest:
  assumes "pickBestCandidateByEndpoint b now isTCP = Inr (i, rtt)"
    and "\<And>s. s \<in> set (pool b) \<Longrightarrow> eligible now isTCP s \<Longrightarrow> Weight (cfg s) = Fin 1 \<and> plain (Interval (hc b)) now (hcOf isTCP s)"
    and "j < length (pool b)" and "eligible now isTCP (pool b ! j)"
  shows "cost (hcOf isTCP (pool b ! i)) \<le> cost (hcOf isTCP (pool b ! j))"
proof -
  note i = pickBest_Inr [OF assms(1)]
  have "score (Interval (hc b)) now (hcOf isTCP (pool b ! k)) (Weight (cfg (pool b ! k))) =
      Fin (of_int (cost (hcOf isTCP (pool b ! k))))"
    if "k < length (pool b)" "eligible now isTCP (pool b ! k)" for k
    using assms(2) [OF nth_mem [OF that(1)] that(2)] by (simp add: score_plain)
  with i(4) [OF assms(3,4)] i(1,2) assms(3,4) show ?thesis
    by simp
qed

theorem pick_plain_cheapest_witness:
  "pickBestCandidateByEndpoint lb_example 10 True = Inr (1, 20 * 10 ^ 6) \<and>
   cost (hcOf True (pool lb_example ! 1)) \<le> cost (hcOf True (pool lb_example ! 0))"
proof -
  have "Weight (cfg s) = Fin 1 \<and> plain (Interval (hc lb_example)) 10 (hcOf True s)" if "s \<in> set (pool lb_example)" for s
    using that lb_example_plain(1) by (simp add: list_all_iff hcOf_def)
  moreover have "0 < length (pool lb_example)" "eligible 10 True (pool lb_example ! 0)"
    using lb_example_plain by (simp_all add: list_all_length)
  ultimately show ?thesis
    using pick_plain_cheapest [OF lb_example_best, of 0] lb_example_best by blast
qed

text \<open>
  C12. Choosing for TCP is safe and damped: whatever the state, a successful pick returns a
  healthy upstream that is not cooling down and makes it the current one; and when it moves away
  from a current upstream that is itself usable, then the sticky period is over and the switch
  pays: one of the two round-trip times is unknown, or the new one is better by at least the
  configured margin.
\<close>

theorem pick_tcp_safe_and_damped:
  assumes "lb_wf (wlb w)" and "pickByEndpoint now nowLog True w = (Inr i, w')"
  shows "i < length (pool (wlb w)) \<and> eligible now True (pool (wlb w) ! i) \<and> current (wlb w') = Some i \<and>
    (\<forall>cur. current (wlb w) = Some cur \<and> cur \<noteq> i \<and> usableTCP now (pool (wlb w) ! cur) \<longrightarrow>
      stickyUntil (wlb w) \<le> now \<and>
      (rttEWMA (tcp (pool (wlb w) ! cur)) \<le> 0 \<or> rttEWMA (tcp (pool (wlb w) ! i)) \<le> 0 \<or>
       MinSwitch (sel (wlb w)) \<le> i64 (rttEWMA (tcp (pool (wlb w) ! cur)) - rttEWMA (tcp (pool (wlb w) ! i)))))"
proof -
  from assms(2) have "current (wlb w') = Some i \<and>
    (\<forall>cur. current (wlb w) = Some cur \<and> cur \<noteq> i \<and> usableTCP now (pool (wlb w) ! cur) \<longrightarrow>
      stickyUntil (wlb w) \<le> now \<and>
      (rttEWMA (tcp (pool (wlb w) ! cur)) \<le> 0 \<or> rttEWMA (tcp (pool (wlb w) ! i)) \<le> 0 \<or>
       MinSwitch (sel (wlb w)) \<le> i64 (rttEWMA (tcp (pool (wlb w) ! cur)) - rttEWMA (tcp (pool (wlb w) ! i)))))"
    by (cases rule: pickTCP_cases) auto
  with pick_eligible [OF assms] show ?thesis by blast
qed

theorem pick_tcp_safe_and_damped_witness:
  "let w = \<lparr>wlb = lb_example\<lparr>current := Some 0\<rparr>, wtel = noMetrics\<rparr>;
       (r, w') = pickByEndpoint 10 11 True w
   in r = Inr 1 \<and> usableTCP 10 (pool (wlb w) ! 0) \<and> stickyUntil (wlb w) \<le> 10 \<and> current (wlb w') = Some 1"
proof -
  let ?w = "\<lparr>wlb = lb_example\<lparr>current := Some 0\<rparr>, wtel = noMetrics\<rparr>"
  have c: "usableTCP 10 (pool lb_example ! 0)" "stickyUntil lb_example = 0" "MinSwitch (sel lb_example) = 10 ^ 7"
    "rttEWMA (tcp (pool lb_example ! 0)) = 50 * 10 ^ 6" "i64 (30000000) = 30000000"
    by code_simp+
  have best: "pickBestCandidateByEndpoint (lb_example\<lparr>current := Some 0\<rparr>) 10 True = Inr (1, 20 * 10 ^ 6)"
    using lb_example_best by (simp add: pickBestCandidateByEndpoint_def split: option.splits)
  have wf: "lb_wf (wlb ?w)" by (simp add: lb_wf_def lb_example_plain)
  obtain w' where run: "pickByEndpoint 10 11 True ?w = (Inr 1, w')"
    by (simp add: pickByEndpoint_def Let_def best c)
  from pick_tcp_safe_and_damped [OF wf run] c show ?thesis
    by (simp add: Let_def run)
qed

text \<open>
  The standby candidates: \<^verbatim>\<open>pickTopN\<close> returns at most \<open>n\<close> different upstreams, all
  usable for TCP, ordered by score, none of the upstreams left out has a lower score than one
  that was taken, and upstreams with a score below \<open>10 ^ 18\<close> are left out only when there are
  \<open>n\<close> already.
\<close>

theorem pickTopN_best:
  assumes "0 \<le> n"
  shows "let sc = (\<lambda>i. scoreOf (Interval (hc b)) now True (pool b ! i)); out = pickTopN b now n in
    distinct out \<and> int (length out) \<le> n \<and> (\<forall>i \<in> set out. i < length (pool b) \<and> eligible now True (pool b ! i)) \<and>
    sorted_wrt (worse sc) out \<and> (\<forall>i \<in> set out. \<forall>j \<in> {..<length (pool b)} - set out. worse sc i j) \<and>
    (int (length out) < n \<longrightarrow> {i. i < length (pool b) \<and> scoreBelow sc i} \<subseteq> set out)"
proof -
  let ?sc = "\<lambda>i. scoreOf (Interval (hc b)) now True (pool b ! i)"
  have "topInv ?sc [0..<length (pool b)] []" by (simp add: topInv_def)
  from topRounds_ok [OF this, of "Suc (length (pool b))" n] assms
  have t: "topInv ?sc [0..<length (pool b)] (pickTopN b now n)" "int (length (pickTopN b now n)) \<le> n"
    "int (length (pickTopN b now n)) < n \<longrightarrow> {i \<in> set [0..<length (pool b)]. scoreBelow ?sc i} \<subseteq> set (pickTopN b now n)"
    by (auto simp: pickTopN_def)
  then have "eligible now True (pool b ! i)" if "i \<in> set (pickTopN b now n)" for i
    using that by (auto simp: topInv_def scoreBelow_def scoreOf_Some split: option.splits)
  with t show ?thesis
    by (auto simp: topInv_def Let_def)
qed

theorem pickTopN_best_witness:
  "pickTopN lb_example 10 1 = [1] \<and>
   worse (\<lambda>i. scoreOf (Interval (hc lb_example)) 10 True (pool lb_example ! i)) 1 0"
proof -
  have t: "pickTopN lb_example 10 1 = [1]"
    by (simp add: pickTopN_def lb_example_plain lb_example_score upt_rec [of 0 2] upt_rec [of "Suc 0" 2]
        maxScore_eq numeral_2_eq_2)
  with pickTopN_best [of 1 lb_example 10] lb_example_plain show ?thesis
    by (simp add: Let_def)
qed

end
