(* ===== verification/Lb_Health.thy ===== *)
theory Lb_Health
  imports Lb_Select Transport "HOL-Library.Multiset"
begin

text \<open>
  Health checking in \<^verbatim>\<open>internal/lb.go\<close>: reporting failures, applying the result of a
  check with its thresholds, round-trip average and adaptive intervals, the counting semaphores,
  and the concurrent life of the checks. A check runs in a goroutine of its own
  (\<^verbatim>\<open>checkOneTCP\<close>, \<^verbatim>\<open>checkOneUDP\<close>); \<open>checkStep\<close> is what it does from one blocking
  point or lock to the next, and \<open>hc_step\<close> interleaves any number of checks with the
  scheduler, with failure reports and with choices of an upstream. The results of the probes,
  the readings of the clock and the random numbers are inputs of the steps.
\<close>

section \<open>Definitions\<close>

subsection \<open>Texts of durations\<close>

text \<open>\<^verbatim>\<open>Duration.String\<close>: a fraction without trailing zeros, units from ns to h.\<close>

definition fracText :: "nat \<Rightarrow> nat \<Rightarrow> string" where
  "fracText prec v =
     (let f = itoa (v mod 10 ^ prec);
          digits = rev (dropWhile (\<lambda>c. c = CHR ''0'') (rev (replicate (prec - length f) (CHR ''0'') @ f)))
      in itoa (v div 10 ^ prec) @ (if digits = [] then [] else CHR ''.'' # digits))"

definition durationString :: "duration \<Rightarrow> string" where
  "durationString d =
     (let u = nat \<bar>d\<bar>;
          body = (if u = 0 then ''0s''
            else if u < 10 ^ 3 then itoa u @ ''ns''
            else if u < 10 ^ 6 then fracText 3 u @ [CHR 0xC2, CHR 0xB5] @ ''s''
            else if u < 10 ^ 9 then fracText 6 u @ ''ms''
            else let s = u div 10 ^ 9; m = s div 60; hrs = m div 60;
                     secs = fracText 9 (u mod (60 * 10 ^ 9)) @ ''s''
                 in (if hrs > 0 then itoa hrs @ ''h'' else []) @ (if m > 0 then itoa (m mod 60) @ ''m'' else []) @ secs)
      in (if d < 0 then ''-'' else []) @ body)"

subsection \<open>Intervals and results\<close>

definition clampInterval :: "HealthcheckConfig \<Rightarrow> duration \<Rightarrow> duration" where
  "clampInterval c next =
     (let next = (if next < MinInterval c then MinInterval c else next)
      in if next > MaxInterval c then MaxInterval c else next)"

definition nextIntervalOnFailure :: "HealthcheckConfig \<Rightarrow> hcState \<Rightarrow> duration" where
  "nextIntervalOnFailure c h =
     (let base = MinInterval c;
          base = (if hcEvery h > 0 then hcEvery h else base);
          base = (if healthy h then MinInterval c else base)
      in clampInterval c (f_to_i64 (f_mul (f_of_int base) (BackoffFactor c))))"

definition nextIntervalOnSuccess :: "HealthcheckConfig \<Rightarrow> hcState \<Rightarrow> duration" where
  "nextIntervalOnSuccess c h =
     (let base = (if hcEvery h = 0 then Interval c else hcEvery h);
          base = (if successCount h < 3 then minDur base (Interval c) else base);
          add = f_to_i64 (f_mul (f_of_int (rttEWMA h)) (RTTScale c))
      in clampInterval c (i64 (f_to_i64 (f_mul (f_of_int base) (f_const (6 / 5))) + add)))"

text \<open>\<open>now\<close> and \<open>now'\<close> are the two readings of the clock.\<close>

definition applyHCResult ::
  "HealthcheckConfig \<Rightarrow> (int \<Rightarrow> int) \<Rightarrow> gotime \<Rightarrow> gotime \<Rightarrow> err option \<Rightarrow> duration \<Rightarrow> string \<Rightarrow> string \<Rightarrow>
     hcState \<times> telemetry \<Rightarrow> hcState \<times> telemetry" where
  "applyHCResult c rnd now now' err rtt name proto ht =
     (let (h, tel) = ht;
          h = h\<lparr>lastCheckTime := now\<rparr>
      in case err of
           Some e \<Rightarrow>
             let h = h\<lparr>lastError := Some e, successCount := 0, failCount := failCount h + 1\<rparr>;
                 (h, tel) = (if failCount h \<ge> FailThreshold c
                             then (h\<lparr>healthy := False\<rparr>, setHealthy name proto False tel) else (h, tel));
                 h = h\<lparr>hcEvery := nextIntervalOnFailure c h\<rparr>
             in (h\<lparr>nextHC := now' + applyJitter rnd (hcEvery h) (Jitter c)\<rparr>, tel)
         | None \<Rightarrow>
             let h = h\<lparr>lastError := None, failCount := 0, successCount := successCount h + 1, lastRTT := rtt,
                       rttEWMA := (if rttEWMA h = 0 then rtt
                         else f_to_i64 (f_add (f_mul (f_of_int (rttEWMA h)) (f_const (4 / 5)))
                                              (f_mul (f_of_int rtt) (f_const (1 / 5)))))\<rparr>;
                 (h, tel) = (if successCount h \<ge> SuccessThreshold c
                             then (h\<lparr>healthy := True\<rparr>, setHealthy name proto True tel) else (h, tel));
                 h = h\<lparr>hcEvery := nextIntervalOnSuccess c h\<rparr>
             in (h\<lparr>nextHC := now' + applyJitter rnd (hcEvery h) (Jitter c)\<rparr>, tel))"

text \<open>
  \<^verbatim>\<open>ReportTCPFailure\<close> and \<^verbatim>\<open>ReportUDPFailure\<close>; only the former touches the sticky
  choice. \<open>None\<close> is the nil upstream.
\<close>

definition reportUpstream :: "LoadBalancer \<Rightarrow> bool \<Rightarrow> err option \<Rightarrow> gotime \<Rightarrow> (int \<Rightarrow> int) \<Rightarrow> UpstreamState \<Rightarrow> UpstreamState" where
  "reportUpstream b isTCP err now rnd s =
     (let h = hcOf isTCP s
      in setCooldown isTCP (now + Cooldown (sel b))
           (setHc isTCP (h\<lparr>lastError := err, failCount := failCount h + 1, successCount := 0, healthy := False,
              hcEvery := MinInterval (hc b), nextHC := now + applyJitter rnd (MinInterval (hc b)) (Jitter (hc b))\<rparr>) s))"

definition ReportFailure :: "bool \<Rightarrow> nat option \<Rightarrow> err option \<Rightarrow> gotime \<Rightarrow> (int \<Rightarrow> int) \<Rightarrow> world \<Rightarrow> world" where
  "ReportFailure isTCP s err now rnd w =
     (case s of
        None \<Rightarrow> w
      | Some i \<Rightarrow>
          let b = updUp i (reportUpstream (wlb w) isTCP err now rnd) (wlb w);
              tel = observeFailure (Name (cfg (pool b ! i))) (protoName isTCP) err (wtel w);
              b = (if isTCP \<and> current b = Some i then b\<lparr>stickyUntil := zeroTime\<rparr> else b)
          in \<lparr>wlb = b, wtel = tel\<rparr>)"

subsection \<open>Semaphores\<close>

text \<open>
  Sending to a buffered channel or giving up when the context is done: \<open>pick\<close> decides when
  both are possible, \<open>None\<close> is waiting. Releasing takes one token, if there is one.
\<close>

definition acquireSlot :: "nat \<Rightarrow> err option \<Rightarrow> bool \<Rightarrow> nat \<Rightarrow> (err + nat) option" where
  "acquireSlot cap ctxDone pick n =
     (if n < cap \<and> (ctxDone = None \<or> pick) then Some (Inr (Suc n))
      else case ctxDone of Some e \<Rightarrow> Some (Inl e) | None \<Rightarrow> None)"

definition acquireProbeSlot :: "err option \<Rightarrow> bool \<Rightarrow> LoadBalancer \<Rightarrow> (err + LoadBalancer) option" where
  "acquireProbeSlot ctxDone pick b =
     map_option (map_sum id (\<lambda>n. b\<lparr>probeSem := n\<rparr>)) (acquireSlot probeParallelLimit ctxDone pick (probeSem b))"

definition releaseProbeSlot :: "LoadBalancer \<Rightarrow> LoadBalancer" where
  "releaseProbeSlot b = b\<lparr>probeSem := probeSem b - 1\<rparr>"

definition acquireProbeDialSlot :: "err option \<Rightarrow> bool \<Rightarrow> LoadBalancer \<Rightarrow> (err + LoadBalancer) option" where
  "acquireProbeDialSlot ctxDone pick b =
     map_option (map_sum id (\<lambda>n. b\<lparr>probeDialSem := n\<rparr>)) (acquireSlot probeDialParallelLimit ctxDone pick (probeDialSem b))"

definition releaseProbeDialSlot :: "LoadBalancer \<Rightarrow> LoadBalancer" where
  "releaseProbeDialSlot b = b\<lparr>probeDialSem := probeDialSem b - 1\<rparr>"

definition acquireDialSlot :: "err option \<Rightarrow> bool \<Rightarrow> LoadBalancer \<Rightarrow> (err + LoadBalancer) option" where
  "acquireDialSlot ctxDone pick b =
     map_option (map_sum id (\<lambda>n. b\<lparr>dialSem := n\<rparr>)) (acquireSlot dialParallelLimit ctxDone pick (dialSem b))"

definition releaseDialSlot :: "LoadBalancer \<Rightarrow> LoadBalancer" where
  "releaseDialSlot b = b\<lparr>dialSem := dialSem b - 1\<rparr>"

text \<open>
  \<^verbatim>\<open>DialWSStreamLimited\<close> and \<^verbatim>\<open>runProbeDialLimited\<close>: the call runs between acquiring
  and the deferred release.
\<close>

definition DialWSStreamLimited ::
  "(string \<Rightarrow> LoadBalancer \<Rightarrow> (err + 'c) \<times> LoadBalancer) \<Rightarrow> err option \<Rightarrow> bool \<Rightarrow> string \<Rightarrow> LoadBalancer \<Rightarrow>
     ((err + 'c) \<times> LoadBalancer) option" where
  "DialWSStreamLimited dial ctxDone pick url b =
     (case acquireDialSlot ctxDone pick b of
        None \<Rightarrow> None
      | Some (Inl e) \<Rightarrow> Some (Inl e, b)
      | Some (Inr b') \<Rightarrow> let (r, b'') = dial url b' in Some (r, releaseDialSlot b''))"

definition runProbeDialLimited ::
  "(LoadBalancer \<Rightarrow> (duration \<times> err option) \<times> LoadBalancer) \<Rightarrow> err option \<Rightarrow> bool \<Rightarrow> LoadBalancer \<Rightarrow>
     ((duration \<times> err option) \<times> LoadBalancer) option" where
  "runProbeDialLimited fn ctxDone pick b =
     (case acquireProbeDialSlot ctxDone pick b of
        None \<Rightarrow> None
      | Some (Inl e) \<Rightarrow> Some ((0, Some e), b)
      | Some (Inr b') \<Rightarrow> let (r, b'') = fn b' in Some (r, releaseProbeDialSlot b''))"

subsection \<open>One check\<close>

datatype phase =
    Waiting
  | HasSlot
  | Dialing
  | Quality duration
  | QualityDialing duration
  | Finishing "err option" duration
  | Releasing

record checkIn =
  inCtx :: "err option"
  inPick :: bool
  inOutcome :: "duration \<times> err option"
  inElapsed :: duration
  inTotal :: duration
  inNow :: gotime
  inNow2 :: gotime
  inRnd :: "int \<Rightarrow> int"

definition probeURL :: "bool \<Rightarrow> UpstreamState \<Rightarrow> string" where
  "probeURL isTCP s = (if isTCP then TCPWSS (cfg s) else UDPWSS (cfg s))"

definition afterTransport :: "checkIn \<Rightarrow> bool \<Rightarrow> nat \<Rightarrow> duration \<times> err option \<Rightarrow> world \<Rightarrow> phase option \<times> world" where
  "afterTransport inp isTCP i res w =
     (let s = pool (wlb w) ! i; (rtt, err) = res;
          tel = observeProbe (Name (cfg s)) (protoName isTCP) ''transport'' err (inElapsed inp) (wtel w);
          timeout = wsDialTimeoutForURL (Timeout (hc (wlb w))) (probeURL isTCP s);
          w = w\<lparr>wtel := tel\<rparr>
      in case err of
           Some e \<Rightarrow> (Some (Finishing (Some (Wrap (protoName isTCP @ '' probe to '' @ probeURL isTCP s @ '' failed after '' @
               durationString (inTotal inp) @ '' (timeout='' @ durationString timeout @ ''): '') e)) rtt), w)
         | None \<Rightarrow>
             if (if isTCP then EnableTCP (probe (wlb w)) else EnableUDP (probe (wlb w)))
             then (Some (Quality rtt), w) else (Some (Finishing None rtt), w))"

definition afterQuality :: "checkIn \<Rightarrow> bool \<Rightarrow> nat \<Rightarrow> duration \<Rightarrow> duration \<times> err option \<Rightarrow> world \<Rightarrow> phase option \<times> world" where
  "afterQuality inp isTCP i rtt res w =
     (let s = pool (wlb w) ! i; (prtt, perr) = res
      in (Some (Finishing None (if perr \<noteq> None then rtt else prtt)),
          w\<lparr>wtel := observeProbe (Name (cfg s)) (protoName isTCP) ''quality'' perr (inElapsed inp) (wtel w)\<rparr>))"

text \<open>The last section of a check, under the lock of the upstream.\<close>

definition finishCheck :: "checkIn \<Rightarrow> bool \<Rightarrow> nat \<Rightarrow> err option \<Rightarrow> duration \<Rightarrow> world \<Rightarrow> world" where
  "finishCheck inp isTCP i err rtt w =
     (let b = wlb w; s = pool b ! i;
          (h, tel) = applyHCResult (hc b) (inRnd inp) (inNow inp) (inNow2 inp) err rtt (Name (cfg s)) (protoName isTCP)
                       (hcOf isTCP s, wtel w)
      in \<lparr>wlb = updUp i (\<lambda>s. let s = setHc isTCP (h\<lparr>inFlight := False\<rparr>) s
                            in if healthy h then setCooldown isTCP zeroTime s else s) b,
          wtel = tel\<rparr>)"

definition landed :: "bool \<Rightarrow> UpstreamState \<Rightarrow> UpstreamState" where
  "landed isTCP s = setHc isTCP ((hcOf isTCP s)\<lparr>inFlight := False\<rparr>) s"

text \<open>
  One step of a check: \<open>None\<close> when it has to wait, otherwise the next phase, or none when the
  goroutine has ended.
\<close>

definition checkStep :: "checkIn \<Rightarrow> bool \<Rightarrow> nat \<Rightarrow> phase \<Rightarrow> world \<Rightarrow> (phase option \<times> world) option" where
  "checkStep inp isTCP i ph w =
     (case ph of
        Waiting \<Rightarrow>
          (case acquireProbeSlot (inCtx inp) (inPick inp) (wlb w) of
             None \<Rightarrow> None
           | Some (Inl e) \<Rightarrow> Some (None, w\<lparr>wlb := updUp i (landed isTCP) (wlb w)\<rparr>)
           | Some (Inr b) \<Rightarrow> Some (Some HasSlot, w\<lparr>wlb := b\<rparr>))
      | HasSlot \<Rightarrow>
          (case acquireProbeDialSlot (inCtx inp) (inPick inp) (wlb w) of
             None \<Rightarrow> None
           | Some (Inl e) \<Rightarrow> Some (afterTransport inp isTCP i (0, Some e) w)
           | Some (Inr b) \<Rightarrow> Some (Some Dialing, w\<lparr>wlb := b\<rparr>))
      | Dialing \<Rightarrow> Some (afterTransport inp isTCP i (inOutcome inp) (w\<lparr>wlb := releaseProbeDialSlot (wlb w)\<rparr>))
      | Quality rtt \<Rightarrow>
          (case acquireProbeDialSlot (inCtx inp) (inPick inp) (wlb w) of
             None \<Rightarrow> None
           | Some (Inl e) \<Rightarrow> Some (afterQuality inp isTCP i rtt (0, Some e) w)
           | Some (Inr b) \<Rightarrow> Some (Some (QualityDialing rtt), w\<lparr>wlb := b\<rparr>))
      | QualityDialing rtt \<Rightarrow>
          Some (afterQuality inp isTCP i rtt (inOutcome inp) (w\<lparr>wlb := releaseProbeDialSlot (wlb w)\<rparr>))
      | Finishing err rtt \<Rightarrow> Some (Some Releasing, finishCheck inp isTCP i err rtt w)
      | Releasing \<Rightarrow> Some (None, w\<lparr>wlb := releaseProbeSlot (wlb w)\<rparr>))"

text \<open>A check on its own: the steps of \<^verbatim>\<open>checkOneTCP\<close> or \<^verbatim>\<open>checkOneUDP\<close> in a row.\<close>

fun checkOne :: "bool \<Rightarrow> nat \<Rightarrow> checkIn list \<Rightarrow> phase \<Rightarrow> world \<Rightarrow> phase option \<times> world" where
  "checkOne isTCP i [] ph w = (Some ph, w)"
| "checkOne isTCP i (inp # ins) ph w =
     (case checkStep inp isTCP i ph w of
        None \<Rightarrow> checkOne isTCP i ins ph w
      | Some (None, w') \<Rightarrow> (None, w')
      | Some (Some ph', w') \<Rightarrow> checkOne isTCP i ins ph' w')"

subsection \<open>The scheduler\<close>

definition startHealthChecks :: "gotime \<Rightarrow> LoadBalancer \<Rightarrow> LoadBalancer" where
  "startHealthChecks now b =
     b\<lparr>pool := map (\<lambda>s. s\<lparr>
         tcp := (tcp s)\<lparr>nextHC := now, hcEvery := (if hcEvery (tcp s) = 0 then Interval (hc b) else hcEvery (tcp s))\<rparr>,
         udp := (udp s)\<lparr>nextHC := now, hcEvery := (if hcEvery (udp s) = 0 then Interval (hc b) else hcEvery (udp s))\<rparr>\<rparr>)
       (pool b)\<rparr>"

definition due :: "gotime \<Rightarrow> hcState \<Rightarrow> bool" where
  "due now h \<longleftrightarrow> \<not> inFlight h \<and> nextHC h \<le> now"

definition markDue :: "gotime \<Rightarrow> UpstreamState \<Rightarrow> UpstreamState" where
  "markDue now s =
     (let s = (if due now (tcp s) then s\<lparr>tcp := (tcp s)\<lparr>inFlight := True\<rparr>\<rparr> else s)
      in if due now (udp s) then s\<lparr>udp := (udp s)\<lparr>inFlight := True\<rparr>\<rparr> else s)"

type_synonym task = "bool \<times> nat \<times> phase"

definition launched :: "gotime \<Rightarrow> nat \<Rightarrow> UpstreamState \<Rightarrow> task list" where
  "launched now i s =
     (if due now (tcp s) then [(True, i, Waiting)] else []) @ (if due now (udp s) then [(False, i, Waiting)] else [])"

text \<open>\<^verbatim>\<open>runDueChecks\<close>: all upstreams in turn; the checks it starts.\<close>

definition runDueChecks :: "gotime \<Rightarrow> LoadBalancer \<Rightarrow> task list \<times> LoadBalancer" where
  "runDueChecks now b =
     (concat (map (\<lambda>i. launched now i (pool b ! i)) [0..<length (pool b)]), b\<lparr>pool := map (markDue now) (pool b)\<rparr>)"

text \<open>The system: the scheduler visits one upstream at a time, under that upstream's lock.\<close>

record hsys =
  hw :: world
  tasks :: "task multiset"

inductive hc_step :: "hsys \<Rightarrow> hsys \<Rightarrow> bool" where
  visit: "i < length (pool (wlb (hw s))) \<Longrightarrow>
    hc_step s \<lparr>hw = (hw s)\<lparr>wlb := updUp i (markDue now) (wlb (hw s))\<rparr>,
               tasks = tasks s + mset (launched now i (pool (wlb (hw s)) ! i))\<rparr>"
| check: "(t, i, ph) \<in># tasks s \<Longrightarrow> checkStep inp t i ph (hw s) = Some (ph', w') \<Longrightarrow>
    hc_step s \<lparr>hw = w', tasks = tasks s - {#(t, i, ph)#} + (case ph' of None \<Rightarrow> {#} | Some q \<Rightarrow> {#(t, i, q)#})\<rparr>"
| report: "i < length (pool (wlb (hw s))) \<Longrightarrow> hc_step s (s\<lparr>hw := ReportFailure t (Some i) err now r (hw s)\<rparr>)"
| choose_upstream: "hc_step s (s\<lparr>hw := snd (pickByEndpoint now nowLog t (hw s))\<rparr>)"

inductive_cases hc_stepE: "hc_step s s'"

section \<open>Intervals\<close>

lemma clampInterval_bounds:
  "MinInterval c \<le> MaxInterval c \<Longrightarrow> MinInterval c \<le> clampInterval c x \<and> clampInterval c x \<le> MaxInterval c"
  by (simp add: clampInterval_def Let_def)

lemma clampInterval_ge: "clampInterval c x \<ge> min (MaxInterval c) x"
  by (simp add: clampInterval_def Let_def)

lemmas interval_defs = nextIntervalOnFailure_def nextIntervalOnSuccess_def

lemma i64_small: "- (2 ^ 63) \<le> x \<Longrightarrow> x < 2 ^ 63 \<Longrightarrow> i64 x = x"
  by (simp add: i64_def)

lemma applyJitter_bounds:
  assumes "\<And>n. 0 < n \<Longrightarrow> 0 \<le> rnd n \<and> rnd n < n" and "0 \<le> d" and "d \<le> 2 ^ 61" and "jit \<le> 2 ^ 61"
  shows "0 \<le> applyJitter rnd d jit \<and> d - max 0 jit \<le> applyJitter rnd d jit \<and> applyJitter rnd d jit \<le> d + max 0 jit"
proof (cases "jit \<le> 0")
  case True
  with assms(2) show ?thesis by (simp add: applyJitter_def)
next
  case False
  let ?r = "rnd (2 * jit + 1)"
  have r: "0 \<le> ?r" "?r \<le> 2 * jit" using assms(1) [of "2 * jit + 1"] False by auto
  have "i64 (i64 (2 * jit) + 1) = 2 * jit + 1" "i64 (?r - jit) = ?r - jit" "i64 (d + (?r - jit)) = d + (?r - jit)"
    using False assms(2-4) r by (simp_all add: i64_small)
  with False r assms(2) show ?thesis
    by (simp add: applyJitter_def randInt63n_def Let_def)
qed

lemma applyHCResult_fst:
  "fst (applyHCResult c rnd now now' err rtt name proto (h, tel)) = fst (applyHCResult c rnd now now' err rtt name proto (h, tel'))"
  by (auto simp: applyHCResult_def Let_def split: option.split)

lemma applyHCResult_fields:
  assumes "applyHCResult c rnd now now' err rtt name proto (h, tel) = (h', tel')"
  shows "failCount h' = (if err = None then 0 else failCount h + 1)"
    and "successCount h' = (if err = None then successCount h + 1 else 0)"
    and "healthy h' = (if err = None then healthy h \<or> SuccessThreshold c \<le> successCount h + 1
                       else healthy h \<and> failCount h + 1 < FailThreshold c)"
    and "hcEvery h' = (let g = h'\<lparr>hcEvery := hcEvery h\<rparr> in if err = None then nextIntervalOnSuccess c g else nextIntervalOnFailure c g)"
    and "nextHC h' = now' + applyJitter rnd (hcEvery h') (Jitter c)"
    and "inFlight h' = inFlight h" and "lastError h' = err" and "lastCheckTime h' = now"
    and "err = None \<Longrightarrow> rttEWMA h = 0 \<Longrightarrow> rttEWMA h' = rtt"
  using assms
  by (auto simp: applyHCResult_def Let_def interval_defs split: option.splits if_splits)

section \<open>Runs of check results\<close>

text \<open>The result of a check: random source, two clock readings, error, round trip.\<close>

type_synonym hcResult = "(int \<Rightarrow> int) \<times> gotime \<times> gotime \<times> err option \<times> duration"

definition hcRun :: "HealthcheckConfig \<Rightarrow> string \<Rightarrow> string \<Rightarrow> hcResult list \<Rightarrow> hcState \<times> telemetry \<Rightarrow> hcState \<times> telemetry" where
  "hcRun c name proto rs ht = foldl (\<lambda>ht (r, n, n', e, t). applyHCResult c r n n' e t name proto ht) ht rs"

definition passed :: "hcResult \<Rightarrow> bool" where
  "passed r \<longleftrightarrow> fst (snd (snd (snd r))) = None"

text \<open>How many results at the end all passed, all failed.\<close>

definition passes :: "hcResult list \<Rightarrow> int" where
  "passes rs = int (length (takeWhile passed (rev rs)))"

definition failures :: "hcResult list \<Rightarrow> int" where
  "failures rs = int (length (takeWhile (Not \<circ> passed) (rev rs)))"

lemma runs_snoc [simp]:
  "passes [] = 0" "failures [] = 0"
  "passes (rs @ [r]) = (if passed r then passes rs + 1 else 0)"
  "failures (rs @ [r]) = (if passed r then 0 else failures rs + 1)"
  by (simp_all add: passes_def failures_def)

lemma hcRun_snoc:
  "hcRun c name proto (rs @ [(r, n, n', e, t)]) ht = applyHCResult c r n n' e t name proto (hcRun c name proto rs ht)"
  by (simp add: hcRun_def)

lemma hcRun_counts:
  assumes "failCount h = 0" and "successCount h = 0"
  shows "failCount (fst (hcRun c name proto rs (h, tel))) = failures rs \<and>
    successCount (fst (hcRun c name proto rs (h, tel))) = passes rs"
proof (induction rs rule: rev_induct)
  case Nil
  with assms show ?case by (simp add: hcRun_def)
next
  case (snoc x rs)
  obtain r n n' e t where x: "x = (r, n, n', e, t)" by (metis prod_cases5)
  obtain h1 tel1 where a: "hcRun c name proto rs (h, tel) = (h1, tel1)" by fastforce
  obtain h2 tel2 where b: "applyHCResult c r n n' e t name proto (h1, tel1) = (h2, tel2)" by fastforce
  from applyHCResult_fields(1,2) [OF b] snoc a b show ?case
    by (simp add: x hcRun_snoc passed_def)
qed

text \<open>
  Since when: some stretch of results ends in enough passes, and no stretch after it ends in
  too many failures.
\<close>

definition up :: "HealthcheckConfig \<Rightarrow> hcResult list \<Rightarrow> bool" where
  "up c rs \<longleftrightarrow> (\<exists>as bs. rs = as @ bs \<and> SuccessThreshold c \<le> passes as \<and>
     (\<forall>cs ds. bs = cs @ ds \<longrightarrow> failures (as @ cs) < FailThreshold c))"

lemma up_snoc:
  assumes "1 \<le> SuccessThreshold c" and "1 \<le> FailThreshold c"
  shows "up c (rs @ [r]) \<longleftrightarrow> (if passed r then up c rs \<or> SuccessThreshold c \<le> passes rs + 1
    else up c rs \<and> failures rs + 1 < FailThreshold c)" (is "?l \<longleftrightarrow> ?r")
proof
  assume ?l
  then obtain as bs where s: "rs @ [r] = as @ bs" "SuccessThreshold c \<le> passes as"
    and ok: "\<And>cs ds. bs = cs @ ds \<Longrightarrow> failures (as @ cs) < FailThreshold c"
    by (auto simp: up_def)
  show ?r
  proof (cases bs rule: rev_cases)
    case Nil
    with s assms(1) show ?thesis by (auto split: if_splits)
  next
    case (snoc bs' x)
    with s have rs: "rs = as @ bs'" "x = r" by auto
    have "up c rs"
      unfolding up_def using s(2) rs(1) ok snoc by (intro exI [of _ as] exI [of _ bs']) auto
    moreover have "\<not> passed r \<Longrightarrow> failures rs + 1 < FailThreshold c"
      using ok [of bs "[]"] snoc rs by (simp flip: append_assoc)
    ultimately show ?thesis by simp
  qed
next
  assume r: ?r
  show ?l
  proof (cases "passed r \<and> SuccessThreshold c \<le> passes rs + 1")
    case True
    with assms(2) show ?thesis
      unfolding up_def by (intro exI [of _ "rs @ [r]"] exI [of _ "[]"]) auto
  next
    case False
    with r have "up c rs" and f: "\<not> passed r \<Longrightarrow> failures rs + 1 < FailThreshold c"
      by (auto split: if_splits)
    then obtain as bs where s: "rs = as @ bs" "SuccessThreshold c \<le> passes as"
      and ok: "\<And>cs ds. bs = cs @ ds \<Longrightarrow> failures (as @ cs) < FailThreshold c"
      by (auto simp: up_def)
    have "failures (as @ cs) < FailThreshold c" if "bs @ [r] = cs @ ds" for cs ds
    proof (cases ds rule: rev_cases)
      case Nil
      with that s(1) f assms(2) show ?thesis by (auto simp flip: append_assoc)
    next
      case (snoc ds' y)
      with that ok [of cs ds'] show ?thesis by auto
    qed
    with s show ?thesis
      unfolding up_def by (intro exI [of _ as] exI [of _ "bs @ [r]"]) auto
  qed
qed

lemma hcRun_healthy:
  assumes "failCount h = 0" and "successCount h = 0" and "\<not> healthy h"
    and "1 \<le> SuccessThreshold c" and "1 \<le> FailThreshold c"
  shows "healthy (fst (hcRun c name proto rs (h, tel))) \<longleftrightarrow> up c rs"
proof (induction rs rule: rev_induct)
  case Nil
  with assms show ?case by (simp add: hcRun_def up_def)
next
  case (snoc x rs)
  obtain r n n' e t where x: "x = (r, n, n', e, t)" by (metis prod_cases5)
  obtain h1 tel1 where a: "hcRun c name proto rs (h, tel) = (h1, tel1)" by fastforce
  obtain h2 tel2 where b: "applyHCResult c r n n' e t name proto (h1, tel1) = (h2, tel2)" by fastforce
  have cnt: "failCount h1 = failures rs" "successCount h1 = passes rs"
    using hcRun_counts [OF assms(1,2), of c name proto rs tel] a by simp_all
  from applyHCResult_fields(3) [OF b] cnt snoc a b show ?case
    by (auto simp: x hcRun_snoc up_snoc [OF assms(4,5)] passed_def)
qed

section \<open>Backing off\<close>

lemma backoff_grows:
  assumes "3 / 2 \<le> f" and "f \<le> 128" and "2 \<le> e" and "e \<le> 2 ^ 45"
  shows "e + e div 2 \<le> f_to_i64 (f_mul (f_of_int e) (Fin f))"
proof -
  let ?x = "of_int e * f :: rat"
  have e: "f_of_int e = Fin (of_int e)"
    using assms(3,4) by (intro f_of_int_small) auto
  have "of_int e * f \<le> of_int (2 ^ 45) * 128"
    using assms by (intro mult_mono) (auto simp only: of_int_le_iff)
  then have le: "?x \<le> of_int (2 ^ 52)" by simp
  have "of_int (e + e div 2) \<le> of_int e * (3 / 2 :: rat)"
  proof -
    have "2 * (e div 2) \<le> e" by simp
    then have "of_int (2 * (e div 2)) \<le> (of_int e :: rat)" by (simp only: of_int_le_iff)
    then show ?thesis by simp
  qed
  also have "\<dots> \<le> ?x" using assms(1,3) by (intro mult_left_mono) auto
  finally have ge: "of_int (e + e div 2) \<le> ?x" .
  have "0 \<le> ?x" using assms(1,3) by simp
  then obtain y where y: "round64 ?x = Fin y" "y \<le> of_int (2 ^ 52)"
    using round64_le_int [of "2 ^ 52" ?x] le by auto
  have "e + e div 2 \<le> 2 ^ 53" using assms(4) by simp
  then have "of_int (e + e div 2) \<le> y"
    using round64_ge_int [OF _ _ ge y(1)] assms(3) by simp
  from f_to_i64_bounds [OF y(1) this y(2)] assms(3) e show ?thesis
    by simp
qed

lemma backoff_run:
  assumes "BackoffFactor c = Fin f" and "3 / 2 \<le> f" and "f \<le> 128"
    and "2 \<le> MinInterval c" and "MinInterval c \<le> MaxInterval c" and "MaxInterval c \<le> 2 ^ 45"
    and "\<not> healthy h" and "MinInterval c \<le> hcEvery h" and "hcEvery h \<le> MaxInterval c"
    and "list_all (Not \<circ> passed) rs"
  shows "let h' = fst (hcRun c name proto rs (h, tel)) in
    \<not> healthy h' \<and> MinInterval c \<le> hcEvery h' \<and> hcEvery h' \<le> MaxInterval c \<and>
    (hcEvery h' = MaxInterval c \<or> 5 ^ length rs * hcEvery h \<le> 4 ^ length rs * hcEvery h')"
  using assms(10)
proof (induction rs rule: rev_induct)
  case Nil
  with assms show ?case by (simp add: hcRun_def)
next
  case (snoc x rs)
  obtain r n n' e t where x: "x = (r, n, n', e, t)" by (metis prod_cases5)
  obtain h1 tel1 where a: "hcRun c name proto rs (h, tel) = (h1, tel1)" by fastforce
  obtain h2 tel2 where b: "applyHCResult c r n n' e t name proto (h1, tel1) = (h2, tel2)" by fastforce
  have e: "e \<noteq> None" using snoc.prems by (simp add: x passed_def)
  have IH: "\<not> healthy h1" "MinInterval c \<le> hcEvery h1" "hcEvery h1 \<le> MaxInterval c"
    "hcEvery h1 = MaxInterval c \<or> 5 ^ length rs * hcEvery h \<le> 4 ^ length rs * hcEvery h1"
    using snoc a by (simp_all add: Let_def)
  have h2: "\<not> healthy h2" using applyHCResult_fields(3) [OF b] e IH(1) by simp
  have ev: "hcEvery h2 = clampInterval c (f_to_i64 (f_mul (f_of_int (hcEvery h1)) (Fin f)))"
    using applyHCResult_fields(4) [OF b] e h2 IH(2) assms(1,4) by (simp add: nextIntervalOnFailure_def Let_def)
  have "hcEvery h1 + hcEvery h1 div 2 \<le> f_to_i64 (f_mul (f_of_int (hcEvery h1)) (Fin f))"
    using assms(2-4,6) IH(2,3) by (intro backoff_grows) auto
  then have grow: "min (MaxInterval c) (hcEvery h1 + hcEvery h1 div 2) \<le> hcEvery h2"
    unfolding ev using clampInterval_ge [of c "f_to_i64 (f_mul (f_of_int (hcEvery h1)) (Fin f))"] by linarith
  have bnd: "MinInterval c \<le> hcEvery h2" "hcEvery h2 \<le> MaxInterval c"
    unfolding ev using clampInterval_bounds [OF assms(5)] by blast+
  have "5 ^ length (rs @ [x]) * hcEvery h \<le> 4 ^ length (rs @ [x]) * hcEvery h2" if lt: "hcEvery h2 \<noteq> MaxInterval c"
  proof -
    have g: "hcEvery h1 + hcEvery h1 div 2 \<le> hcEvery h2" "hcEvery h1 \<noteq> MaxInterval c"
      using grow bnd(2) lt assms(4) IH(2) by auto
    have "5 * hcEvery h1 \<le> 4 * hcEvery h2"
      using g(1) assms(4) IH(2) by presburger
    then have "4 ^ length rs * (5 * hcEvery h1) \<le> 4 ^ length rs * (4 * hcEvery h2)"
      by (intro mult_left_mono) auto
    moreover have "5 * (5 ^ length rs * hcEvery h) \<le> 5 * (4 ^ length rs * hcEvery h1)"
      using IH(4) g(2) by auto
    moreover have "5 * (4 ^ length rs * hcEvery h1) = 4 ^ length rs * (5 * hcEvery h1)" by simp
    ultimately have "5 * (5 ^ length rs * hcEvery h) \<le> 4 ^ length rs * (4 * hcEvery h2)" by linarith
    then show ?thesis by (simp only: length_append list.size power_add mult.assoc) (simp add: mult.left_commute)
  qed
  with h2 bnd a b show ?case
    by (auto simp: Let_def x hcRun_snoc)
qed

section \<open>Semaphores\<close>

text \<open>
  A counting semaphore: a count in a state, acquiring within a limit, and releasing. What runs
  between the two and does not touch the count finds it restored.
\<close>

locale slots =
  fixes cnt :: "'b \<Rightarrow> nat" and lim :: nat
    and acquire :: "err option \<Rightarrow> bool \<Rightarrow> 'b \<Rightarrow> (err + 'b) option"
    and release :: "'b \<Rightarrow> 'b"
  assumes acq: "acquire d p b = Some (Inr b') \<Longrightarrow> cnt b < lim \<and> cnt b' = Suc (cnt b)"
    and gives_up: "acquire d p b = Some (Inl e) \<Longrightarrow> d = Some e"
    and waits: "acquire d p b = None \<longleftrightarrow> d = None \<and> lim \<le> cnt b"
    and rel: "cnt (release b) = cnt b - 1"
begin

lemma bounded: "cnt b \<le> lim \<Longrightarrow> acquire d p b = Some (Inr b') \<Longrightarrow> cnt b' \<le> lim"
  using acq by fastforce

lemma restored: "acquire d p b = Some (Inr b') \<Longrightarrow> cnt b'' = cnt b' \<Longrightarrow> cnt (release b'') = cnt b"
  using acq [of d p b b'] rel [of b''] by simp

lemma progress: "cnt b < lim \<Longrightarrow> \<exists>b'. acquire None p b = Some (Inr b')"
  using waits [of None p b] gives_up [of None p b] by (cases "acquire None p b") (auto, metis option.distinct(1) sum.exhaust)

end

interpretation probeSlots: slots probeSem probeParallelLimit acquireProbeSlot releaseProbeSlot
  by unfold_locales (auto simp: acquireProbeSlot_def releaseProbeSlot_def acquireSlot_def split: if_splits option.splits)

interpretation probeDialSlots: slots probeDialSem probeDialParallelLimit acquireProbeDialSlot releaseProbeDialSlot
  by unfold_locales (auto simp: acquireProbeDialSlot_def releaseProbeDialSlot_def acquireSlot_def split: if_splits option.splits)

interpretation dialSlots: slots dialSem dialParallelLimit acquireDialSlot releaseDialSlot
  by unfold_locales (auto simp: acquireDialSlot_def releaseDialSlot_def acquireSlot_def split: if_splits option.splits)

section \<open>The system of checks\<close>

fun holdsProbe :: "task \<Rightarrow> bool" where
  "holdsProbe (t, i, ph) \<longleftrightarrow> ph \<noteq> Waiting"

fun holdsDial :: "task \<Rightarrow> bool" where
  "holdsDial (t, i, ph) \<longleftrightarrow> (case ph of Dialing \<Rightarrow> True | QualityDialing _ \<Rightarrow> True | _ \<Rightarrow> False)"

fun liveTask :: "bool \<Rightarrow> nat \<Rightarrow> task \<Rightarrow> bool" where
  "liveTask t i (t', i', ph) \<longleftrightarrow> t' = t \<and> i' = i \<and> ph \<noteq> Releasing"

definition numTasks :: "(task \<Rightarrow> bool) \<Rightarrow> hsys \<Rightarrow> nat" where
  "numTasks P s = size (filter_mset P (tasks s))"

definition hc_inv :: "hsys \<Rightarrow> bool" where
  "hc_inv s \<longleftrightarrow>
     (\<forall>t i ph. (t, i, ph) \<in># tasks s \<longrightarrow> i < length (pool (wlb (hw s)))) \<and>
     (\<forall>t i. i < length (pool (wlb (hw s))) \<longrightarrow>
        numTasks (liveTask t i) s = of_bool (inFlight (hcOf t (pool (wlb (hw s)) ! i)))) \<and>
     probeSem (wlb (hw s)) = numTasks holdsProbe s \<and> probeSem (wlb (hw s)) \<le> probeParallelLimit \<and>
     probeDialSem (wlb (hw s)) = numTasks holdsDial s \<and> probeDialSem (wlb (hw s)) \<le> probeDialParallelLimit \<and>
     (\<forall>t i. i < length (pool (wlb (hw s))) \<longrightarrow> healthy (hcOf t (pool (wlb (hw s)) ! i)) \<longrightarrow>
        cooldownOf t (pool (wlb (hw s)) ! i) = zeroTime)"

text \<open>The ways a check moves on.\<close>

definition idle :: "phase \<Rightarrow> bool" where
  "idle ph \<longleftrightarrow> (case ph of Quality _ \<Rightarrow> True | Finishing _ _ \<Rightarrow> True | _ \<Rightarrow> False)"

lemma afterTransport_idle: "afterTransport inp t i res w = (ph', w') \<Longrightarrow> \<exists>q. ph' = Some q \<and> idle q \<and> wlb w' = wlb w"
  by (auto simp: afterTransport_def idle_def Let_def split: prod.splits option.splits if_splits)

lemma afterQuality_idle: "afterQuality inp t i rtt res w = (ph', w') \<Longrightarrow> \<exists>q. ph' = Some q \<and> idle q \<and> wlb w' = wlb w"
  by (auto simp: afterQuality_def idle_def Let_def split: prod.splits)

lemma checkStep_cases:
  assumes "checkStep inp t i ph w = Some (ph', w')"
  obtains
    (cancelled) "ph = Waiting" "ph' = None" "wlb w' = updUp i (landed t) (wlb w)"
  | (slot) "ph = Waiting" "ph' = Some HasSlot" "probeSem (wlb w) < probeParallelLimit"
      "wlb w' = (wlb w)\<lparr>probeSem := Suc (probeSem (wlb w))\<rparr>"
  | (dial) q where "ph = HasSlot \<or> idle ph" "ph' = Some q" "q = Dialing \<or> (\<exists>r. q = QualityDialing r)"
      "probeDialSem (wlb w) < probeDialParallelLimit"
      "wlb w' = (wlb w)\<lparr>probeDialSem := Suc (probeDialSem (wlb w))\<rparr>"
  | (no_dial) q where "ph = HasSlot \<or> idle ph" "ph' = Some q" "idle q" "wlb w' = wlb w"
  | (dialled) q where "ph = Dialing \<or> (\<exists>r. ph = QualityDialing r)" "ph' = Some q" "idle q"
      "wlb w' = (wlb w)\<lparr>probeDialSem := probeDialSem (wlb w) - 1\<rparr>"
  | (finish) err rtt where "ph = Finishing err rtt" "ph' = Some Releasing" "w' = finishCheck inp t i err rtt w"
  | (ended) "ph = Releasing" "ph' = None" "wlb w' = (wlb w)\<lparr>probeSem := probeSem (wlb w) - 1\<rparr>"
proof (cases ph)
  case Waiting
  with assms cancelled slot show thesis
    by (auto simp: checkStep_def acquireProbeSlot_def acquireSlot_def split: option.splits sum.splits if_splits)
next
  case HasSlot
  with assms dial no_dial show thesis
    by (auto simp: checkStep_def acquireProbeDialSlot_def acquireSlot_def split: option.splits sum.splits if_splits
        dest!: afterTransport_idle)
next
  case Dialing
  with assms dialled show thesis
    by (auto simp: checkStep_def releaseProbeDialSlot_def dest!: afterTransport_idle)
next
  case (Quality r)
  with assms dial no_dial show thesis
    by (auto simp: checkStep_def acquireProbeDialSlot_def acquireSlot_def idle_def split: option.splits sum.splits if_splits
        dest!: afterQuality_idle)
next
  case (QualityDialing r)
  with assms dialled show thesis
    by (auto simp: checkStep_def releaseProbeDialSlot_def dest!: afterQuality_idle)
next
  case (Finishing err rtt)
  with assms finish show thesis by (auto simp: checkStep_def)
next
  case Releasing
  with assms ended show thesis by (auto simp: checkStep_def releaseProbeSlot_def)
qed

lemma idle_simps [simp]:
  "idle (Quality r)" "idle (Finishing e r)" "\<not> idle Waiting" "\<not> idle HasSlot" "\<not> idle Dialing" "\<not> idle (QualityDialing r)" "\<not> idle Releasing"
  by (simp_all add: idle_def)

lemma idle_holds: "idle q \<Longrightarrow> holdsProbe (t, i, q) \<and> \<not> holdsDial (t, i, q) \<and> q \<noteq> Releasing"
  by (cases q) simp_all

lemma pick_frame:
  "pool (wlb (snd (pickByEndpoint now nowLog t w))) = pool (wlb w)"
  "probeSem (wlb (snd (pickByEndpoint now nowLog t w))) = probeSem (wlb w)"
  "probeDialSem (wlb (snd (pickByEndpoint now nowLog t w))) = probeDialSem (wlb w)"
  "hc (wlb (snd (pickByEndpoint now nowLog t w))) = hc (wlb w)"
  by (auto simp: pickByEndpoint_def Let_def split: option.splits sum.splits prod.splits)

lemma finishCheck_other:
  assumes "j < length (pool (wlb w))" and "\<not> (t' = t \<and> j = i)"
  shows "hcOf t' (pool (wlb (finishCheck inp t i err rtt w)) ! j) = hcOf t' (pool (wlb w) ! j) \<and>
    cooldownOf t' (pool (wlb (finishCheck inp t i err rtt w)) ! j) = cooldownOf t' (pool (wlb w) ! j)"
  using assms
  by (auto simp: finishCheck_def Let_def pool_updUp hcOf_setHc_if cooldownOf_setCooldown_if split: prod.split)

lemma finishCheck_same:
  assumes "i < length (pool (wlb w))"
  obtains h tel where "applyHCResult (hc (wlb w)) (inRnd inp) (inNow inp) (inNow2 inp) err rtt
      (Name (cfg (pool (wlb w) ! i))) (protoName t) (hcOf t (pool (wlb w) ! i), wtel w) = (h, tel)"
    "hcOf t (pool (wlb (finishCheck inp t i err rtt w)) ! i) = h\<lparr>inFlight := False\<rparr>"
    "cooldownOf t (pool (wlb (finishCheck inp t i err rtt w)) ! i) =
       (if healthy h then zeroTime else cooldownOf t (pool (wlb w) ! i))"
proof -
  obtain h tel where a: "applyHCResult (hc (wlb w)) (inRnd inp) (inNow inp) (inNow2 inp) err rtt
      (Name (cfg (pool (wlb w) ! i))) (protoName t) (hcOf t (pool (wlb w) ! i), wtel w) = (h, tel)"
    by fastforce
  with assms that [OF a] show thesis
    by (simp add: finishCheck_def Let_def pool_updUp hcOf_setHc_if)
qed

lemma finishCheck_frame [simp]:
  "length (pool (wlb (finishCheck inp t i err rtt w))) = length (pool (wlb w))"
  "probeSem (wlb (finishCheck inp t i err rtt w)) = probeSem (wlb w)"
  "probeDialSem (wlb (finishCheck inp t i err rtt w)) = probeDialSem (wlb w)"
  by (simp_all add: finishCheck_def Let_def split: prod.split)

lemma hc_invD:
  assumes "hc_inv s"
  shows "\<And>t i ph. (t, i, ph) \<in># tasks s \<Longrightarrow> i < length (pool (wlb (hw s)))"
    and "\<And>t i. i < length (pool (wlb (hw s))) \<Longrightarrow>
        numTasks (liveTask t i) s = of_bool (inFlight (hcOf t (pool (wlb (hw s)) ! i)))"
    and "probeSem (wlb (hw s)) = numTasks holdsProbe s" and "probeSem (wlb (hw s)) \<le> probeParallelLimit"
    and "probeDialSem (wlb (hw s)) = numTasks holdsDial s" and "probeDialSem (wlb (hw s)) \<le> probeDialParallelLimit"
    and "\<And>t i. i < length (pool (wlb (hw s))) \<Longrightarrow> healthy (hcOf t (pool (wlb (hw s)) ! i)) \<Longrightarrow>
        cooldownOf t (pool (wlb (hw s)) ! i) = zeroTime"
  using assms by (auto simp: hc_inv_def)

lemma hc_invI:
  assumes "\<And>t i ph. (t, i, ph) \<in># tasks s \<Longrightarrow> i < length (pool (wlb (hw s)))"
    and "\<And>t i. i < length (pool (wlb (hw s))) \<Longrightarrow>
        numTasks (liveTask t i) s = of_bool (inFlight (hcOf t (pool (wlb (hw s)) ! i)))"
    and "probeSem (wlb (hw s)) = numTasks holdsProbe s" and "probeSem (wlb (hw s)) \<le> probeParallelLimit"
    and "probeDialSem (wlb (hw s)) = numTasks holdsDial s" and "probeDialSem (wlb (hw s)) \<le> probeDialParallelLimit"
    and "\<And>t i. i < length (pool (wlb (hw s))) \<Longrightarrow> healthy (hcOf t (pool (wlb (hw s)) ! i)) \<Longrightarrow>
        cooldownOf t (pool (wlb (hw s)) ! i) = zeroTime"
  shows "hc_inv s"
  using assms by (auto simp: hc_inv_def)

lemma numTasks_add: "numTasks P \<lparr>hw = w, tasks = add_mset x M\<rparr> = of_bool (P x) + size (filter_mset P M)"
  "tasks s = add_mset x M \<Longrightarrow> numTasks P s = of_bool (P x) + size (filter_mset P M)"
  by (simp_all add: numTasks_def)

lemma landed_simps:
  "hcOf t' (landed t u) = (if t' = t then (hcOf t u)\<lparr>inFlight := False\<rparr> else hcOf t' u)"
  "cooldownOf t' (landed t u) = cooldownOf t' u"
  by (auto simp: landed_def hcOf_setHc_if)

text \<open>A step that changes the state of no upstream.\<close>

lemma hc_inv_same_pool:
  assumes "hc_inv s" and "tasks s = add_mset (t, i, ph) M" and "pool (wlb w') = pool (wlb (hw s))"
    and "case ph' of None \<Rightarrow> ph = Releasing | Some q \<Rightarrow> ph \<noteq> Releasing \<and> q \<noteq> Releasing"
    and "probeSem (wlb w') + of_bool (holdsProbe (t, i, ph)) = probeSem (wlb (hw s)) +
      (case ph' of None \<Rightarrow> 0 | Some q \<Rightarrow> of_bool (holdsProbe (t, i, q)))"
    and "probeDialSem (wlb w') + of_bool (holdsDial (t, i, ph)) = probeDialSem (wlb (hw s)) +
      (case ph' of None \<Rightarrow> 0 | Some q \<Rightarrow> of_bool (holdsDial (t, i, q)))"
    and "probeSem (wlb w') \<le> probeParallelLimit" and "probeDialSem (wlb w') \<le> probeDialParallelLimit"
  shows "hc_inv \<lparr>hw = w', tasks = M + (case ph' of None \<Rightarrow> {#} | Some q \<Rightarrow> {#(t, i, q)#})\<rparr>"
proof -
  have i: "i < length (pool (wlb (hw s)))" using hc_invD(1) [OF assms(1), of t i ph] assms(2) by simp
  have live: "numTasks (liveTask t' j) \<lparr>hw = w', tasks = M + (case ph' of None \<Rightarrow> {#} | Some q \<Rightarrow> {#(t, i, q)#})\<rparr> =
      numTasks (liveTask t' j) s" for t' j
    using assms(2,4) by (auto simp: numTasks_def split: option.splits)
  note inv = hc_invD [OF assms(1)]
  show ?thesis
  proof (rule hc_invI, unfold hsys.simps assms(3))
    show "j < length (pool (wlb (hw s)))" if "(t', j, q) \<in># M + (case ph' of None \<Rightarrow> {#} | Some q \<Rightarrow> {#(t, i, q)#})" for t' j q
      using that inv(1) [of t' j q] i assms(2) by (auto split: option.splits)
    show "probeSem (wlb w') = numTasks holdsProbe \<lparr>hw = w', tasks = M + (case ph' of None \<Rightarrow> {#} | Some q \<Rightarrow> {#(t, i, q)#})\<rparr>"
      using assms(5) inv(3) numTasks_add(2) [OF assms(2)]
      by (cases ph') (simp_all add: numTasks_add numTasks_def del: holdsProbe.simps)
    show "probeDialSem (wlb w') = numTasks holdsDial \<lparr>hw = w', tasks = M + (case ph' of None \<Rightarrow> {#} | Some q \<Rightarrow> {#(t, i, q)#})\<rparr>"
      using assms(6) inv(5) numTasks_add(2) [OF assms(2)]
      by (cases ph') (simp_all add: numTasks_add numTasks_def del: holdsDial.simps)
  qed (use live inv(2,7) assms(7,8) in auto)
qed

text \<open>A step that ends a check as far as its upstream is concerned.\<close>

lemma hc_inv_land:
  assumes "hc_inv s" and "tasks s = add_mset (t, i, ph) M" and "ph \<noteq> Releasing"
    and "length (pool (wlb w')) = length (pool (wlb (hw s)))"
    and "\<And>t' j. j < length (pool (wlb (hw s))) \<Longrightarrow> \<not> (t' = t \<and> j = i) \<Longrightarrow>
      hcOf t' (pool (wlb w') ! j) = hcOf t' (pool (wlb (hw s)) ! j) \<and> cooldownOf t' (pool (wlb w') ! j) = cooldownOf t' (pool (wlb (hw s)) ! j)"
    and "\<not> inFlight (hcOf t (pool (wlb w') ! i))"
    and "healthy (hcOf t (pool (wlb w') ! i)) \<Longrightarrow> cooldownOf t (pool (wlb w') ! i) = zeroTime"
    and "probeSem (wlb w') = probeSem (wlb (hw s))" and "probeDialSem (wlb w') = probeDialSem (wlb (hw s))"
    and "N = {#} \<and> ph = Waiting \<or> N = {#(t, i, Releasing)#} \<and> holdsProbe (t, i, ph) \<and> \<not> holdsDial (t, i, ph)"
  shows "hc_inv \<lparr>hw = w', tasks = M + N\<rparr>"
proof -
  note inv = hc_invD [OF assms(1)]
  have i: "i < length (pool (wlb (hw s)))" using inv(1) [of t i ph] assms(2) by simp
  have "numTasks (liveTask t i) s \<ge> 1" using assms(2,3) by (simp add: numTasks_def)
  then have one: "numTasks (liveTask t i) s = 1" using inv(2) [OF i, of t] by (cases "inFlight (hcOf t (pool (wlb (hw s)) ! i))") auto
  have live: "numTasks (liveTask t' j) \<lparr>hw = w', tasks = M + N\<rparr> = of_bool (inFlight (hcOf t' (pool (wlb w') ! j)))"
    if "j < length (pool (wlb w'))" for t' j
  proof (cases "t' = t \<and> j = i")
    case True
    with one assms(2,3,6,10) show ?thesis by (auto simp: numTasks_def)
  next
    case False
    then have "numTasks (liveTask t' j) \<lparr>hw = w', tasks = M + N\<rparr> = numTasks (liveTask t' j) s"
      using assms(2,10) by (auto simp: numTasks_def)
    with inv(2) [of j t'] assms(4) assms(5) [of j t'] False that show ?thesis by simp
  qed
  have cool: "cooldownOf t' (pool (wlb w') ! j) = zeroTime"
    if "j < length (pool (wlb w'))" "healthy (hcOf t' (pool (wlb w') ! j))" for t' j
    using that assms(4) assms(5) [of j t'] assms(7) inv(7) [of j t'] by (cases "t' = t \<and> j = i") auto
  show ?thesis
  proof (rule hc_invI, unfold hsys.simps)
    show "j < length (pool (wlb w'))" if "(t', j, q) \<in># M + N" for t' j q
      using that inv(1) [of t' j q] i assms(2,4,10) by auto
    show "probeSem (wlb w') = numTasks holdsProbe \<lparr>hw = w', tasks = M + N\<rparr>"
      using assms(8,10) inv(3) numTasks_add(2) [OF assms(2)] by (auto simp: numTasks_def)
    show "probeDialSem (wlb w') = numTasks holdsDial \<lparr>hw = w', tasks = M + N\<rparr>"
      using assms(9,10) inv(5) numTasks_add(2) [OF assms(2), of holdsDial] by (auto simp: numTasks_def)
  qed (use live cool inv(4,6) assms(8,9) in auto)
qed

lemma hc_inv_check:
  assumes "hc_inv s" and "tasks s = add_mset (t, i, ph) M" and "checkStep inp t i ph (hw s) = Some (ph', w')"
  shows "hc_inv \<lparr>hw = w', tasks = M + (case ph' of None \<Rightarrow> {#} | Some q \<Rightarrow> {#(t, i, q)#})\<rparr>"
proof -
  note inv = hc_invD [OF assms(1)]
  have i: "i < length (pool (wlb (hw s)))" using inv(1) [of t i ph] assms(2) by simp
  have cnt: "holdsProbe (t, i, ph) \<Longrightarrow> 1 \<le> probeSem (wlb (hw s))" "holdsDial (t, i, ph) \<Longrightarrow> 1 \<le> probeDialSem (wlb (hw s))"
    using inv(3,5) assms(2) by (simp_all add: numTasks_def)
  from assms(3) show ?thesis
  proof (cases rule: checkStep_cases)
    case cancelled
    have "hc_inv \<lparr>hw = w', tasks = M + {#}\<rparr>"
      by (rule hc_inv_land [OF assms(1,2)])
        (use cancelled i inv(7) [OF i, of t] in \<open>auto simp: pool_updUp landed_simps split: if_splits\<close>)
    with cancelled show ?thesis by simp
  next
    case slot
    with inv(4,6) show ?thesis by (intro hc_inv_same_pool [OF assms(1,2)]) auto
  next
    case (dial q)
    with inv(4,6) idle_holds [of ph t i] show ?thesis by (intro hc_inv_same_pool [OF assms(1,2)]) auto
  next
    case (no_dial q)
    with inv(4,6) idle_holds [of ph t i] idle_holds [of q t i] show ?thesis by (intro hc_inv_same_pool [OF assms(1,2)]) auto
  next
    case (dialled q)
    with inv(4,6) cnt idle_holds [of q t i] show ?thesis by (intro hc_inv_same_pool [OF assms(1,2)]) auto
  next
    case (finish err rtt)
    obtain h where h: "hcOf t (pool (wlb w') ! i) = h\<lparr>inFlight := False\<rparr>"
      "cooldownOf t (pool (wlb w') ! i) = (if healthy h then zeroTime else cooldownOf t (pool (wlb (hw s)) ! i))"
      using finishCheck_same [OF i, of inp err rtt t] finish(3) by metis
    have "hc_inv \<lparr>hw = w', tasks = M + {#(t, i, Releasing)#}\<rparr>"
      by (rule hc_inv_land [OF assms(1,2)]) (use finish h finishCheck_other in auto)
    with finish show ?thesis by simp
  next
    case ended
    with inv(4,6) cnt show ?thesis by (intro hc_inv_same_pool [OF assms(1,2)]) auto
  qed
qed

lemma markDue_simps:
  "hcOf t (markDue now u) = (if due now (hcOf t u) then (hcOf t u)\<lparr>inFlight := True\<rparr> else hcOf t u)"
  "cooldownOf t (markDue now u) = cooldownOf t u"
  by (auto simp: markDue_def hcOf_def cooldownOf_def Let_def)

lemma launched_counts:
  "size (filter_mset (liveTask t j) (mset (launched now i u))) = of_bool (j = i \<and> due now (hcOf t u))"
  "filter_mset holdsProbe (mset (launched now i u)) = {#}" "filter_mset holdsDial (mset (launched now i u)) = {#}"
  "(t', j', q) \<in># mset (launched now i u) \<Longrightarrow> j' = i"
  by (auto simp: launched_def hcOf_def split: if_splits)

lemma hc_inv_visit:
  assumes "hc_inv s" and "i < length (pool (wlb (hw s)))"
  shows "hc_inv \<lparr>hw = (hw s)\<lparr>wlb := updUp i (markDue now) (wlb (hw s))\<rparr>,
    tasks = tasks s + mset (launched now i (pool (wlb (hw s)) ! i))\<rparr>"
proof -
  note inv = hc_invD [OF assms(1)]
  have live: "numTasks (liveTask t j) s + of_bool (j = i \<and> due now (hcOf t (pool (wlb (hw s)) ! i))) =
      of_bool (inFlight (hcOf t (if j = i then markDue now (pool (wlb (hw s)) ! i) else pool (wlb (hw s)) ! j)))"
    if "j < length (pool (wlb (hw s)))" for t j
    using inv(2) [OF that, of t] by (auto simp: markDue_simps due_def)
  show ?thesis
  proof (rule hc_invI, unfold hsys.simps)
    show "j < length (pool (wlb ((hw s)\<lparr>wlb := updUp i (markDue now) (wlb (hw s))\<rparr>)))"
      if "(t', j, q) \<in># tasks s + mset (launched now i (pool (wlb (hw s)) ! i))" for t' j q
      using that inv(1) [of t' j q] assms(2) launched_counts(4) [of t' j q now i "pool (wlb (hw s)) ! i"] by auto
  qed (use live inv(3-7) assms(2) in \<open>auto simp: numTasks_def launched_counts pool_updUp markDue_simps split: if_splits\<close>)
qed

lemma reportUpstream_simps:
  "hcOf t' (reportUpstream b t err now r u) = (if t' = t
     then (hcOf t u)\<lparr>lastError := err, failCount := failCount (hcOf t u) + 1, successCount := 0, healthy := False,
       hcEvery := MinInterval (hc b), nextHC := now + applyJitter r (MinInterval (hc b)) (Jitter (hc b))\<rparr>
     else hcOf t' u)"
  "t' \<noteq> t \<Longrightarrow> cooldownOf t' (reportUpstream b t err now r u) = cooldownOf t' u"
  by (simp_all add: reportUpstream_def Let_def hcOf_setHc_if cooldownOf_setCooldown_if)

lemma ReportFailure_frame:
  assumes "i < length (pool (wlb w))"
  shows "length (pool (wlb (ReportFailure t (Some i) err now r w))) = length (pool (wlb w))"
    "probeSem (wlb (ReportFailure t (Some i) err now r w)) = probeSem (wlb w)"
    "probeDialSem (wlb (ReportFailure t (Some i) err now r w)) = probeDialSem (wlb w)"
    "j < length (pool (wlb w)) \<Longrightarrow> pool (wlb (ReportFailure t (Some i) err now r w)) ! j =
       (if j = i then reportUpstream (wlb w) t err now r (pool (wlb w) ! i) else pool (wlb w) ! j)"
    "hc (wlb (ReportFailure t (Some i) err now r w)) = hc (wlb w)"
  using assms by (auto simp: ReportFailure_def Let_def pool_updUp)

lemma hc_inv_frame:
  assumes "hc_inv s" and "length (pool (wlb w')) = length (pool (wlb (hw s)))"
    and "probeSem (wlb w') = probeSem (wlb (hw s))" and "probeDialSem (wlb w') = probeDialSem (wlb (hw s))"
    and "\<And>t i. i < length (pool (wlb (hw s))) \<Longrightarrow>
      inFlight (hcOf t (pool (wlb w') ! i)) = inFlight (hcOf t (pool (wlb (hw s)) ! i))"
    and "\<And>t i. i < length (pool (wlb (hw s))) \<Longrightarrow> healthy (hcOf t (pool (wlb w') ! i)) \<Longrightarrow>
      healthy (hcOf t (pool (wlb (hw s)) ! i)) \<and> cooldownOf t (pool (wlb w') ! i) = cooldownOf t (pool (wlb (hw s)) ! i)"
  shows "hc_inv (s\<lparr>hw := w'\<rparr>)"
  using hc_invD [OF assms(1)] assms(2-6) unfolding hc_inv_def numTasks_def by auto

lemma hc_inv_step:
  assumes "hc_step s s'" and "hc_inv s"
  shows "hc_inv s'"
  using assms(1)
proof cases
  case (visit i now)
  with hc_inv_visit [OF assms(2)] show ?thesis by simp
next
  case (check t i ph inp ph' w')
  then obtain M where M: "tasks s = add_mset (t, i, ph) M" by (metis multi_member_split)
  from hc_inv_check [OF assms(2) M check(3)] check M show ?thesis by simp
next
  case (report i t err now r)
  then show ?thesis
    using ReportFailure_frame [OF report(2), where t = t and err = err and now = now and r = r]
    by (auto intro!: hc_inv_frame [OF assms(2)] simp: reportUpstream_simps split: if_splits)
next
  case (choose_upstream now nowLog t)
  then show ?thesis
    by (auto intro!: hc_inv_frame [OF assms(2)] simp: pick_frame)
qed

definition hc_start :: "gotime \<Rightarrow> LoadBalancer \<Rightarrow> telemetry \<Rightarrow> hsys" where
  "hc_start now b tel = \<lparr>hw = \<lparr>wlb = startHealthChecks now b, wtel = tel\<rparr>, tasks = {#}\<rparr>"

lemma hc_inv_start: "hc_inv (hc_start now (NewLoadBalancer ups h sl p mark) tel)"
  by (auto simp: hc_inv_def hc_start_def numTasks_def startHealthChecks_def NewLoadBalancer_def newUpstream_def hcZero_def hcOf_def)

lemma hc_inv_reachable:
  assumes "hc_step\<^sup>*\<^sup>* (hc_start now (NewLoadBalancer ups h sl p mark) tel) s"
  shows "hc_inv s"
  using assms by (induction rule: rtranclp_induct) (auto intro: hc_inv_start hc_inv_step)

lemma pool_length_step: "hc_step s s' \<Longrightarrow> length (pool (wlb (hw s'))) = length (pool (wlb (hw s)))"
  by (erule hc_stepE) (auto simp: pick_frame ReportFailure_frame elim!: checkStep_cases)

text \<open>Who makes an upstream healthy again.\<close>

lemma revived:
  assumes "hc_step s s'" and "i < length (pool (wlb (hw s)))"
    and "\<not> healthy (hcOf t (pool (wlb (hw s)) ! i))" and "healthy (hcOf t (pool (wlb (hw s')) ! i))"
  shows "\<exists>rtt. (t, i, Finishing None rtt) \<in># tasks s \<and>
    SuccessThreshold (hc (wlb (hw s))) \<le> successCount (hcOf t (pool (wlb (hw s)) ! i)) + 1"
  using assms(1)
proof cases
  case (visit j now)
  with assms(2-4) show ?thesis by (auto simp: pool_updUp markDue_simps split: if_splits)
next
  case (check t' j ph inp ph' w')
  from check(3) show ?thesis
  proof (cases rule: checkStep_cases)
    case (finish err rtt)
    show ?thesis
    proof (cases "t = t' \<and> i = j")
      case False
      with finishCheck_other [OF assms(2), of t t' j inp err rtt] check finish assms(3,4) show ?thesis by simp
    next
      case True
      obtain h tel where a: "applyHCResult (hc (wlb (hw s))) (inRnd inp) (inNow inp) (inNow2 inp) err rtt
          (Name (cfg (pool (wlb (hw s)) ! i))) (protoName t) (hcOf t (pool (wlb (hw s)) ! i), wtel (hw s)) = (h, tel)"
        and h: "hcOf t (pool (wlb w') ! i) = h\<lparr>inFlight := False\<rparr>"
        using finishCheck_same [OF assms(2), of inp err rtt t] finish(3) True by metis
      from applyHCResult_fields(3) [OF a] h check finish assms(3,4) True show ?thesis
        by (auto split: if_splits)
    qed
  qed (use check assms(2-4) in \<open>auto simp: pool_updUp landed_simps split: if_splits\<close>)
next
  case (report j t' err now r)
  with assms(2-4) ReportFailure_frame [OF report(2), where t = t' and err = err and now = now and r = r] show ?thesis
    by (auto simp: reportUpstream_simps split: if_splits)
next
  case choose_upstream
  with assms(2-4) show ?thesis by (simp add: pick_frame)
qed

subsection \<open>Without background probes\<close>

text \<open>
  What happens to the balancer when \<^verbatim>\<open>main\<close> starts neither health checks nor warm standby
  (\<^verbatim>\<open>disable_probes\<close>, \<^verbatim>\<open>-no-probes\<close>): choices and failure reports only.
\<close>

inductive client_step :: "world \<Rightarrow> world \<Rightarrow> bool" where
  client_report: "i < length (pool (wlb w)) \<Longrightarrow> client_step w (ReportFailure t (Some i) err now r w)"
| client_pick: "client_step w (snd (pickByEndpoint now nowLog t w))"

inductive_cases client_stepE: "client_step w w'"

definition down :: "bool \<Rightarrow> nat \<Rightarrow> world \<Rightarrow> bool" where
  "down t i w \<longleftrightarrow> lb_wf (wlb w) \<and> i < length (pool (wlb w)) \<and> \<not> healthy (hcOf t (pool (wlb w) ! i))"

lemma ReportFailure_current: "current (wlb (ReportFailure t (Some i) err now r w)) = current (wlb w)"
  by (simp add: ReportFailure_def Let_def)

lemma down_report:
  assumes "lb_wf (wlb w)" and "i < length (pool (wlb w))"
  shows "down t i (ReportFailure t (Some i) err now r w)"
  using assms ReportFailure_frame [OF assms(2), where t = t and err = err and now = now and r = r]
  by (auto simp: down_def lb_wf_def ReportFailure_current reportUpstream_simps split: option.splits)

lemma down_step: "client_step w w' \<Longrightarrow> down t i w \<Longrightarrow> down t i w'"
proof (erule client_stepE)
  fix j t' err now r
  assume "down t i w" "w' = ReportFailure t' (Some j) err now r w" "j < length (pool (wlb w))"
  with ReportFailure_frame [OF this(3), where t = t' and err = err and now = now and r = r] show "down t i w'"
    by (auto simp: down_def lb_wf_def ReportFailure_current reportUpstream_simps split: option.splits)
next
  fix now nowLog t'
  assume "down t i w" "w' = snd (pickByEndpoint now nowLog t' w)"
  moreover have "lb_wf (wlb w) \<Longrightarrow> lb_wf (wlb (snd (pickByEndpoint now nowLog t' w)))"
    by (rule pick_keeps(4) [OF prod.collapse [symmetric]])
  ultimately show "down t i w'" by (simp add: down_def pick_frame)
qed

lemma lb_wf_frame: "lb_wf b \<Longrightarrow> current b' = current b \<Longrightarrow> length (pool b') = length (pool b) \<Longrightarrow> lb_wf b'"
  by (simp add: lb_wf_def split: option.splits)

lemma lb_wf_step: "hc_step s s' \<Longrightarrow> lb_wf (wlb (hw s)) \<Longrightarrow> lb_wf (wlb (hw s'))"
proof (induction rule: hc_step.induct)
  case (check t i ph s inp ph' w')
  from check(2) have "current (wlb w') = current (wlb (hw s)) \<and> length (pool (wlb w')) = length (pool (wlb (hw s)))"
    by (cases rule: checkStep_cases) (auto simp: finishCheck_def Let_def split: prod.split)
  with check(3) lb_wf_frame show ?case by simp
next
  case (report i s t err now r)
  with ReportFailure_frame(1) [OF report(1)] lb_wf_frame show ?case by (simp add: ReportFailure_current)
next
  case (choose_upstream s now nowLog t)
  then show ?case using pick_keeps(4) [OF prod.collapse [symmetric]] by simp
qed (auto intro: lb_wf_frame)

text \<open>Between being down and being healthy there is a check that succeeded.\<close>

lemma revived_run:
  assumes "hc_step\<^sup>*\<^sup>* s s'" and "i < length (pool (wlb (hw s)))"
    and "\<not> healthy (hcOf t (pool (wlb (hw s)) ! i))" and "healthy (hcOf t (pool (wlb (hw s')) ! i))"
  shows "\<exists>s1 s2 rtt. hc_step\<^sup>*\<^sup>* s s1 \<and> hc_step s1 s2 \<and> hc_step\<^sup>*\<^sup>* s2 s' \<and> (t, i, Finishing None rtt) \<in># tasks s1 \<and>
    SuccessThreshold (hc (wlb (hw s1))) \<le> successCount (hcOf t (pool (wlb (hw s1)) ! i)) + 1"
  using assms
proof (induction rule: rtranclp_induct)
  case base
  then show ?case by simp
next
  case (step s1 s2)
  have len: "length (pool (wlb (hw s1))) = length (pool (wlb (hw s)))"
    using step(1) by (induction rule: rtranclp_induct) (simp_all add: pool_length_step)
  show ?case
  proof (cases "healthy (hcOf t (pool (wlb (hw s1)) ! i))")
    case True
    with step(3-5) obtain a b rtt where "hc_step\<^sup>*\<^sup>* s a" "hc_step a b" "hc_step\<^sup>*\<^sup>* b s1"
      "(t, i, Finishing None rtt) \<in># tasks a"
      "SuccessThreshold (hc (wlb (hw a))) \<le> successCount (hcOf t (pool (wlb (hw a)) ! i)) + 1" by blast
    with step(2) show ?thesis by (metis rtranclp.rtrancl_into_rtrancl)
  next
    case False
    with revived [OF step(2) _ False step(6)] step(1,2,4) len show ?thesis by auto
  qed
qed

section \<open>Properties\<close>

text \<open>
  C18. Scheduling stays within its bounds: whatever the result of a check, the state before it and
  the configured factors (even when they overflow or are not numbers), the interval to the next
  check lies between the configured minimum and maximum, and the next check is due that interval
  from now, give or take the jitter, and never in the past.
\<close>

theorem hc_schedule_bounds:
  assumes "0 \<le> MinInterval c" and "MinInterval c \<le> MaxInterval c" and "MaxInterval c \<le> 2 ^ 61" and "Jitter c \<le> 2 ^ 61"
    and "\<And>n. 0 < n \<Longrightarrow> 0 \<le> rnd n \<and> rnd n < n"
    and "applyHCResult c rnd now now' err rtt name proto (h, tel) = (h', tel')"
  shows "MinInterval c \<le> hcEvery h' \<and> hcEvery h' \<le> MaxInterval c \<and> now' \<le> nextHC h' \<and>
    \<bar>nextHC h' - (now' + hcEvery h')\<bar> \<le> max 0 (Jitter c)"
proof -
  have b: "MinInterval c \<le> hcEvery h' \<and> hcEvery h' \<le> MaxInterval c"
    using applyHCResult_fields(4) [OF assms(6)] clampInterval_bounds [OF assms(2)]
    by (auto simp: Let_def interval_defs split: if_splits)
  with applyJitter_bounds [of rnd "hcEvery h'" "Jitter c"] assms(1,3-5) applyHCResult_fields(5) [OF assms(6)]
  show ?thesis by auto
qed

theorem hc_schedule_bounds_witness:
  "let (h', _) = applyHCResult (hc lb_example) (\<lambda>n. n - 1) 3 7 (Some EOF) 0 ''a'' ''tcp'' (hcZero, noMetrics)
   in 10 ^ 9 \<le> hcEvery h' \<and> hcEvery h' \<le> 60 * 10 ^ 9 \<and> 7 \<le> nextHC h'"
proof -
  obtain h' tel' where a: "applyHCResult (hc lb_example) (\<lambda>n. n - 1) 3 7 (Some EOF) 0 ''a'' ''tcp'' (hcZero, noMetrics) = (h', tel')"
    by fastforce
  have c: "MinInterval (hc lb_example) = 10 ^ 9" "MaxInterval (hc lb_example) = 60 * 10 ^ 9" "Jitter (hc lb_example) = 0"
    by code_simp+
  have "10 ^ 9 \<le> hcEvery h' \<and> hcEvery h' \<le> 60 * 10 ^ 9 \<and> 7 \<le> nextHC h'"
    using hc_schedule_bounds [OF _ _ _ _ _ a] by (simp add: c)
  with a show ?thesis by simp
qed

text \<open>
  C19. Thresholds with hysteresis, exactly: an upstream that starts unhealthy is healthy after a
  sequence of check results if and only if at some point its latest results were at least
  \<^verbatim>\<open>SuccessThreshold\<close> successes in a row and never since then at least
  \<^verbatim>\<open>FailThreshold\<close> failures in a row.
\<close>

theorem hc_thresholds_exact:
  assumes "1 \<le> SuccessThreshold c" and "1 \<le> FailThreshold c"
  shows "healthy (fst (hcRun c name proto rs (hcZero, tel))) \<longleftrightarrow>
    (\<exists>as bs. rs = as @ bs \<and> SuccessThreshold c \<le> passes as \<and>
      (\<forall>cs ds. bs = cs @ ds \<longrightarrow> failures (as @ cs) < FailThreshold c))"
  using hcRun_healthy [of hcZero c name proto rs tel] assms by (simp add: hcZero_def up_def)

theorem hc_thresholds_exact_witness:
  "healthy (fst (hcRun ((hc lb_example)\<lparr>FailThreshold := 2\<rparr>) ''a'' ''tcp''
     [(\<lambda>_. 0, 1, 1, None, 5), (\<lambda>_. 0, 2, 2, Some EOF, 0)] (hcZero, noMetrics)))"
proof -
  let ?c = "(hc lb_example)\<lparr>FailThreshold := 2\<rparr>"
  let ?a = "(\<lambda>_. 0, 1, 1, None, 5) :: hcResult" and ?b = "(\<lambda>_. 0, 2, 2, Some EOF, 0) :: hcResult"
  have c: "SuccessThreshold ?c = 1" "FailThreshold ?c = 2" by code_simp+
  have p: "passed ?a" "\<not> passed ?b" by (simp_all add: passed_def)
  have f: "failures ([?a] @ cs) < 2" if "[?b] = cs @ ds" for cs ds
    using that p runs_snoc(4) [of "[?a]" ?b] runs_snoc(4) [of "[]" ?a] by (cases cs) auto
  have "\<exists>as bs. [?a, ?b] = as @ bs \<and> SuccessThreshold ?c \<le> passes as \<and>
      (\<forall>cs ds. bs = cs @ ds \<longrightarrow> failures (as @ cs) < FailThreshold ?c)"
    using f p runs_snoc(3) [of "[]" ?a] unfolding c by (intro exI [of _ "[?a]"] exI [of _ "[?b]"]) auto
  with hc_thresholds_exact [of ?c "''a''" "''tcp''" "[?a, ?b]" noMetrics] c show ?thesis by simp
qed

text \<open>
  C20. Backing off gets to the maximum, quickly: for an upstream that is down, with a backoff factor
  of at least 1.5, every failing check lengthens the interval by at least a quarter, so that after
  \<open>k\<close> failures in a row with \<open>4 ^ k * MaxInterval \<le> 5 ^ k * hcEvery\<close> it is exactly
  \<^verbatim>\<open>MaxInterval\<close>.
\<close>

theorem backoff_reaches_max:
  assumes "BackoffFactor c = Fin f" and "3 / 2 \<le> f" and "f \<le> 128"
    and "2 \<le> MinInterval c" and "MinInterval c \<le> MaxInterval c" and "MaxInterval c \<le> 2 ^ 45"
    and "\<not> healthy h" and "MinInterval c \<le> hcEvery h" and "hcEvery h \<le> MaxInterval c"
    and "list_all (Not \<circ> passed) rs" and "4 ^ length rs * MaxInterval c \<le> 5 ^ length rs * hcEvery h"
  shows "hcEvery (fst (hcRun c name proto rs (h, tel))) = MaxInterval c"
proof -
  let ?e = "hcEvery (fst (hcRun c name proto rs (h, tel)))"
  from backoff_run [OF assms(1-10), of name proto tel] have r: "?e \<le> MaxInterval c"
    "?e = MaxInterval c \<or> 5 ^ length rs * hcEvery h \<le> 4 ^ length rs * ?e"
    by (simp_all add: Let_def)
  with assms(11) have "?e = MaxInterval c \<or> 4 ^ length rs * MaxInterval c \<le> 4 ^ length rs * ?e" by linarith
  with r(1) show ?thesis by auto
qed

theorem backoff_reaches_max_witness:
  "hcEvery (fst (hcRun (hc lb_example) ''a'' ''tcp'' (replicate 19 (\<lambda>_. 0, 1, 1, Some EOF, 0))
     (hcZero\<lparr>hcEvery := 10 ^ 9\<rparr>, noMetrics))) = 60 * 10 ^ 9"
proof -
  have c: "BackoffFactor (hc lb_example) = Fin 2" "MinInterval (hc lb_example) = 10 ^ 9" "MaxInterval (hc lb_example) = 60 * 10 ^ 9"
    by code_simp+
  have "hcEvery (fst (hcRun (hc lb_example) ''a'' ''tcp'' (replicate 19 (\<lambda>_. 0, 1, 1, Some EOF, 0))
     (hcZero\<lparr>hcEvery := 10 ^ 9\<rparr>, noMetrics))) = MaxInterval (hc lb_example)"
    by (rule backoff_reaches_max [OF c(1)]) (simp_all add: c hcZero_def passed_def list_all_iff)
  then show ?thesis by (simp add: c)
qed

text \<open>
  C21. Checks run alone and never leak: in every state the system can reach from the start of the
  health checks, whatever the interleaving of scheduler, checks, failure reports and choices,
  there is at most one check in progress per upstream and protocol, at most two checks hold a
  probe slot and at most four a probe-dial slot, and when no check is left all slots are free
  again. Moreover the cooldown is redundant: whatever the time, an upstream can be chosen exactly
  if it is healthy.
\<close>

theorem checks_run_alone:
  assumes "hc_step\<^sup>*\<^sup>* (hc_start now (NewLoadBalancer ups h sl p mark) tel) s" and "i < length ups"
  shows "numTasks (liveTask t i) s \<le> 1 \<and> numTasks holdsProbe s \<le> 2 \<and> numTasks holdsDial s \<le> 4 \<and>
    (tasks s = {#} \<longrightarrow> probeSem (wlb (hw s)) = 0 \<and> probeDialSem (wlb (hw s)) = 0) \<and>
    (0 \<le> clock \<longrightarrow> (eligible clock t (pool (wlb (hw s)) ! i) \<longleftrightarrow> healthy (hcOf t (pool (wlb (hw s)) ! i))))"
proof -
  note inv = hc_invD [OF hc_inv_reachable [OF assms(1)]]
  have "length (pool (wlb (hw s))) = length ups"
    using assms(1) by (induction rule: rtranclp_induct)
      (simp_all add: pool_length_step, simp add: hc_start_def startHealthChecks_def NewLoadBalancer_def)
  with inv(2) [of i t] inv(3-6) inv(7) [of i t] assms(2) show ?thesis
    by (auto simp: numTasks_def eligible_def)
qed

theorem checks_run_alone_witness:
  "\<exists>s. hc_step (hc_start 5 (NewLoadBalancer [cfg (pool lb_example ! 0)] (hc lb_example) (sel lb_example) (probe lb_example) 0) noMetrics) s \<and>
     numTasks (liveTask True 0) s = 1"
proof -
  let ?s0 = "hc_start 5 (NewLoadBalancer [cfg (pool lb_example ! 0)] (hc lb_example) (sel lb_example) (probe lb_example) 0) noMetrics"
  let ?s1 = "\<lparr>hw = (hw ?s0)\<lparr>wlb := updUp 0 (markDue 5) (wlb (hw ?s0))\<rparr>, tasks = tasks ?s0 + mset (launched 5 0 (pool (wlb (hw ?s0)) ! 0))\<rparr>"
  have step: "hc_step ?s0 ?s1"
    by (rule visit) (simp add: hc_start_def startHealthChecks_def NewLoadBalancer_def)
  have "numTasks (liveTask True 0) ?s1 \<le> 1"
    by (rule checks_run_alone [OF r_into_rtranclp [of hc_step, OF step], of 0 True, THEN conjunct1]) simp
  moreover have "numTasks (liveTask True 0) ?s1 \<noteq> 0"
    by (simp add: numTasks_def launched_counts hc_start_def startHealthChecks_def NewLoadBalancer_def newUpstream_def
        hcZero_def hcOf_def due_def launched_def)
  ultimately show ?thesis using step by (intro exI [of _ ?s1]) auto
qed

text \<open>
  C22. No traffic to an upstream that failed before it has proved itself: if an upstream is
  unhealthy at some point and is chosen at a later one, then in between a check of the same
  upstream and protocol finished without an error, as the last of \<^verbatim>\<open>SuccessThreshold\<close>
  successes.
\<close>

theorem chosen_again_only_after_check:
  assumes "hc_step\<^sup>*\<^sup>* s s'" and "lb_wf (wlb (hw s))" and "i < length (pool (wlb (hw s)))"
    and "\<not> healthy (hcOf t (pool (wlb (hw s)) ! i))" and "fst (pickByEndpoint now nowLog t (hw s')) = Inr i"
  shows "\<exists>s1 s2 rtt. hc_step\<^sup>*\<^sup>* s s1 \<and> hc_step s1 s2 \<and> hc_step\<^sup>*\<^sup>* s2 s' \<and> (t, i, Finishing None rtt) \<in># tasks s1 \<and>
    SuccessThreshold (hc (wlb (hw s1))) \<le> successCount (hcOf t (pool (wlb (hw s1)) ! i)) + 1"
proof (rule revived_run [OF assms(1,3,4)])
  have "lb_wf (wlb (hw s'))"
    using assms(1,2) by (induction rule: rtranclp_induct) (simp_all add: lb_wf_step)
  moreover obtain w' where "pickByEndpoint now nowLog t (hw s') = (Inr i, w')"
    using assms(5) by (metis prod.collapse)
  ultimately show "healthy (hcOf t (pool (wlb (hw s')) ! i))"
    using pick_eligible by (auto simp: eligible_def)
qed

text \<open>For the witness: a check of the only upstream, which is down, about to succeed.\<close>

definition hc_example :: hsys where
  "hc_example = \<lparr>hw = \<lparr>wlb = NewLoadBalancer [cfg (pool lb_example ! 0)] (hc lb_example) (sel lb_example) (probe lb_example) 0,
     wtel = noMetrics\<rparr>, tasks = {#(True, 0, Finishing None (20 * millisecond))#}\<rparr>"

definition in_example :: checkIn where
  "in_example = \<lparr>inCtx = None, inPick = True, inOutcome = (0, None), inElapsed = 0, inTotal = 0, inNow = 9, inNow2 = 9, inRnd = (\<lambda>_. 0)\<rparr>"

lemma single_pick:
  assumes "pool (wlb w) = [u]" and "current (wlb w) = None" and "eligible now t u" and "Weight (cfg u) = Fin 1"
    and "plain (Interval (hc (wlb w))) now (hcOf t u)" and "cost (hcOf t u) < 10 ^ 18"
  shows "fst (pickByEndpoint now nowLog t w) = Inr 0"
proof -
  have sc: "score (Interval (hc (wlb w))) now (hcOf t u) (Weight (cfg u)) = Fin (of_int (cost (hcOf t u)))"
    using assms(4,5) by (simp add: score_plain)
  have "of_int (cost (hcOf t u)) < (of_int (10 ^ 18) :: rat)" using assms(6) by (simp only: of_int_less_iff)
  then have "f_lt (score (Interval (hc (wlb w))) now (hcOf t u) (Weight (cfg u))) maxScore"
    by (simp add: sc maxScore_eq)
  with assms(1,3) have "\<not> (\<exists>e. pickBestCandidateByEndpoint (wlb w) now t = Inl e)"
    by (simp add: pickBest_Inl)
  then obtain j rtt where b: "pickBestCandidateByEndpoint (wlb w) now t = Inr (j, rtt)"
    by (metis sum.exhaust surj_pair)
  with pickBest_Inr(1) [OF b] assms(1) have "j = 0" by simp
  with b assms(2) show ?thesis by (simp add: pickByEndpoint_def Let_def)
qed

theorem chosen_again_only_after_check_witness:
  "\<exists>s'. hc_step hc_example s' \<and> fst (pickByEndpoint 10 10 True (hw s')) = Inr 0 \<and>
     (\<exists>s1 s2 rtt. hc_step\<^sup>*\<^sup>* hc_example s1 \<and> hc_step s1 s2 \<and> hc_step\<^sup>*\<^sup>* s2 s' \<and> (True, 0, Finishing None rtt) \<in># tasks s1)"
proof -
  let ?w = "hw hc_example" let ?w' = "finishCheck in_example True 0 None (20 * millisecond) ?w"
  let ?s' = "\<lparr>hw = ?w', tasks = tasks hc_example - {#(True, 0, Finishing None (20 * millisecond))#} + (case Some Releasing of None \<Rightarrow> {#} | Some q \<Rightarrow> {#(True, 0, q)#})\<rparr>"
  have s: "(True, 0, Finishing None (20 * millisecond)) \<in># tasks hc_example" by (simp add: hc_example_def)
  have step: "hc_step hc_example ?s'"
    by (rule check [OF s]) (simp add: checkStep_def)
  have c: "Weight (cfg (pool lb_example ! 0)) = Fin 1" "SuccessThreshold (hc lb_example) = 1" "Interval (hc lb_example) = 30 * 10 ^ 9"
    by code_simp+
  have p: "pool (wlb ?w) = [newUpstream (cfg (pool lb_example ! 0))]" "current (wlb ?w) = None" "hc (wlb ?w) = hc lb_example"
    by (simp_all add: hc_example_def NewLoadBalancer_def)
  have i: "0 < length (pool (wlb ?w))" by (simp add: p)
  obtain h tel where a: "applyHCResult (hc (wlb ?w)) (\<lambda>_. 0) 9 9 None (20 * millisecond)
      (Name (cfg (pool (wlb ?w) ! 0))) (protoName True) (hcOf True (pool (wlb ?w) ! 0), wtel ?w) = (h, tel)"
    and h: "hcOf True (pool (wlb ?w') ! 0) = h\<lparr>inFlight := False\<rparr>"
      "cooldownOf True (pool (wlb ?w') ! 0) = (if healthy h then zeroTime else cooldownOf True (pool (wlb ?w) ! 0))"
    by (rule finishCheck_same [OF i, of in_example None "20 * millisecond" True]) (simp add: in_example_def)
  have z: "hcOf True (pool (wlb ?w) ! 0) = hcZero"
    by (simp add: p newUpstream_def hcZero_def hcOf_def)
  note f = applyHCResult_fields [OF a [unfolded z]]
  have hh: "healthy h" "failCount h = 0" "lastError h = None" "lastCheckTime h = 9" "rttEWMA h = 20 * 10 ^ 6"
    using f(1,3,7,8) f(9) by (simp_all add: p c hcZero_def)
  define u where "u = pool (wlb ?w') ! 0"
  have hu: "hcOf True u = h\<lparr>inFlight := False\<rparr>" "cooldownOf True u = zeroTime"
    unfolding u_def h using hh(1) by simp_all
  have q: "pool (wlb ?w') = [u]" "current (wlb ?w') = None" "hc (wlb ?w') = hc lb_example" "cfg u = cfg (pool lb_example ! 0)"
    unfolding u_def using p by (auto simp: finishCheck_def Let_def updUp_def newUpstream_def split: prod.split)
  have pick: "fst (pickByEndpoint 10 10 True ?w') = Inr 0"
    by (rule single_pick [OF q(1,2)], unfold q(3,4) hu eligible_def)
      (simp_all add: hh c plain_def cost_def timeSub_def i64_def milliseconds_def)
  have "\<not> healthy (hcOf True (pool (wlb ?w) ! 0))" by (simp add: z hcZero_def)
  from chosen_again_only_after_check [OF r_into_rtranclp [of hc_step, OF step] _ i this, of 10 10] pick p(2)
  have "\<exists>s1 s2 rtt. hc_step\<^sup>*\<^sup>* hc_example s1 \<and> hc_step s1 s2 \<and> hc_step\<^sup>*\<^sup>* s2 ?s' \<and> (True, 0, Finishing None rtt) \<in># tasks s1"
    by (auto simp: lb_wf_def)
  with step pick show ?thesis by (intro exI [of _ ?s']) simp
qed

text \<open>
  C23. Without background probes a failure is for ever: when health checks are disabled, all
  upstreams start out as healthy, but once a failure has been reported for an upstream, no
  sequence of choices and reports makes it eligible again, and every later choice passes over it.
\<close>

theorem no_probes_no_recovery:
  assumes "lb_wf (wlb w)" and "i < length (pool (wlb w))"
    and "client_step\<^sup>*\<^sup>* (ReportFailure t (Some i) err now r w) w'"
  shows "fst (pickByEndpoint later nowLog t w') \<noteq> Inr i"
proof
  assume p: "fst (pickByEndpoint later nowLog t w') = Inr i"
  have "down t i (ReportFailure t (Some i) err now r w)"
    by (rule down_report [OF assms(1,2)])
  with assms(3) have d: "down t i w'"
    by (induction rule: rtranclp_induct) (simp_all add: down_step)
  obtain w'' where "pickByEndpoint later nowLog t w' = (Inr i, w'')"
    using p by (metis prod.collapse)
  with d pick_eligible [of w' later nowLog t i w''] show False
    by (simp add: down_def eligible_def)
qed

theorem no_probes_no_recovery_witness:
  "fst (pickByEndpoint (10 ^ 18) (10 ^ 18) True
     (ReportFailure True (Some 1) (Some EOF) 5 (\<lambda>_. 0) \<lparr>wlb = lb_example, wtel = noMetrics\<rparr>)) \<noteq> Inr 1"
proof -
  have "lb_wf lb_example" by (simp add: lb_wf_def lb_example_def updUp_def DisableBackgroundProbes_def NewLoadBalancer_def Let_def)
  then show ?thesis
    using no_probes_no_recovery [of "\<lparr>wlb = lb_example, wtel = noMetrics\<rparr>" 1 True "Some EOF" 5 "\<lambda>_. 0"] lb_example_plain(2) by simp
qed

end
