(* ===== verification/Warm_Standby.thy ===== *)
theory Warm_Standby
  imports Ws_Conn Lb_Health "HOL-Library.Multiset"
begin

text \<open>
  Warm standby connections: \<^verbatim>\<open>internal/warm_standby.go\<close> and \<^verbatim>\<open>RunWarmStandby\<close> of
  \<^verbatim>\<open>internal/lb.go\<close>. A connection is a number, the index of its state in \<open>conns\<close>;
  the slots \<^verbatim>\<open>standbyTCP\<close> and \<^verbatim>\<open>standbyUDP\<close> of an upstream hold such numbers. Two
  histories are kept beside the state: \<open>handedOut\<close>, the connections returned to a caller, and
  \<open>closedLog\<close>, the calls of \<^verbatim>\<open>Close\<close>. The locks are held for short sections only, so the
  concurrent behaviour is a step relation whose steps are these sections; the definitions of whole
  operations compose the same sections without interleaving.
\<close>

section \<open>Definitions\<close>

subsection \<open>The liveness check\<close>

text \<open>
  \<open>payload\<close> is the ping payload, which in the code carries the time. The check's \<open>j\<close>th
  call of a method runs under the context \<open>ctxs j\<close>. \<open>None\<close> is a check that never ends.
\<close>

partial_function (option) aliveLoop ::
  "'c wsconn \<Rightarrow> (nat \<Rightarrow> ctx) \<Rightarrow> bytes \<Rightarrow> nat \<Rightarrow> 'c \<Rightarrow> (bool \<times> 'c) option" where
  "aliveLoop W ctxs payload j c =
     (case ws_Read W (ctxs j) c of
        (Inl e, c1) \<Rightarrow> Some (False, c1)
      | (Inr (typ, data), c1) \<Rightarrow>
          if typ = WSMessagePong then Some (data = [] \<or> data = payload, c1)
          else if typ = WSMessagePing then
            aliveLoop W ctxs payload (j + 2) (snd (ws_Write W (ctxs (j + 1) 0) c1 WSMessagePong data))
          else if typ = WSMessageClose then Some (False, c1)
          else aliveLoop W ctxs payload (j + 1) c1)"

definition wsAliveCheck :: "'c wsconn \<Rightarrow> (nat \<Rightarrow> ctx) \<Rightarrow> bytes \<Rightarrow> 'c \<Rightarrow> (bool \<times> 'c) option" where
  "wsAliveCheck W ctxs payload c =
     (case ws_Write W (ctxs 0 0) c WSMessagePing payload of
        (Some e, c1) \<Rightarrow> Some (False, c1)
      | (None, c1) \<Rightarrow> aliveLoop W ctxs payload 1 c1)"

subsection \<open>Slots and connections\<close>

definition standbyOf :: "bool \<Rightarrow> UpstreamState \<Rightarrow> nat option" where
  "standbyOf isTCP u = (if isTCP then standbyTCP u else standbyUDP u)"

definition setStandby :: "bool \<Rightarrow> nat option \<Rightarrow> UpstreamState \<Rightarrow> UpstreamState" where
  "setStandby isTCP v u = (if isTCP then u\<lparr>standbyTCP := v\<rparr> else u\<lparr>standbyUDP := v\<rparr>)"

record 'c sbState =
  sblb :: LoadBalancer
  conns :: "'c list"
  handedOut :: "nat list"
  closedLog :: "nat list"

definition newConn :: "'c \<Rightarrow> 'c sbState \<Rightarrow> nat \<times> 'c sbState" where
  "newConn c s = (length (conns s), s\<lparr>conns := conns s @ [c]\<rparr>)"

definition closeConn :: "'c wsconn \<Rightarrow> string \<Rightarrow> nat \<Rightarrow> 'c sbState \<Rightarrow> 'c sbState" where
  "closeConn W reason k s =
     s\<lparr>conns := (conns s)[k := snd (ws_Close W (conns s ! k) WSStatusNormalClosure (bytes_of reason))],
       closedLog := closedLog s @ [k]\<rparr>"

definition handOut :: "nat \<Rightarrow> 'c sbState \<Rightarrow> 'c sbState" where
  "handOut k s = s\<lparr>handedOut := handedOut s @ [k]\<rparr>"

text \<open>The sections under \<^verbatim>\<open>standbyMu\<close>.\<close>

definition takeStandby :: "bool \<Rightarrow> nat \<Rightarrow> 'c sbState \<Rightarrow> nat option \<times> 'c sbState" where
  "takeStandby isTCP i s =
     (standbyOf isTCP (pool (sblb s) ! i), s\<lparr>sblb := updUp i (setStandby isTCP None) (sblb s)\<rparr>)"

definition putStandby :: "bool \<Rightarrow> nat \<Rightarrow> nat \<Rightarrow> 'c sbState \<Rightarrow> bool \<times> 'c sbState" where
  "putStandby isTCP i k s =
     (if standbyOf isTCP (pool (sblb s) ! i) = None
      then (True, s\<lparr>sblb := updUp i (setStandby isTCP (Some k)) (sblb s)\<rparr>) else (False, s))"

definition resetStandby :: "'c wsconn \<Rightarrow> string \<Rightarrow> bool \<Rightarrow> nat \<Rightarrow> 'c sbState \<Rightarrow> 'c sbState" where
  "resetStandby W reason isTCP i s =
     (case takeStandby isTCP i s of
        (Some k, s1) \<Rightarrow> closeConn W reason k s1
      | (None, s1) \<Rightarrow> s)"

text \<open>Running the check on a connection of the store.\<close>

definition checkConn :: "'c wsconn \<Rightarrow> (nat \<Rightarrow> ctx) \<Rightarrow> bytes \<Rightarrow> nat \<Rightarrow> 'c sbState \<Rightarrow> (bool \<times> 'c sbState) option" where
  "checkConn W ctxs payload k s =
     map_option (\<lambda>(ok, c). (ok, s\<lparr>conns := (conns s)[k := c]\<rparr>)) (wsAliveCheck W ctxs payload (conns s ! k))"

subsection \<open>Acquiring a connection\<close>

text \<open>
  \<open>dial url\<close> is what \<^verbatim>\<open>DialWSStreamLimited\<close> gives (\<open>None\<close> when it waits for ever for
  a dial slot).
\<close>

definition dialFresh :: "(err + 'c) option \<Rightarrow> 'c sbState \<Rightarrow> ((err + nat) \<times> 'c sbState) option" where
  "dialFresh r s =
     (case r of
        None \<Rightarrow> None
      | Some (Inl e) \<Rightarrow> Some (Inl e, s)
      | Some (Inr c) \<Rightarrow> (case newConn c s of (k, s1) \<Rightarrow> Some (Inr k, handOut k s1)))"

definition AcquireUDPWS ::
  "(string \<Rightarrow> (err + 'c) option) \<Rightarrow> nat \<Rightarrow> 'c sbState \<Rightarrow> ((err + nat) \<times> 'c sbState) option" where
  "AcquireUDPWS dial i s =
     (case takeStandby False i s of
        (Some k, s1) \<Rightarrow> Some (Inr k, handOut k s1)
      | (None, s1) \<Rightarrow> dialFresh (dial (UDPWSS (cfg (pool (sblb s1) ! i)))) s1)"

definition acquireTCPWS ::
  "'c wsconn \<Rightarrow> (nat \<Rightarrow> ctx) \<Rightarrow> bytes \<Rightarrow> (string \<Rightarrow> (err + 'c) option) \<Rightarrow> nat \<Rightarrow> 'c sbState \<Rightarrow>
     ((err + nat) \<times> 'c sbState) option" where
  "acquireTCPWS W ctxs payload dial i s =
     (let url = TCPWSS (cfg (pool (sblb s) ! i))
      in case takeStandby True i s of
           (None, s1) \<Rightarrow> dialFresh (dial url) s1
         | (Some k, s1) \<Rightarrow>
             (case checkConn W ctxs payload k s1 of
                None \<Rightarrow> None
              | Some (True, s2) \<Rightarrow> Some (Inr k, handOut k s2)
              | Some (False, s2) \<Rightarrow> dialFresh (dial url) (closeConn W ''stale-standby'' k s2)))"

definition AcquireTCPWS ::
  "'c wsconn \<Rightarrow> (nat \<Rightarrow> ctx) \<Rightarrow> bytes \<Rightarrow> (string \<Rightarrow> (err + 'c) option) \<Rightarrow> nat \<Rightarrow> 'c sbState \<Rightarrow>
     ((err + nat) \<times> 'c sbState) option" where
  "AcquireTCPWS W ctxs payload dial i s = acquireTCPWS W ctxs payload dial i s"

subsection \<open>Keeping the slots filled and alive\<close>

text \<open>
  \<open>dial timeout url mark\<close> is \<^verbatim>\<open>DialWSStream\<close> under a context with that timeout;
  \<open>now\<close> is the time of the check of the cooldown.
\<close>

definition standbyWanted :: "bool \<Rightarrow> gotime \<Rightarrow> UpstreamState \<Rightarrow> bool" where
  "standbyWanted isTCP now u \<longleftrightarrow> healthy (hcOf isTCP u) \<and> now > cooldownOf isTCP u"

definition storeStandby :: "'c wsconn \<Rightarrow> bool \<Rightarrow> nat \<Rightarrow> nat \<Rightarrow> 'c sbState \<Rightarrow> 'c sbState" where
  "storeStandby W isTCP i k s =
     (case putStandby isTCP i k s of
        (True, s1) \<Rightarrow> s1
      | (False, s1) \<Rightarrow> closeConn W ''duplicate-standby'' k s1)"

definition EnsureStandby ::
  "'c wsconn \<Rightarrow> bool \<Rightarrow> gotime \<Rightarrow> (duration \<Rightarrow> string \<Rightarrow> 32 word \<Rightarrow> err + 'c) \<Rightarrow> nat \<Rightarrow> 'c sbState \<Rightarrow> 'c sbState" where
  "EnsureStandby W isTCP now dial i s =
     (let b = sblb s; u = pool b ! i
      in if \<not> standbyWanted isTCP now u then resetStandby W ''standby-reset'' isTCP i s
         else if standbyOf isTCP u \<noteq> None then s
         else case dial (wsDialTimeoutForURL (Timeout (hc b)) (probeURL isTCP u)) (probeURL isTCP u) (fwmark b) of
                Inl e \<Rightarrow> s
              | Inr c \<Rightarrow> (case newConn c s of (k, s1) \<Rightarrow> storeStandby W isTCP i k s1))"

definition EnsureStandbyTCP ::
  "'c wsconn \<Rightarrow> gotime \<Rightarrow> (duration \<Rightarrow> string \<Rightarrow> 32 word \<Rightarrow> err + 'c) \<Rightarrow> nat \<Rightarrow> 'c sbState \<Rightarrow> 'c sbState" where
  "EnsureStandbyTCP W now dial i s = EnsureStandby W True now dial i s"

definition EnsureStandbyUDP ::
  "'c wsconn \<Rightarrow> gotime \<Rightarrow> (duration \<Rightarrow> string \<Rightarrow> 32 word \<Rightarrow> err + 'c) \<Rightarrow> nat \<Rightarrow> 'c sbState \<Rightarrow> 'c sbState" where
  "EnsureStandbyUDP W now dial i s = EnsureStandby W False now dial i s"

definition keepaliveOneStandby ::
  "'c wsconn \<Rightarrow> (nat \<Rightarrow> ctx) \<Rightarrow> bytes \<Rightarrow> bool \<Rightarrow> nat \<Rightarrow> 'c sbState \<Rightarrow> 'c sbState option" where
  "keepaliveOneStandby W ctxs payload isTCP i s =
     (case takeStandby isTCP i s of
        (None, s1) \<Rightarrow> Some s1
      | (Some k, s1) \<Rightarrow>
          (case checkConn W ctxs payload k s1 of
             None \<Rightarrow> None
           | Some (False, s2) \<Rightarrow> Some (closeConn W ''standby-keepalive-failed'' k s2)
           | Some (True, s2) \<Rightarrow> Some (storeStandby W isTCP i k s2)))"

fun keepaliveAll ::
  "'c wsconn \<Rightarrow> (nat \<times> bool \<Rightarrow> (nat \<Rightarrow> ctx) \<times> bytes) \<Rightarrow> (nat \<times> bool) list \<Rightarrow> 'c sbState \<Rightarrow> 'c sbState option" where
  "keepaliveAll W env [] s = Some s"
| "keepaliveAll W env ((i, isTCP) # q) s =
     (case keepaliveOneStandby W (fst (env (i, isTCP))) (snd (env (i, isTCP))) isTCP i s of
        None \<Rightarrow> None
      | Some s1 \<Rightarrow> keepaliveAll W env q s1)"

definition keepQueue :: "LoadBalancer \<Rightarrow> (nat \<times> bool) list" where
  "keepQueue b = concat (map (\<lambda>i. [(i, True), (i, False)]) [0..<length (pool b)])"

definition checkStandbyKeepalive ::
  "'c wsconn \<Rightarrow> (nat \<times> bool \<Rightarrow> (nat \<Rightarrow> ctx) \<times> bytes) \<Rightarrow> 'c sbState \<Rightarrow> 'c sbState option" where
  "checkStandbyKeepalive W env s = keepaliveAll W env (keepQueue (sblb s)) s"

text \<open>The end of \<^verbatim>\<open>RunWarmStandby\<close>: both slots of every upstream are closed.\<close>

definition shutdownOne :: "'c wsconn \<Rightarrow> nat \<Rightarrow> 'c sbState \<Rightarrow> 'c sbState" where
  "shutdownOne W i s = resetStandby W ''shutdown'' False i (resetStandby W ''shutdown'' True i s)"

definition shutdownStandby :: "'c wsconn \<Rightarrow> 'c sbState \<Rightarrow> 'c sbState" where
  "shutdownStandby W s = fold (shutdownOne W) [0..<length (pool (sblb s))] s"

subsection \<open>Everything at once\<close>

text \<open>
  A task is a goroutine at one of its lock boundaries: a call of \<^verbatim>\<open>EnsureStandbyTCP\<close> or
  \<^verbatim>\<open>EnsureStandbyUDP\<close>, or of one of the two acquiring operations. \<open>runLoop\<close> is where
  \<^verbatim>\<open>RunWarmStandby\<close> stands: waiting, working through the keepalive queue, closing
  everything, or returned. The number in a state is a connection only this goroutine has.
\<close>

datatype sbTask =
    EnsureStart bool nat
  | EnsureReset bool nat
  | EnsureTest bool nat
  | EnsureDial bool nat
  | EnsureStore bool nat nat
  | AcqTake bool nat
  | AcqCheck nat nat
  | AcqDial bool nat

datatype runLoop =
    Waits
  | Keeping "(nat \<times> bool) list"
  | KeepCheck nat bool nat "(nat \<times> bool) list"
  | KeepStore nat bool nat "(nat \<times> bool) list"
  | Stopping "nat list"
  | Stopped

record 'c sbSys =
  sb :: "'c sbState"
  sbTasks :: "sbTask multiset"
  runner :: runLoop

definition sameSlots :: "LoadBalancer \<Rightarrow> LoadBalancer \<Rightarrow> bool" where
  "sameSlots b b' \<longleftrightarrow> map standbyTCP (pool b) = map standbyTCP (pool b') \<and> map standbyUDP (pool b) = map standbyUDP (pool b')"

definition warmTasks :: "nat list \<Rightarrow> sbTask list" where
  "warmTasks ups = concat (map (\<lambda>i. [EnsureStart True i, EnsureStart False i]) ups)"

inductive sb_step :: "'c wsconn \<Rightarrow> 'c sbSys \<Rightarrow> 'c sbSys \<Rightarrow> bool" for W where
  others: "sameSlots (sblb (sb S)) b \<Longrightarrow> sb_step W S (S\<lparr>sb := (sb S)\<lparr>sblb := b\<rparr>\<rparr>)"
| tick: "runner S = Waits \<Longrightarrow> 0 < WarmStandbyN (sel (sblb (sb S))) \<Longrightarrow>
    ups = pickTopN (sblb (sb S)) now (WarmStandbyN (sel (sblb (sb S)))) \<Longrightarrow>
    sb_step W S (S\<lparr>sbTasks := sbTasks S + mset (warmTasks ups)\<rparr>)"
| keepTick: "runner S = Waits \<Longrightarrow> StandbyKeepalive (sel (sblb (sb S))) \<Longrightarrow>
    sb_step W S (S\<lparr>runner := Keeping (keepQueue (sblb (sb S)))\<rparr>)"
| keepDone: "runner S = Keeping [] \<Longrightarrow> sb_step W S (S\<lparr>runner := Waits\<rparr>)"
| keepNone: "runner S = Keeping ((i, t) # q) \<Longrightarrow> takeStandby t i (sb S) = (None, s) \<Longrightarrow>
    sb_step W S (S\<lparr>sb := s, runner := Keeping q\<rparr>)"
| keepTake: "runner S = Keeping ((i, t) # q) \<Longrightarrow> takeStandby t i (sb S) = (Some k, s) \<Longrightarrow>
    sb_step W S (S\<lparr>sb := s, runner := KeepCheck k t i q\<rparr>)"
| keepAlive: "runner S = KeepCheck k t i q \<Longrightarrow> checkConn W ctxs payload k (sb S) = Some (True, s) \<Longrightarrow>
    sb_step W S (S\<lparr>sb := s, runner := KeepStore k t i q\<rparr>)"
| keepDead: "runner S = KeepCheck k t i q \<Longrightarrow> checkConn W ctxs payload k (sb S) = Some (False, s) \<Longrightarrow>
    sb_step W S (S\<lparr>sb := closeConn W ''standby-keepalive-failed'' k s, runner := Keeping q\<rparr>)"
| keepStore: "runner S = KeepStore k t i q \<Longrightarrow>
    sb_step W S (S\<lparr>sb := storeStandby W t i k (sb S), runner := Keeping q\<rparr>)"
| stop: "runner S = Waits \<Longrightarrow> sb_step W S (S\<lparr>runner := Stopping [0..<length (pool (sblb (sb S)))]\<rparr>)"
| stopOne: "runner S = Stopping (i # q) \<Longrightarrow> sb_step W S (S\<lparr>sb := shutdownOne W i (sb S), runner := Stopping q\<rparr>)"
| stopped: "runner S = Stopping [] \<Longrightarrow> sb_step W S (S\<lparr>runner := Stopped\<rparr>)"
| ensureNo: "sbTasks S = add_mset (EnsureStart t i) T \<Longrightarrow> \<not> standbyWanted t now (pool (sblb (sb S)) ! i) \<Longrightarrow>
    sb_step W S (S\<lparr>sbTasks := add_mset (EnsureReset t i) T\<rparr>)"
| ensureYes: "sbTasks S = add_mset (EnsureStart t i) T \<Longrightarrow> standbyWanted t now (pool (sblb (sb S)) ! i) \<Longrightarrow>
    sb_step W S (S\<lparr>sbTasks := add_mset (EnsureTest t i) T\<rparr>)"
| ensureReset: "sbTasks S = add_mset (EnsureReset t i) T \<Longrightarrow>
    sb_step W S (S\<lparr>sb := resetStandby W ''standby-reset'' t i (sb S), sbTasks := T\<rparr>)"
| ensureExists: "sbTasks S = add_mset (EnsureTest t i) T \<Longrightarrow> standbyOf t (pool (sblb (sb S)) ! i) \<noteq> None \<Longrightarrow>
    sb_step W S (S\<lparr>sbTasks := T\<rparr>)"
| ensureMissing: "sbTasks S = add_mset (EnsureTest t i) T \<Longrightarrow> standbyOf t (pool (sblb (sb S)) ! i) = None \<Longrightarrow>
    sb_step W S (S\<lparr>sbTasks := add_mset (EnsureDial t i) T\<rparr>)"
| ensureFail: "sbTasks S = add_mset (EnsureDial t i) T \<Longrightarrow> sb_step W S (S\<lparr>sbTasks := T\<rparr>)"
| ensureDialed: "sbTasks S = add_mset (EnsureDial t i) T \<Longrightarrow> newConn c (sb S) = (k, s) \<Longrightarrow>
    sb_step W S (S\<lparr>sb := s, sbTasks := add_mset (EnsureStore t i k) T\<rparr>)"
| ensureStore: "sbTasks S = add_mset (EnsureStore t i k) T \<Longrightarrow>
    sb_step W S (S\<lparr>sb := storeStandby W t i k (sb S), sbTasks := T\<rparr>)"
| acquire: "i < length (pool (sblb (sb S))) \<Longrightarrow> sb_step W S (S\<lparr>sbTasks := add_mset (AcqTake t i) (sbTasks S)\<rparr>)"
| acqNone: "sbTasks S = add_mset (AcqTake t i) T \<Longrightarrow> takeStandby t i (sb S) = (None, s) \<Longrightarrow>
    sb_step W S (S\<lparr>sb := s, sbTasks := add_mset (AcqDial t i) T\<rparr>)"
| acqUDP: "sbTasks S = add_mset (AcqTake False i) T \<Longrightarrow> takeStandby False i (sb S) = (Some k, s) \<Longrightarrow>
    sb_step W S (S\<lparr>sb := handOut k s, sbTasks := T\<rparr>)"
| acqTCP: "sbTasks S = add_mset (AcqTake True i) T \<Longrightarrow> takeStandby True i (sb S) = (Some k, s) \<Longrightarrow>
    sb_step W S (S\<lparr>sb := s, sbTasks := add_mset (AcqCheck i k) T\<rparr>)"
| acqAlive: "sbTasks S = add_mset (AcqCheck i k) T \<Longrightarrow> checkConn W ctxs payload k (sb S) = Some (True, s) \<Longrightarrow>
    sb_step W S (S\<lparr>sb := handOut k s, sbTasks := T\<rparr>)"
| acqDead: "sbTasks S = add_mset (AcqCheck i k) T \<Longrightarrow> checkConn W ctxs payload k (sb S) = Some (False, s) \<Longrightarrow>
    sb_step W S (S\<lparr>sb := closeConn W ''stale-standby'' k s, sbTasks := add_mset (AcqDial True i) T\<rparr>)"
| acqFail: "sbTasks S = add_mset (AcqDial t i) T \<Longrightarrow> sb_step W S (S\<lparr>sbTasks := T\<rparr>)"
| acqDialed: "sbTasks S = add_mset (AcqDial t i) T \<Longrightarrow> newConn c (sb S) = (k, s) \<Longrightarrow>
    sb_step W S (S\<lparr>sb := handOut k s, sbTasks := T\<rparr>)"

definition sb_init :: "LoadBalancer \<Rightarrow> 'c sbSys" where
  "sb_init b =
     \<lparr>sb = \<lparr>sblb = b, conns = [], handedOut = [], closedLog = []\<rparr>, sbTasks = {#}, runner = Waits\<rparr>"

text \<open>
  Where connections are: the slots, the goroutines, the hands of callers, or closed.
\<close>

definition slotConns :: "UpstreamState \<Rightarrow> nat multiset" where
  "slotConns u = (case standbyTCP u of None \<Rightarrow> {#} | Some k \<Rightarrow> {#k#}) +
     (case standbyUDP u of None \<Rightarrow> {#} | Some k \<Rightarrow> {#k#})"

definition poolConns :: "LoadBalancer \<Rightarrow> nat multiset" where
  "poolConns b = sum_list (map slotConns (pool b))"

fun taskConns :: "sbTask \<Rightarrow> nat multiset" where
  "taskConns (EnsureStore t i k) = {#k#}"
| "taskConns (AcqCheck i k) = {#k#}"
| "taskConns _ = {#}"

fun loopConns :: "runLoop \<Rightarrow> nat multiset" where
  "loopConns (KeepCheck k t i q) = {#k#}"
| "loopConns (KeepStore k t i q) = {#k#}"
| "loopConns _ = {#}"

definition inFlightConns :: "'c sbSys \<Rightarrow> nat multiset" where
  "inFlightConns S = (\<Sum>t \<in># sbTasks S. taskConns t) + loopConns (runner S)"

section \<open>The liveness check never succeeds on the program's own connections\<close>

locale data_only =
  fixes W :: "'c wsconn"
  assumes read_type: "ws_Read W ctx c = (Inr (t, d), c') \<Longrightarrow> t = WSMessageText \<or> t = WSMessageBinary"
begin

lemma aliveLoop_False:
  assumes "aliveLoop W ctxs payload j c = Some r"
  shows "\<not> fst r"
proof -
  have "V = W \<longrightarrow> \<not> fst r" if "aliveLoop V ctxs payload j c = Some r" for V
    using that
    by (rule aliveLoop.raw_induct [rotated, where P = "\<lambda>V _ _ _ _ r. V = W \<longrightarrow> \<not> fst r"])
      (fastforce split: prod.splits sum.splits if_splits dest: read_type)
  with assms show ?thesis by blast
qed

lemma alive_False: "wsAliveCheck W ctxs payload c = Some (ok, c') \<Longrightarrow> \<not> ok"
  by (auto simp: wsAliveCheck_def split: prod.splits option.splits dest: aliveLoop_False)

end


interpretation coderData: data_only "coderWS lib"
  by unfold_locales (auto simp: coderWS_def coder_Read_def split: prod.splits sum.splits MessageType.splits)




section \<open>Every connection has one owner\<close>

lemma slotConns_set [simp]:
  "slotConns (setStandby t v u) + (case standbyOf t u of None \<Rightarrow> {#} | Some k \<Rightarrow> {#k#}) =
     slotConns u + (case v of None \<Rightarrow> {#} | Some k \<Rightarrow> {#k#})"
  by (simp add: slotConns_def setStandby_def standbyOf_def)

lemma sum_list_update_mset:
  "i < length xs \<Longrightarrow> sum_list (map f (xs[i := y])) + f (xs ! i) = (sum_list (map f xs) :: 'a multiset) + f y"
proof (induction xs arbitrary: i)
  case Nil
  then show ?case by simp
next
  case (Cons x xs)
  then show ?case by (cases i) (simp_all add: ac_simps)
qed

lemma poolConns_updUp:
  assumes "i < length (pool b)"
  shows "poolConns (updUp i (setStandby t v) b) + (case standbyOf t (pool b ! i) of None \<Rightarrow> {#} | Some k \<Rightarrow> {#k#}) =
    poolConns b + (case v of None \<Rightarrow> {#} | Some k \<Rightarrow> {#k#})"
proof -
  have "poolConns (updUp i (setStandby t v) b) + slotConns (pool b ! i) + (case standbyOf t (pool b ! i) of None \<Rightarrow> {#} | Some k \<Rightarrow> {#k#}) =
      poolConns b + slotConns (setStandby t v (pool b ! i)) + (case standbyOf t (pool b ! i) of None \<Rightarrow> {#} | Some k \<Rightarrow> {#k#})"
    using sum_list_update_mset [OF assms, of slotConns] by (simp add: poolConns_def updUp_def)
  also have "\<dots> = poolConns b + (slotConns (pool b ! i) + (case v of None \<Rightarrow> {#} | Some k \<Rightarrow> {#k#}))"
    by (simp add: add.assoc)
  finally show ?thesis by (simp add: ac_simps)
qed

text \<open>
  \<open>stored s\<close>: connections whose place is part of the state; the lemmas say what each section
  moves.
\<close>

definition stored :: "'c sbState \<Rightarrow> nat multiset" where
  "stored s = poolConns (sblb s) + mset (handedOut s) + mset (closedLog s)"

definition npool :: "'c sbState \<Rightarrow> nat" where
  "npool s = length (pool (sblb s))"

lemma take_None:
  "takeStandby t i s = (None, s') \<Longrightarrow> i < npool s \<Longrightarrow> stored s' = stored s \<and> npool s' = npool s \<and> conns s' = conns s"
  using poolConns_updUp [of i "sblb s" t None] by (auto simp: takeStandby_def stored_def npool_def)

lemma take_Some:
  "takeStandby t i s = (Some k, s') \<Longrightarrow> i < npool s \<Longrightarrow> stored s = add_mset k (stored s') \<and> npool s' = npool s \<and> conns s' = conns s"
  using poolConns_updUp [of i "sblb s" t None] by (auto simp: takeStandby_def stored_def npool_def)

lemma closeConn_stored [simp]:
  "stored (closeConn W r k s) = add_mset k (stored s)" "npool (closeConn W r k s) = npool s"
  "length (conns (closeConn W r k s)) = length (conns s)"
  by (simp_all add: closeConn_def stored_def npool_def)

lemma handOut_stored [simp]:
  "stored (handOut k s) = add_mset k (stored s)" "npool (handOut k s) = npool s" "conns (handOut k s) = conns s"
  by (simp_all add: handOut_def stored_def npool_def)

lemma storeStandby_stored:
  "i < npool s \<Longrightarrow> stored (storeStandby W t i k s) = add_mset k (stored s) \<and> npool (storeStandby W t i k s) = npool s \<and>
     length (conns (storeStandby W t i k s)) = length (conns s)"
  using poolConns_updUp [of i "sblb s" t "Some k"]
  by (auto simp: storeStandby_def putStandby_def) (auto simp: stored_def npool_def)

lemma resetStandby_stored:
  assumes "i < npool s"
  shows "stored (resetStandby W r t i s) = stored s \<and> npool (resetStandby W r t i s) = npool s \<and>
    length (conns (resetStandby W r t i s)) = length (conns s)"
proof (cases "takeStandby t i s")
  case (Pair v s')
  with take_Some [of t i s _ s'] assms show ?thesis
    by (cases v) (simp_all add: resetStandby_def)
qed

lemma shutdownOne_stored:
  "i < npool s \<Longrightarrow> stored (shutdownOne W i s) = stored s \<and> npool (shutdownOne W i s) = npool s \<and>
     length (conns (shutdownOne W i s)) = length (conns s)"
  using resetStandby_stored [of i s W "''shutdown''" True]
    resetStandby_stored [of i "resetStandby W ''shutdown'' True i s" W "''shutdown''" False]
  by (simp add: shutdownOne_def)

lemma checkConn_stored:
  "checkConn W ctxs payload k s = Some (ok, s') \<Longrightarrow> stored s' = stored s \<and> npool s' = npool s \<and>
     length (conns s') = length (conns s)"
  by (auto simp: checkConn_def stored_def npool_def)

lemma newConn_stored:
  "newConn c s = (k, s') \<Longrightarrow> k = length (conns s) \<and> stored s' = stored s \<and> npool s' = npool s \<and>
     length (conns s') = Suc (length (conns s))"
  by (auto simp: newConn_def stored_def npool_def)

lemma sameSlots_stored:
  assumes "sameSlots (sblb s) b"
  shows "stored (s\<lparr>sblb := b\<rparr>) = stored s \<and> npool (s\<lparr>sblb := b\<rparr>) = npool s"
proof -
  have l: "length (pool (sblb s)) = length (pool b)"
    using assms map_eq_imp_length_eq unfolding sameSlots_def by blast
  have "map slotConns (pool (sblb s)) = map slotConns (pool b)"
    using assms l by (auto simp: sameSlots_def slotConns_def list_eq_iff_nth_eq)
  then show ?thesis
    by (simp add: stored_def poolConns_def npool_def l)
qed

fun taskUp :: "sbTask \<Rightarrow> nat" where
  "taskUp (EnsureStart t i) = i"
| "taskUp (EnsureReset t i) = i"
| "taskUp (EnsureTest t i) = i"
| "taskUp (EnsureDial t i) = i"
| "taskUp (EnsureStore t i k) = i"
| "taskUp (AcqTake t i) = i"
| "taskUp (AcqCheck i k) = i"
| "taskUp (AcqDial t i) = i"

fun loopUps :: "runLoop \<Rightarrow> nat list" where
  "loopUps (Keeping q) = map fst q"
| "loopUps (KeepCheck k t i q) = i # map fst q"
| "loopUps (KeepStore k t i q) = i # map fst q"
| "loopUps (Stopping q) = q"
| "loopUps _ = []"

definition sb_inv :: "'c sbSys \<Rightarrow> bool" where
  "sb_inv S \<longleftrightarrow> stored (sb S) + inFlightConns S = mset [0..<length (conns (sb S))] \<and>
     (\<forall>t \<in># sbTasks S. taskUp t < npool (sb S)) \<and> (\<forall>i \<in> set (loopUps (runner S)). i < npool (sb S))"

lemma pickTopN_range: "0 < n \<Longrightarrow> i \<in> set (pickTopN b now n) \<Longrightarrow> i < length (pool b)"
  using topRounds_ok [of "\<lambda>i. scoreOf (Interval (hc b)) now True (pool b ! i)" "[0..<length (pool b)]" "[]"
      "Suc (length (pool b))" n]
  by (auto simp: pickTopN_def topInv_def)

lemma warmTasks_facts:
  "(\<Sum>t \<in># mset (warmTasks is). taskConns t) = {#}" "t \<in> set (warmTasks is) \<Longrightarrow> taskUp t \<in> set is"
  by (induction "is") (auto simp: warmTasks_def)

lemma keepQueue_range: "x \<in> set (keepQueue b) \<Longrightarrow> fst x < length (pool b)"
  by (auto simp: keepQueue_def)

lemma sb_inv_step:
  assumes "sb_step W S S'" and "sb_inv S"
  shows "sb_inv S'"
  using assms
proof (induction rule: sb_step.induct)
  case (tick S ups now)
  with warmTasks_facts(2) [of _ ups] pickTopN_range [of _ _ "sblb (sb S)" now] show ?case
    by (auto simp: sb_inv_def inFlightConns_def npool_def warmTasks_facts(1))
next
  case (keepTick S)
  with keepQueue_range [of _ "sblb (sb S)"] show ?case
    by (auto simp: sb_inv_def inFlightConns_def npool_def)
next
  case (stop S)
  then show ?case
    by (auto simp: sb_inv_def inFlightConns_def npool_def)
next
  case (others S b)
  with sameSlots_stored [of "sb S" b] show ?case
    by (auto simp: sb_inv_def inFlightConns_def)
qed (auto simp: sb_inv_def inFlightConns_def storeStandby_stored resetStandby_stored shutdownOne_stored npool_def [symmetric]
      simp del: mset_upt dest!: take_None take_Some checkConn_stored newConn_stored)

lemma sb_inv_reach:
  assumes "(sb_step W)\<^sup>*\<^sup>* (sb_init (NewLoadBalancer ups h l p mark)) S"
  shows "sb_inv S"
  using assms
proof (induction rule: rtranclp_induct)
  case base
  have "sum_list (map slotConns (map newUpstream ups)) = {#}"
    by (induction ups) (auto simp: slotConns_def newUpstream_def)
  then show ?case
    by (simp add: sb_inv_def sb_init_def stored_def poolConns_def inFlightConns_def NewLoadBalancer_def)
next
  case (step S S')
  then show ?case by (blast intro: sb_inv_step)
qed

lemma distinct_in_upt: "mset xs \<subseteq># mset [0..<n] \<Longrightarrow> distinct xs"
  unfolding distinct_count_atmost_1
proof
  fix a
  assume "mset xs \<subseteq># mset [0..<n]"
  then have "count (mset xs) a \<le> count (mset [0..<n]) a" by (rule mset_subset_eq_count)
  also have "\<dots> \<le> 1" using distinct_count_atmost_1 [of "[0..<n]"] by simp
  finally show "count (mset xs) a = (if a \<in> set xs then 1 else 0)"
    using count_mset_0_iff [of xs a] by (auto simp: le_Suc_eq)
qed

section \<open>Whole operations are runs of the sections\<close>

lemma sb_self [simp]: "S\<lparr>sb := sb S, sbTasks := T\<rparr> = S\<lparr>sbTasks := T\<rparr>"
  by (cases S) simp

lemma dialFresh_run:
  assumes "sbTasks S = add_mset (AcqDial t i) T" and "dialFresh r (sb S) = Some (v, s')"
  shows "sb_step W S (S\<lparr>sb := s', sbTasks := T\<rparr>)"
proof (cases r)
  case (Some x)
  then show ?thesis
  proof (cases x)
    case (Inl e)
    with Some assms sb_step.acqFail [OF assms(1)] show ?thesis by (auto simp: dialFresh_def)
  next
    case (Inr c)
    obtain k s1 where "newConn c (sb S) = (k, s1)" by fastforce
    with Some Inr assms(2) sb_step.acqDialed [OF assms(1) this] show ?thesis by (simp add: dialFresh_def)
  qed
qed (use assms in \<open>simp add: dialFresh_def\<close>)

lemma AcquireUDPWS_run:
  assumes "AcquireUDPWS dial i (sb S) = Some (r, s')" and "i < npool (sb S)"
  shows "(sb_step W)\<^sup>*\<^sup>* S (S\<lparr>sb := s'\<rparr>)"
proof -
  let ?S = "S\<lparr>sbTasks := add_mset (AcqTake False i) (sbTasks S)\<rparr>"
  have start: "(sb_step W)\<^sup>*\<^sup>* S ?S"
    using sb_step.acquire [of i S W False] assms(2) by (simp add: npool_def r_into_rtranclp)
  obtain v s1 where t: "takeStandby False i (sb S) = (v, s1)" by fastforce
  show ?thesis
  proof (cases v)
    case None
    let ?S1 = "S\<lparr>sb := s1, sbTasks := add_mset (AcqDial False i) (sbTasks S)\<rparr>"
    have "sb_step W ?S ?S1"
      using sb_step.acqNone [of ?S False i "sbTasks S" s1 W] t None by simp
    moreover have "sb_step W ?S1 (S\<lparr>sb := s'\<rparr>)"
      using dialFresh_run [of ?S1 False i "sbTasks S" _ r s' W] assms(1) t None by (simp add: AcquireUDPWS_def)
    ultimately show ?thesis using start by (meson rtranclp.rtrancl_into_rtrancl)
  next
    case (Some k)
    have "sb_step W ?S (S\<lparr>sb := s'\<rparr>)"
      using sb_step.acqUDP [of ?S i "sbTasks S" k s1 W] assms(1) t Some by (simp add: AcquireUDPWS_def)
    with start show ?thesis by (rule rtranclp.rtrancl_into_rtrancl)
  qed
qed

lemma acquireTCPWS_run:
  assumes "acquireTCPWS W ctxs payload dial i (sb S) = Some (r, s')" and "i < npool (sb S)"
  shows "(sb_step W)\<^sup>*\<^sup>* S (S\<lparr>sb := s'\<rparr>)"
proof -
  let ?S = "S\<lparr>sbTasks := add_mset (AcqTake True i) (sbTasks S)\<rparr>"
  have start: "(sb_step W)\<^sup>*\<^sup>* S ?S"
    using sb_step.acquire [of i S W True] assms(2) by (simp add: npool_def r_into_rtranclp)
  obtain v s1 where t: "takeStandby True i (sb S) = (v, s1)" by fastforce
  have dial: "(sb_step W)\<^sup>*\<^sup>* S (S\<lparr>sb := s'\<rparr>)"
    if "(sb_step W)\<^sup>*\<^sup>* S (S\<lparr>sb := s2, sbTasks := add_mset (AcqDial True i) (sbTasks S)\<rparr>)"
      and "dialFresh (dial (TCPWSS (cfg (pool (sblb (sb S)) ! i)))) s2 = Some (r, s')" for s2
    using dialFresh_run [of "S\<lparr>sb := s2, sbTasks := add_mset (AcqDial True i) (sbTasks S)\<rparr>" True i "sbTasks S" _ r s' W] that
    by (simp add: rtranclp.rtrancl_into_rtrancl)
  show ?thesis
  proof (cases v)
    case None
    with start t assms(1) sb_step.acqNone [of ?S True i "sbTasks S" s1 W] show ?thesis
      by (intro dial [of s1]) (auto simp: acquireTCPWS_def intro: rtranclp.rtrancl_into_rtrancl)
  next
    case (Some k)
    let ?S1 = "S\<lparr>sb := s1, sbTasks := add_mset (AcqCheck i k) (sbTasks S)\<rparr>"
    have S1: "(sb_step W)\<^sup>*\<^sup>* S ?S1"
      using start sb_step.acqTCP [of ?S i "sbTasks S" k s1 W] t Some by (auto intro: rtranclp.rtrancl_into_rtrancl)
    obtain ok s2 where c: "checkConn W ctxs payload k s1 = Some (ok, s2)"
      using assms(1) t Some by (fastforce simp: acquireTCPWS_def split: option.splits)
    show ?thesis
    proof (cases ok)
      case True
      with S1 c t Some assms(1) sb_step.acqAlive [of ?S1 i k "sbTasks S" W ctxs payload s2] show ?thesis
        by (auto simp: acquireTCPWS_def intro: rtranclp.rtrancl_into_rtrancl)
    next
      case False
      with S1 c t Some assms(1) sb_step.acqDead [of ?S1 i k "sbTasks S" W ctxs payload s2] show ?thesis
        by (intro dial [of "closeConn W ''stale-standby'' k s2"])
          (auto simp: acquireTCPWS_def intro: rtranclp.rtrancl_into_rtrancl)
    qed
  qed
qed

lemma EnsureStandby_run:
  assumes "sbTasks S = add_mset (EnsureStart t i) T"
  shows "(sb_step W)\<^sup>*\<^sup>* S (S\<lparr>sb := EnsureStandby W t now dial i (sb S), sbTasks := T\<rparr>)"
proof -
  let ?u = "pool (sblb (sb S)) ! i"
  let ?S1 = "S\<lparr>sbTasks := add_mset (EnsureTest t i) T\<rparr>" and ?S2 = "S\<lparr>sbTasks := add_mset (EnsureDial t i) T\<rparr>"
  consider (no) "\<not> standbyWanted t now ?u" | (full) "standbyWanted t now ?u" "standbyOf t ?u \<noteq> None"
    | (dials) "standbyWanted t now ?u" "standbyOf t ?u = None"
    by blast
  then show ?thesis
  proof cases
    case no
    with sb_step.ensureNo [OF assms no, of W]
      sb_step.ensureReset [of "S\<lparr>sbTasks := add_mset (EnsureReset t i) T\<rparr>" t i T W]
    show ?thesis by (auto simp: EnsureStandby_def Let_def intro: rtranclp.rtrancl_into_rtrancl)
  next
    case full
    with sb_step.ensureYes [OF assms full(1), of W] sb_step.ensureExists [of ?S1 t i T W]
    show ?thesis by (auto simp: EnsureStandby_def Let_def intro: rtranclp.rtrancl_into_rtrancl)
  next
    case dials
    have S2: "(sb_step W)\<^sup>*\<^sup>* S ?S2"
      using sb_step.ensureYes [OF assms dials(1), of W] sb_step.ensureMissing [of ?S1 t i T W] dials(2)
      by (auto intro: rtranclp.rtrancl_into_rtrancl)
    show ?thesis
    proof (cases "dial (wsDialTimeoutForURL (Timeout (hc (sblb (sb S)))) (probeURL t ?u)) (probeURL t ?u) (fwmark (sblb (sb S)))")
      case (Inl e)
      with S2 dials sb_step.ensureFail [of ?S2 t i T W] show ?thesis
        by (auto simp: EnsureStandby_def Let_def intro: rtranclp.rtrancl_into_rtrancl)
    next
      case (Inr c)
      obtain k s1 where n: "newConn c (sb S) = (k, s1)" by fastforce
      with S2 Inr dials sb_step.ensureDialed [of ?S2 t i T c k s1 W]
        sb_step.ensureStore [of "S\<lparr>sb := s1, sbTasks := add_mset (EnsureStore t i k) T\<rparr>" t i k T W]
      show ?thesis by (auto simp: EnsureStandby_def Let_def intro: rtranclp.rtrancl_into_rtrancl)
    qed
  qed
qed

lemma keepaliveOne_run:
  assumes "runner S = Keeping ((i, t) # q)" and "keepaliveOneStandby W ctxs payload t i (sb S) = Some s'"
  shows "(sb_step W)\<^sup>*\<^sup>* S (S\<lparr>sb := s', runner := Keeping q\<rparr>)"
proof -
  obtain v s1 where t: "takeStandby t i (sb S) = (v, s1)" by fastforce
  show ?thesis
  proof (cases v)
    case None
    with t assms(2) sb_step.keepNone [OF assms(1), of s1 W] show ?thesis
      by (auto simp: keepaliveOneStandby_def)
  next
    case (Some k)
    let ?S1 = "S\<lparr>sb := s1, runner := KeepCheck k t i q\<rparr>"
    obtain ok s2 where c: "checkConn W ctxs payload k s1 = Some (ok, s2)"
      using assms(2) t Some by (fastforce simp: keepaliveOneStandby_def split: option.splits)
    have S1: "sb_step W S ?S1"
      using sb_step.keepTake [OF assms(1), of k s1 W] t Some by simp
    show ?thesis
    proof (cases ok)
      case True
      with S1 c t Some assms(2) sb_step.keepAlive [of ?S1 k t i q W ctxs payload s2]
        sb_step.keepStore [of "S\<lparr>sb := s2, runner := KeepStore k t i q\<rparr>" k t i q W] show ?thesis
        by (auto simp: keepaliveOneStandby_def intro: rtranclp.rtrancl_into_rtrancl)
    next
      case False
      with S1 c t Some assms(2) sb_step.keepDead [of ?S1 k t i q W ctxs payload s2] show ?thesis
        by (auto simp: keepaliveOneStandby_def intro: rtranclp.rtrancl_into_rtrancl)
    qed
  qed
qed

section \<open>Properties\<close>

definition idleConn :: "pipe framedWSConn" where
  "idleConn = newFramedWSConn (Reader [] EOF) \<lparr>pdata = [], pclosed = False\<rparr>"


definition lb_fresh :: LoadBalancer where
  "lb_fresh = NewLoadBalancer (map cfg (pool lb_example)) (hc lb_example) (sel lb_example) (probe lb_example) 0"

definition testWS :: "pipe framedWSConn wsconn" where
  "testWS = framedWS pipe_io (\<lambda>n. Inr [1, 2, 3, 4])"

lemma fresh_acquire:
  obtains s' where "AcquireUDPWS (\<lambda>url. Some (Inr idleConn)) 0 (sb (sb_init lb_fresh)) = Some (Inr 0, s')"
    "handedOut s' = [0]" "length (conns s') = 1" "0 < npool (sb (sb_init lb_fresh) :: pipe framedWSConn sbState)"
proof -
  have "length (pool lb_fresh) = 2" "standbyOf False (pool lb_fresh ! 0) = None"
    using lb_example_plain(2) by (simp_all add: lb_fresh_def NewLoadBalancer_def newUpstream_def standbyOf_def)
  then show thesis
    by (intro that)
      (auto simp: AcquireUDPWS_def takeStandby_def sb_init_def dialFresh_def newConn_def handOut_def npool_def)
qed



text \<open>
  C26. However the goroutines interleave, every connection ever dialled has exactly one owner: it
  is in exactly one slot, or held by exactly one goroutine, or was handed to exactly one caller,
  or was closed exactly once. In particular no connection is closed twice, handed out twice, or
  closed after it was handed out.
\<close>

theorem standby_one_owner:
  assumes "(sb_step W)\<^sup>*\<^sup>* (sb_init (NewLoadBalancer ups h l p mark)) S"
  shows "poolConns (sblb (sb S)) + inFlightConns S + mset (handedOut (sb S)) + mset (closedLog (sb S)) =
      mset [0..<length (conns (sb S))] \<and> distinct (handedOut (sb S) @ closedLog (sb S))"
proof -
  have e: "poolConns (sblb (sb S)) + inFlightConns S + mset (handedOut (sb S)) + mset (closedLog (sb S)) =
      mset [0..<length (conns (sb S))]"
    using sb_inv_reach [OF assms] by (simp add: sb_inv_def stored_def ac_simps del: mset_upt)
  have "mset (handedOut (sb S) @ closedLog (sb S)) \<subseteq># mset [0..<length (conns (sb S))]"
    unfolding e [symmetric] by (simp add: add.assoc)
  with e distinct_in_upt show ?thesis by blast
qed

theorem standby_one_owner_witness:
  "\<exists>S. (sb_step testWS)\<^sup>*\<^sup>* (sb_init lb_fresh) S \<and>
     handedOut (sb S) = [0] \<and> inFlightConns S = {#} \<and> poolConns (sblb (sb S)) = {#}"
proof -
  obtain s1 where a: "AcquireUDPWS (\<lambda>url. Some (Inr idleConn)) 0 (sb (sb_init lb_fresh)) = Some (Inr 0, s1)"
    "handedOut s1 = [0]" "length (conns s1) = 1" "0 < npool (sb (sb_init lb_fresh) :: pipe framedWSConn sbState)"
    by (rule fresh_acquire)
  note r = AcquireUDPWS_run [OF a(1,4), where W = testWS]
  from standby_one_owner [OF r [unfolded lb_fresh_def]] a show ?thesis
    by (intro exI [of _ "(sb_init lb_fresh)\<lparr>sb := s1\<rparr>"] conjI r) (simp_all add: lb_fresh_def)
qed

text \<open>
  The whole operations are runs of the lock sections, so what holds of every run holds of
  them: acquiring a connection, ensuring a standby and one turn of the keepalive loop take the
  system, possibly in several steps, exactly to the state the operation computes.
\<close>

theorem standby_ops_are_runs:
  "(acquireTCPWS W ctxs payload dial i (sb S) = Some (r, s') \<and> i < npool (sb S) \<longrightarrow> (sb_step W)\<^sup>*\<^sup>* S (S\<lparr>sb := s'\<rparr>)) \<and>
   (AcquireUDPWS dial i (sb S) = Some (r, s') \<and> i < npool (sb S) \<longrightarrow> (sb_step W)\<^sup>*\<^sup>* S (S\<lparr>sb := s'\<rparr>)) \<and>
   (sbTasks S = add_mset (EnsureStart t i) T \<longrightarrow>
      (sb_step W)\<^sup>*\<^sup>* S (S\<lparr>sb := EnsureStandby W t now sdial i (sb S), sbTasks := T\<rparr>)) \<and>
   (runner S = Keeping ((i, t) # q) \<and> keepaliveOneStandby W ctxs payload t i (sb S) = Some s' \<longrightarrow>
      (sb_step W)\<^sup>*\<^sup>* S (S\<lparr>sb := s', runner := Keeping q\<rparr>))"
  by (intro conjI impI; (elim conjE)?; (rule acquireTCPWS_run AcquireUDPWS_run EnsureStandby_run keepaliveOne_run; assumption))

theorem standby_ops_are_runs_witness:
  "\<exists>s'. AcquireUDPWS (\<lambda>url. Some (Inr idleConn)) 0 (sb (sb_init lb_fresh)) = Some (Inr 0, s') \<and>
     (sb_step testWS)\<^sup>*\<^sup>* (sb_init lb_fresh) ((sb_init lb_fresh)\<lparr>sb := s'\<rparr>) \<and> handedOut s' = [0]"
proof -
  obtain s1 where a: "AcquireUDPWS (\<lambda>url. Some (Inr idleConn)) 0 (sb (sb_init lb_fresh)) = Some (Inr 0, s1)"
    "handedOut s1 = [0]" "length (conns s1) = 1" "0 < npool (sb (sb_init lb_fresh) :: pipe framedWSConn sbState)"
    by (rule fresh_acquire)
  with standby_ops_are_runs [where dial = "\<lambda>url. Some (Inr idleConn)" and i = 0 and S = "sb_init lb_fresh" and W = testWS]
  show ?thesis by blast
qed

end
