(* ===== verification/Net_Addr.thy ===== *)
theory Net_Addr
  imports Go_Url
begin

text \<open>
  Network addresses as the Go library has them: the text of a \<^verbatim>\<open>net.IP\<close> and of a
  \<^verbatim>\<open>netip.Addr\<close>, \<^verbatim>\<open>net.ParseIP\<close>, \<^verbatim>\<open>IP.To4\<close>,
  \<^verbatim>\<open>strconv.ParseUint\<close> and \<^verbatim>\<open>net.LookupPort\<close> on ports, and the round trips
  between bytes and text that the SOCKS and UDP code relies on. An address is its bytes; where the
  library returns an error nobody looks at, the result is \<open>None\<close>.
\<close>

section \<open>Definitions\<close>

subsection \<open>Printing\<close>

definition v4prefix :: bytes where
  "v4prefix = replicate 10 0 @ [255, 255]"

definition To4 :: "bytes \<Rightarrow> bytes option" where
  "To4 ip = (if length ip = 4 then Some ip
             else if length ip = 16 \<and> take 12 ip = v4prefix then Some (drop 12 ip) else None)"

definition To16 :: "bytes \<Rightarrow> bytes option" where
  "To16 ip = (if length ip = 4 then Some (v4prefix @ ip) else if length ip = 16 then Some ip else None)"

definition dotted :: "bytes \<Rightarrow> string" where
  "dotted ip = join ''.'' (map (\<lambda>b. itoa (unat b)) ip)"

fun groups :: "bytes \<Rightarrow> nat list" where
  "groups (a # b # r) = be_nat [a, b] # groups r"
| "groups _ = []"

text \<open>
  The longest run of at least two zero groups, the first among equals: start and end, or both 255.
\<close>

definition zeroRunAt :: "nat list \<Rightarrow> nat \<Rightarrow> nat" where
  "zeroRunAt gs i = length (takeWhile (\<lambda>g. g = 0) (drop i gs))"

definition zeroRun :: "nat list \<Rightarrow> nat \<times> nat" where
  "zeroRun gs = fold (\<lambda>i (zs, ze). let l = zeroRunAt gs i in if l \<ge> 2 \<and> l > ze - zs then (i, i + l) else (zs, ze))
     [0..<length gs] (255, 255)"

definition text6 :: "bytes \<Rightarrow> string" where
  "text6 ip =
     (let gs = groups ip; (zs, ze) = zeroRun gs
      in if zs = 255 then join '':'' (map hex gs)
         else join '':'' (map hex (take zs gs)) @ ''::'' @ join '':'' (map hex (drop ze gs)))"

definition hexByte :: "byte \<Rightarrow> string" where
  "hexByte b = (if unat b < 16 then ''0'' else []) @ hex (unat b)"

text \<open>\<^verbatim>\<open>IP.String\<close>, and \<^verbatim>\<open>Addr.String\<close> of an address without a zone.\<close>

definition IP_String :: "bytes \<Rightarrow> string" where
  "IP_String ip =
     (if ip = [] then ''<nil>''
      else if length ip \<noteq> 4 \<and> length ip \<noteq> 16 then ''?'' @ concat (map hexByte ip)
      else case To4 ip of Some p4 \<Rightarrow> dotted p4 | None \<Rightarrow> text6 ip)"

definition Addr_String :: "bytes \<Rightarrow> string" where
  "Addr_String ip =
     (if length ip = 4 then dotted ip
      else case To4 ip of Some p4 \<Rightarrow> ''::ffff:'' @ dotted p4 | None \<Rightarrow> text6 ip)"

subsection \<open>Parsing\<close>

definition atoi :: "string \<Rightarrow> nat" where
  "atoi s = foldl (\<lambda>v c. v * 10 + (code c - 48)) 0 s"

definition octet :: "string \<Rightarrow> byte option" where
  "octet s =
     (if s = [] \<or> \<not> list_all isDigit s \<or> (length s > 1 \<and> hd s = CHR ''0'') \<or> atoi s > 255 then None
      else Some (word_of_nat (atoi s)))"

definition parseIPv4 :: "string \<Rightarrow> bytes option" where
  "parseIPv4 s =
     (let fs = map octet (splitChar (CHR ''.'') s)
      in if length fs = 4 \<and> list_all (\<lambda>f. f \<noteq> None) fs then Some (map the fs) else None)"

definition isHex :: "char \<Rightarrow> bool" where
  "isHex c \<longleftrightarrow> unhex c \<noteq> None"

definition hexValue :: "string \<Rightarrow> nat" where
  "hexValue s = foldl (\<lambda>v c. v * 16 + the (unhex c)) 0 s"

text \<open>
  The loop of \<^verbatim>\<open>parseIPv6\<close>: the bytes so far, the position of the ellipsis, and the rest
  of the text.
\<close>

function (sequential) parse6Loop :: "bytes \<Rightarrow> nat option \<Rightarrow> string \<Rightarrow> (bytes \<times> nat option \<times> string) option" where
  "parse6Loop ip e s =
     (if length ip \<ge> 16 then Some (ip, e, s)
      else
        let ds = takeWhile isHex s; rest = dropWhile isHex s
        in if ds = [] \<or> length ds > 4 then None
           else case rest of
             [] \<Rightarrow> Some (ip @ be_bytes 2 (hexValue ds), e, [])
           | c # r \<Rightarrow>
               if c = CHR ''.'' then
                 (if (e = None \<and> length ip \<noteq> 12) \<or> length ip + 4 > 16 then None
                  else map_option (\<lambda>v4. (ip @ v4, e, [])) (parseIPv4 s))
               else if c \<noteq> CHR '':'' \<or> r = [] then None
               else
                 let ip' = ip @ be_bytes 2 (hexValue ds)
                 in if hd r = CHR '':'' then
                      (if e \<noteq> None then None
                       else if tl r = [] then Some (ip', Some (length ip'), [])
                       else parse6Loop ip' (Some (length ip')) (tl r))
                    else parse6Loop ip' e r)"
  by pat_completeness auto
termination
proof (relation "measure (\<lambda>(ip, e, s). length s)")
  have l: "length r < length s" if "dropWhile isHex s = c # r" for s c r
    using that length_dropWhile_le [of isHex s] by simp
  show "((ip', Some (length ip'), tl r), ip, e, s) \<in> measure (\<lambda>(ip, e, s). length s)"
    if "rest = dropWhile isHex s" "rest = c # r" for ip ip' e s rest c r
    using l [of s c r] that by (cases r) auto
  show "((ip', e, r), ip, e, s) \<in> measure (\<lambda>(ip, e, s). length s)"
    if "rest = dropWhile isHex s" "rest = c # r" for ip ip' e s rest c r
    using l [of s c r] that by simp
qed simp

declare parse6Loop.simps [simp del]

definition parse6End :: "bytes \<times> nat option \<times> string \<Rightarrow> bytes option" where
  "parse6End st =
     (case st of (ip, e, s) \<Rightarrow>
        if s \<noteq> [] then None
        else if length ip < 16 then
          (case e of None \<Rightarrow> None | Some k \<Rightarrow> Some (take k ip @ replicate (16 - length ip) 0 @ drop k ip))
        else if e \<noteq> None then None else Some ip)"

definition parseIPv6 :: "string \<Rightarrow> bytes option" where
  "parseIPv6 s =
     (if hasPrefix s ''::'' then
        (if length s = 2 then Some (replicate 16 0)
         else Option.bind (parse6Loop [] (Some 0) (drop 2 s)) parse6End)
      else Option.bind (parse6Loop [] None s) parse6End)"

definition ParseIP :: "string \<Rightarrow> bytes option" where
  "ParseIP s =
     (case dropWhile (\<lambda>c. c \<notin> set ''.:%'') s of
        [] \<Rightarrow> None
      | c # _ \<Rightarrow>
          if c = CHR ''.'' then map_option (\<lambda>v4. v4prefix @ v4) (parseIPv4 s)
          else if c = CHR '':'' \<and> CHR ''%'' \<notin> set s then parseIPv6 s
          else None)"

text \<open>\<^verbatim>\<open>strconv.ParseUint(s, 10, 16)\<close>; base 10 admits digits only.\<close>

definition ParseUint16 :: "string \<Rightarrow> nat option" where
  "ParseUint16 s = (if s = [] \<or> \<not> list_all isDigit s \<or> atoi s \<ge> 2 ^ 16 then None else Some (atoi s))"

text \<open>
  \<^verbatim>\<open>net.LookupPort\<close>: numbers are read directly, saturating at \<open>2 ^ 30\<close>; other names
  are looked up in the system's database, the argument \<open>services\<close>.
\<close>

fun portLoop :: "nat \<Rightarrow> string \<Rightarrow> nat option" where
  "portLoop n [] = Some n"
| "portLoop n (d # s) =
     (if \<not> isDigit d then None
      else if n \<ge> 2 ^ 30 then Some (2 ^ 32 - 1)
      else let nn = n * 10 + (code d - 48) in if nn \<ge> 2 ^ 32 then Some (2 ^ 32 - 1) else portLoop nn s)"

definition LookupPort :: "(string \<Rightarrow> nat option) \<Rightarrow> string \<Rightarrow> nat option" where
  "LookupPort services s =
     (let (neg, ds) = (if hasPrefix s ''+'' then (False, tl s) else if hasPrefix s ''-'' then (True, tl s) else (False, s))
      in if s = [] then Some 0
         else case portLoop 0 ds of
           None \<Rightarrow> services s
         | Some n \<Rightarrow> if (neg \<and> n > 0) \<or> n > 65535 then None else Some n)"

section \<open>Decimal and hexadecimal numbers are read back\<close>

lemma code_char_of [simp]: "n < 256 \<Longrightarrow> code (char_of n) = n"
  by (simp only: code_def of_char_of mod_less)

lemma atoi_snoc: "atoi (s @ [c]) = atoi s * 10 + (code c - 48)"
  by (simp add: atoi_def)

lemma code0: "code CHR ''0'' = 48"
  by (simp add: code_def)

lemma isDigit_char [simp]: "(k :: nat) < 10 \<Longrightarrow> isDigit (char_of (48 + k))"
  by (simp add: isDigit_def)

lemma itoa_all: "atoi (itoa n) = n \<and> list_all isDigit (itoa n) \<and> itoa n \<noteq> [] \<and> (0 < n \<longrightarrow> hd (itoa n) \<noteq> CHR ''0'')"
proof (induction n rule: less_induct)
  case (less n)
  show ?case
  proof (cases "n < 10")
    case True
    then have "n = 0 \<or> char_of (48 + n) \<noteq> CHR ''0''"
      using code_char_of [of "48 + n"] code0 by (cases "char_of (48 + n) = CHR ''0''") auto
    with True show ?thesis by (subst (1 2 3 4) itoa.simps) (auto simp: atoi_def)
  next
    case False
    then have "n div 10 < n" "0 < n div 10" by simp_all
    with less [OF this(1)] False show ?thesis
      by (subst (1 2 3 4) itoa.simps) (simp add: atoi_snoc)
  qed
qed

lemmas itoa_facts = itoa_all [THEN conjunct1] itoa_all [THEN conjunct2, THEN conjunct1]
  itoa_all [THEN conjunct2, THEN conjunct2, THEN conjunct1]

lemma itoa_lead: "0 < n \<Longrightarrow> hd (itoa n) \<noteq> CHR ''0''"
  using itoa_all by blast

lemma itoa_small: "n < 10 \<Longrightarrow> length (itoa n) = 1"
  by (subst itoa.simps) simp

lemma length_itoa: "n < 10 ^ k \<Longrightarrow> 0 < k \<Longrightarrow> length (itoa n) \<le> k"
proof (induction k arbitrary: n)
  case 0
  then show ?case by simp
next
  case (Suc k)
  show ?case
  proof (cases "n < 10")
    case True
    then show ?thesis by (simp add: itoa_small)
  next
    case False
    with Suc.prems have "0 < k" by (cases k) auto
    moreover have "n div 10 < 10 ^ k" using Suc.prems by (simp add: less_mult_imp_div_less mult.commute)
    ultimately show ?thesis
      using Suc.IH [of "n div 10"] False by (subst itoa.simps) simp
  qed
qed

lemma octet_itoa [simp]: "octet (itoa (unat (b :: byte))) = Some b"
proof -
  have "unat b < 256" using unsigned_less [of b, where 'a = nat] by simp
  moreover have "\<not> (length (itoa (unat b)) > 1 \<and> hd (itoa (unat b)) = CHR ''0'')"
    using itoa_lead [of "unat b"] itoa_small [of "unat b"] by (cases "unat b = 0") auto
  ultimately show ?thesis
    using itoa_facts [of "unat b"] by (simp add: octet_def)
qed

lemma digit_chars: "c \<in> set (itoa n) \<Longrightarrow> isDigit c"
  using itoa_facts(2) [of n] by (simp add: list_all_iff)

lemma dot_notin_itoa: "CHR ''.'' \<notin> set (itoa n)" "CHR '':'' \<notin> set (itoa n)" "CHR ''%'' \<notin> set (itoa n)"
  "CHR ''['' \<notin> set (itoa n)" "CHR '']'' \<notin> set (itoa n)"
  by (auto dest!: digit_chars simp: isDigit_def code_def)

lemma parseIPv4_dotted: "length ip = 4 \<Longrightarrow> parseIPv4 (dotted ip) = Some ip"
proof -
  assume l: "length ip = 4"
  have "splitChar (CHR ''.'') (dotted ip) = map (\<lambda>b. itoa (unat b)) ip"
    unfolding dotted_def by (rule splitChar_join) (use l dot_notin_itoa in auto)
  with l show ?thesis
    by (simp add: parseIPv4_def list_all_iff o_def)
qed

lemma hexValue_snoc: "hexValue (s @ [c]) = hexValue s * 16 + the (unhex c)"
  by (simp add: hexValue_def)

definition hexDigit :: "nat \<Rightarrow> char" where
  "hexDigit k = (if k < 10 then char_of (48 + k) else char_of (87 + k))"

lemma hex_rec: "hex n = (if n < 16 then [hexDigit n] else hex (n div 16) @ [hexDigit (n mod 16)])"
  by (subst hex.simps) (simp add: hexDigit_def Let_def)

lemma unhex_hexDigit [simp]: "k < 16 \<Longrightarrow> unhex (hexDigit k) = Some k"
  by (simp add: hexDigit_def unhex_def isDigit_def)

lemma isHex_hexDigit [simp]: "k < 16 \<Longrightarrow> isHex (hexDigit k)"
  by (simp add: isHex_def)

lemma hex_facts: "hexValue (hex n) = n \<and> list_all isHex (hex n) \<and> hex n \<noteq> []"
proof (induction n rule: less_induct)
  case (less n)
  show ?case
  proof (cases "n < 16")
    case True
    then show ?thesis by (subst (1 2 3) hex_rec) (simp add: hexValue_def)
  next
    case False
    then have "n div 16 < n" by simp
    from less [OF this] False show ?thesis
      by (subst (1 2 3) hex_rec) (simp add: hexValue_snoc)
  qed
qed

lemma length_hex: "n < 16 ^ k \<Longrightarrow> 0 < k \<Longrightarrow> length (hex n) \<le> k"
proof (induction k arbitrary: n)
  case 0
  then show ?case by simp
next
  case (Suc k)
  show ?case
  proof (cases "n < 16")
    case True
    then show ?thesis by (subst hex_rec) simp
  next
    case False
    with Suc.prems have "0 < k" by (cases k) auto
    moreover have "n div 16 < 16 ^ k" using Suc.prems by (simp add: less_mult_imp_div_less mult.commute)
    ultimately show ?thesis
      using Suc.IH [of "n div 16"] False by (subst hex_rec) simp
  qed
qed

section \<open>Addresses are read back from their text\<close>

lemma special_not_hex [simp]: "\<not> isHex CHR '':''" "\<not> isHex CHR ''.''" "\<not> isHex CHR ''%''"
  by (simp_all add: isHex_def unhex_def isDigit_def code_def)

lemma hex_scan:
  assumes "r = [] \<or> \<not> isHex (hd r)"
  shows "takeWhile isHex (hex g @ r) = hex g" "dropWhile isHex (hex g @ r) = r"
proof -
  have "\<forall>c \<in> set (hex g). isHex c" using hex_facts by (simp add: list_all_iff)
  then show "takeWhile isHex (hex g @ r) = hex g" "dropWhile isHex (hex g @ r) = r"
    using assms by (cases r; simp add: takeWhile_append2 dropWhile_append2)+
qed

definition bytes6 :: "nat list \<Rightarrow> bytes" where
  "bytes6 gs = concat (map (be_bytes 2) gs)"

lemma length_bytes6 [simp]: "length (bytes6 gs) = 2 * length gs"
  by (induction gs) (simp_all add: bytes6_def)

lemma parse6_group:
  assumes "length ip < 16" and "g < 65536"
  shows "parse6Loop ip e (hex g) = Some (ip @ be_bytes 2 g, e, [])"
    and "r \<noteq> [] \<Longrightarrow> hd r \<noteq> CHR '':'' \<Longrightarrow> parse6Loop ip e (hex g @ CHR '':'' # r) = parse6Loop (ip @ be_bytes 2 g) e r"
    and "parse6Loop ip None (hex g @ ''::'') = Some (ip @ be_bytes 2 g, Some (length ip + 2), [])"
    and "r \<noteq> [] \<Longrightarrow> parse6Loop ip None (hex g @ ''::'' @ r) = parse6Loop (ip @ be_bytes 2 g) (Some (length ip + 2)) r"
proof -
  have h: "length (hex g) \<le> 4" "hexValue (hex g) = g" "hex g \<noteq> []"
    using assms(2) length_hex [of g 4] hex_facts by simp_all
  note step = parse6Loop.simps [of ip _ "hex g @ _"] hex_scan h(2,3)
  show "parse6Loop ip e (hex g) = Some (ip @ be_bytes 2 g, e, [])"
    using h(1) assms(1)
    by (subst parse6Loop.simps) (simp add: hex_scan(1) [of "[]" g, unfolded append_Nil2]
        hex_scan(2) [of "[]" g, unfolded append_Nil2] h(2,3) Let_def)
  show "parse6Loop ip e (hex g @ CHR '':'' # r) = parse6Loop (ip @ be_bytes 2 g) e r" if "r \<noteq> []" "hd r \<noteq> CHR '':''"
    using that h(1) assms(1) by (subst step(1)) (simp add: step(2-) Let_def)
  show "parse6Loop ip None (hex g @ ''::'') = Some (ip @ be_bytes 2 g, Some (length ip + 2), [])"
    using h(1) assms(1) by (subst step(1)) (simp add: step(2-) Let_def)
  show "parse6Loop ip None (hex g @ ''::'' @ r) = parse6Loop (ip @ be_bytes 2 g) (Some (length ip + 2)) r" if "r \<noteq> []"
    using that h(1) assms(1) by (subst step(1)) (simp add: step(2-) Let_def)
qed

lemma join_Cons: "ts \<noteq> [] \<Longrightarrow> join sep (t # ts) = t @ sep @ join sep ts"
  by (cases ts) simp_all

lemma hd_hex: "isHex (hd (hex g @ r))" "hex g @ r \<noteq> []"
  using hex_facts [of g] by (auto simp: hd_append list_all_iff)

lemma hd_join_hex: "gs \<noteq> [] \<Longrightarrow> isHex (hd (join '':'' (map hex gs) @ r)) \<and> join '':'' (map hex gs) \<noteq> []"
  using hd_hex by (cases gs rule: list.exhaust; cases "tl gs") (auto simp: join_Cons)

lemma parse6_groups:
  assumes "gs \<noteq> []" and "length ip + 2 * length gs \<le> 16" and "\<And>g. g \<in> set gs \<Longrightarrow> g < 65536"
  shows "parse6Loop ip e (join '':'' (map hex gs)) = Some (ip @ bytes6 gs, e, [])"
  using assms
proof (induction gs arbitrary: ip)
  case Nil
  then show ?case by simp
next
  case (Cons g gs)
  show ?case
  proof (cases "gs = []")
    case True
    with Cons.prems show ?thesis by (simp add: parse6_group bytes6_def)
  next
    case False
    have "hd (join '':'' (map hex gs)) \<noteq> CHR '':''" "join '':'' (map hex gs) \<noteq> []"
      using hd_join_hex [OF False, of "[]"] by auto
    with False Cons show ?thesis
      by (simp add: join_Cons parse6_group(2) bytes6_def)
  qed
qed

lemma parse6_ellipsis:
  assumes "gs \<noteq> []" and "length ip + 2 * length gs + 2 * length hs < 16"
    and "\<And>g. g \<in> set gs \<union> set hs \<Longrightarrow> g < 65536"
  shows "parse6Loop ip None (join '':'' (map hex gs) @ ''::'' @ join '':'' (map hex hs)) =
    Some (ip @ bytes6 gs @ bytes6 hs, Some (length ip + 2 * length gs), [])"
  using assms
proof (induction gs arbitrary: ip)
  case Nil
  then show ?case by simp
next
  case (Cons g gs)
  show ?case
  proof (cases "gs = []")
    case True
    show ?thesis
    proof (cases "hs = []")
      case hs: True
      with True Cons.prems show ?thesis by (simp add: parse6_group(3) bytes6_def)
    next
      case False
      have "join '':'' (map hex hs) \<noteq> []" using hd_join_hex [OF False] by blast
      with True False Cons.prems parse6_group(4) [of ip g "join '':'' (map hex hs)"]
        parse6_groups [of hs "ip @ be_bytes 2 g" "Some (length ip + 2)"]
      show ?thesis by (simp add: bytes6_def)
    qed
  next
    case False
    have "hd (join '':'' (map hex gs) @ ''::'' @ join '':'' (map hex hs)) \<noteq> CHR '':''" "join '':'' (map hex gs) \<noteq> []"
      using hd_join_hex [OF False, of "''::'' @ join '':'' (map hex hs)"] special_not_hex(1) by metis+
    with False Cons parse6_group(2) [of ip g "join '':'' (map hex gs) @ ''::'' @ join '':'' (map hex hs)" None] show ?thesis
      by (simp add: join_Cons bytes6_def)
  qed
qed

lemma be_bytes_2: "be_bytes 2 v = [word_of_nat (v div 256), word_of_nat v]"
  by (simp add: numeral_2_eq_2)

lemma be_bytes_pair: "be_bytes 2 (be_nat [a, b]) = [a, b]"
proof -
  have "unat a < 256" "unat b < 256"
    using unsigned_less [of a, where 'a = nat] unsigned_less [of b, where 'a = nat] by simp_all
  moreover have "a * 256 = 0"
  proof -
    have "(256 :: byte) = 0" by simp
    then show ?thesis by (simp only: mult_zero_right)
  qed
  ultimately show ?thesis
    by (simp add: be_bytes_2 be_nat_Cons)
qed

lemma bytes6_groups: "even (length ip) \<Longrightarrow> bytes6 (groups ip) = ip"
proof (induction ip rule: groups.induct)
  case (1 a b r)
  then show ?case by (simp add: bytes6_def be_bytes_pair)
qed (auto simp: bytes6_def)

lemma length_groups: "length (groups ip) = length ip div 2"
  by (induction ip rule: groups.induct) auto

lemma groups_less: "g \<in> set (groups ip) \<Longrightarrow> g < 65536"
proof (induction ip rule: groups.induct)
  case (1 a b r)
  have "be_nat [a, b] < 65536" using be_nat_less [of "[a, b]"] by simp
  with 1 show ?case by auto
qed auto

lemma bytes6_Nil [simp]: "bytes6 [] = []"
  by (simp add: bytes6_def)

lemma bytes6_append: "bytes6 (xs @ ys) = bytes6 xs @ bytes6 ys"
  by (simp add: bytes6_def)

lemma bytes6_zeros: "bytes6 (replicate n 0) = replicate (2 * n) 0"
  by (induction n) (simp_all add: bytes6_def numeral_2_eq_2)

definition isRun :: "nat list \<Rightarrow> nat \<times> nat \<Rightarrow> bool" where
  "isRun gs z \<longleftrightarrow> z = (255, 255) \<or>
     (case z of (zs, ze) \<Rightarrow> zs < ze \<and> ze \<le> length gs \<and> take (ze - zs) (drop zs gs) = replicate (ze - zs) 0)"

lemma zeroRun_isRun: "isRun gs (zeroRun gs)"
proof -
  have at: "isRun gs (i, i + zeroRunAt gs i)" if "i < length gs" "zeroRunAt gs i \<ge> 2" for i
  proof -
    have "zeroRunAt gs i \<le> length (drop i gs)"
      unfolding zeroRunAt_def by (rule length_takeWhile_le)
    moreover have "take (zeroRunAt gs i) (drop i gs) = takeWhile (\<lambda>g. g = 0) (drop i gs)"
      unfolding zeroRunAt_def by (rule takeWhile_eq_take [symmetric])
    moreover have "takeWhile (\<lambda>g. g = 0) (drop i gs) = replicate (zeroRunAt gs i) 0"
      unfolding zeroRunAt_def by (intro replicate_eqI) (auto dest: set_takeWhileD)
    ultimately show ?thesis using that by (auto simp: isRun_def)
  qed
  have f: "isRun gs (fold (\<lambda>i (zs, ze). let l = zeroRunAt gs i in if l \<ge> 2 \<and> l > ze - zs then (i, i + l) else (zs, ze)) is z)"
    if "isRun gs z" "set is \<subseteq> {..<length gs}" for "is" z
    using that by (induction "is" arbitrary: z) (auto simp: Let_def at)
  have "isRun gs (255, 255)" by (simp add: isRun_def)
  then show ?thesis
    unfolding zeroRun_def by (rule f) auto
qed

lemma parseIPv6_text6:
  assumes "length ip = 16"
  shows "parseIPv6 (text6 ip) = Some ip"
proof -
  define gs where "gs = groups ip"
  have gs: "length gs = 8" "bytes6 gs = ip" "\<And>g. g \<in> set gs \<Longrightarrow> g < 65536"
    using assms by (simp_all add: gs_def length_groups bytes6_groups groups_less)
  then have ne: "gs \<noteq> []" by auto
  have pre: "\<not> hasPrefix (join '':'' (map hex hs) @ r) ''::''" if "hs \<noteq> []" for hs r
    using hd_join_hex [OF that, of r] special_not_hex(1)
    by (cases "join '':'' (map hex hs)") (auto split: list.splits)
  obtain zs ze where z: "zeroRun gs = (zs, ze)" by fastforce
  show ?thesis
  proof (cases "zs = 255")
    case True
    with gs z pre [OF ne, of "[]"] parse6_groups [OF ne, of "[]" None] assms show ?thesis
      by (simp add: text6_def gs_def [symmetric] parseIPv6_def parse6End_def)
  next
    case False
    then have run: "zs < ze" "ze \<le> 8" "take (ze - zs) (drop zs gs) = replicate (ze - zs) 0"
      using zeroRun_isRun [of gs] z gs(1) by (auto simp: isRun_def)
    let ?a = "take zs gs" and ?b = "drop ze gs"
    have "gs = ?a @ replicate (ze - zs) 0 @ ?b"
      using run by (metis append_take_drop_id drop_drop le_add_diff_inverse2 less_imp_le)
    then have ip: "ip = bytes6 ?a @ replicate (2 * (ze - zs)) 0 @ bytes6 ?b"
      using gs(2) bytes6_zeros by (metis bytes6_append)
    have shown: "text6 ip = join '':'' (map hex ?a) @ ''::'' @ join '':'' (map hex ?b)"
      using False z by (simp add: text6_def gs_def [symmetric])
    have lens: "length ?a = zs" "length ?b = 8 - ze" using run gs(1) by simp_all
    have less: "g < 65536" if "g \<in> set ?a \<union> set ?b" for g
      using that gs(3) by (auto dest: in_set_takeD in_set_dropD)
    show ?thesis
    proof (cases "zs = 0")
      case True
      show ?thesis
      proof (cases "ze = 8")
        case full: True
        with True shown ip gs(1) show ?thesis by (simp add: parseIPv6_def bytes6_def)
      next
        case False
        with run gs(1) have b: "?b \<noteq> []" by simp
        have "16 - 2 * (8 - ze) = 2 * ze" using run by simp
        with b hd_join_hex [OF b] parse6_groups [OF b, of "[]" "Some 0"] lens less True shown ip run False show ?thesis
          by (simp add: parseIPv6_def parse6End_def)
      qed
    next
      case zs: False
      with run gs(1) have a: "?a \<noteq> []" by auto
      have "parse6Loop [] None (text6 ip) = Some (bytes6 ?a @ bytes6 ?b, Some (2 * zs), [])"
        using parse6_ellipsis [OF a, of "[]" ?b] lens less run shown by simp
      moreover have "\<not> hasPrefix (text6 ip) ''::''" using pre [OF a] shown by simp
      moreover have "2 * zs + 2 * (8 - ze) < 16" "16 - (2 * zs + 2 * (8 - ze)) = 2 * (ze - zs)" using run by auto
      ultimately show ?thesis
        using lens run ip by (simp add: parseIPv6_def parse6End_def)
    qed
  qed
qed

lemma set_join: "c \<in> set (join '':'' ss) \<Longrightarrow> c = CHR '':'' \<or> (\<exists>s \<in> set ss. c \<in> set s)"
  by (induction "'':''" ss rule: join.induct) auto

lemma set_hex: "c \<in> set (hex n) \<Longrightarrow> isHex c"
  using hex_facts [of n] by (simp add: list_all_iff)

lemma colon_join: "2 \<le> length ss \<Longrightarrow> CHR '':'' \<in> set (join '':'' ss)"
  by (cases ss; cases "tl ss") (auto simp: join_Cons)

lemma text6_chars:
  assumes "length ip = 16"
  shows "c \<in> set (text6 ip) \<Longrightarrow> c = CHR '':'' \<or> isHex c" and "CHR '':'' \<in> set (text6 ip)"
proof -
  show "c = CHR '':'' \<or> isHex c" if "c \<in> set (text6 ip)"
    using that by (auto simp: text6_def Let_def split: if_splits prod.splits dest!: set_join set_hex)
  show "CHR '':'' \<in> set (text6 ip)"
    using assms colon_join [of "map hex (groups ip)"]
    by (cases "zeroRun (groups ip)") (simp add: text6_def Let_def length_groups)
qed

lemma ParseIP_dispatch:
  assumes "list_all (\<lambda>c. c \<notin> set ''.:%'') a" and "c \<in> set ''.:''" and "CHR ''%'' \<notin> set r"
  shows "ParseIP (a @ c # r) =
    (if c = CHR ''.'' then map_option (\<lambda>v4. v4prefix @ v4) (parseIPv4 (a @ c # r)) else parseIPv6 (a @ c # r))"
proof -
  have a: "\<forall>x \<in> set a. x \<notin> set ''.:%''" using assms(1) by (simp only: list_all_iff)
  then have "dropWhile (\<lambda>c. c \<notin> set ''.:%'') (a @ c # r) = c # r"
    using assms(2) by (subst dropWhile_append2) auto
  with a assms(2,3) show ?thesis
    unfolding ParseIP_def by auto
qed

lemma ParseIP_dotted:
  assumes "length ip = 4"
  shows "ParseIP (dotted ip) = Some (v4prefix @ ip)"
proof -
  from assms obtain a b c d where ip: "ip = [a, b, c, d]"
    by (auto simp: length_Suc_conv numeral_eq_Suc)
  have "ParseIP (dotted ip) = map_option (\<lambda>v4. v4prefix @ v4) (parseIPv4 (dotted ip))"
    using ParseIP_dispatch [of "itoa (unat a)" "CHR ''.''" "itoa (unat b) @ ''.'' @ itoa (unat c) @ ''.'' @ itoa (unat d)"]
      dot_notin_itoa by (auto simp: ip dotted_def list_all_iff)
  with parseIPv4_dotted [OF assms] show ?thesis by simp
qed

lemma ParseIP_text6:
  assumes "length ip = 16"
  shows "ParseIP (text6 ip) = Some ip"
proof -
  note ch = text6_chars [OF assms]
  obtain a r where t: "text6 ip = a @ CHR '':'' # r" "CHR '':'' \<notin> set a"
    using split_list_first [OF ch(2)] by blast
  have h: "c = CHR '':'' \<or> isHex c" if "c \<in> set a \<or> c \<in> set r" for c
    using ch(1) [of c] that unfolding t(1) by auto
  have "c \<notin> set ''.:%''" if "c \<in> set a" for c
    using h [of c] t(2) that special_not_hex by (cases "c = CHR '':''") auto
  moreover have "CHR ''%'' \<notin> set r"
    using h [of "CHR ''%''"] special_not_hex by auto
  ultimately have "list_all (\<lambda>c. c \<notin> set ''.:%'') a" "CHR ''%'' \<notin> set r"
    unfolding list_all_iff by blast+
  with ParseIP_dispatch [of a "CHR '':''" r] t parseIPv6_text6 [OF assms] show ?thesis by simp
qed

text \<open>The two round trips: every address of 4 or 16 bytes is read back from either text.\<close>

lemma ParseIP_IP_String: "length ip = 4 \<or> length ip = 16 \<Longrightarrow> ParseIP (IP_String ip) = To16 ip"
proof (cases "To4 ip")
  case (Some p4)
  assume "length ip = 4 \<or> length ip = 16"
  with Some have "ip \<noteq> []" "length p4 = 4" "To16 ip = Some (v4prefix @ p4)"
    by (auto simp: To4_def To16_def split: if_splits) (metis append_take_drop_id)
  then show ?thesis
    using Some ParseIP_dotted \<open>length ip = 4 \<or> length ip = 16\<close> by (auto simp: IP_String_def)
next
  case None
  assume "length ip = 4 \<or> length ip = 16"
  with None have "length ip = 16" by (auto simp: To4_def)
  with None ParseIP_text6 show ?thesis by (auto simp: IP_String_def To16_def)
qed

lemma parse6_v4:
  assumes "length ip + 4 \<le> 16" and "length v4 = 4"
  shows "parse6Loop ip (Some k) (dotted v4) = Some (ip @ v4, Some k, [])"
proof -
  from assms(2) obtain a b c d where v4: "v4 = [a, b, c, d]"
    by (auto simp: length_Suc_conv numeral_eq_Suc)
  let ?r = "itoa (unat b) @ ''.'' @ itoa (unat c) @ ''.'' @ itoa (unat d)"
  have t: "dotted v4 = itoa (unat a) @ CHR ''.'' # ?r"
    by (simp add: v4 dotted_def)
  have "isHex c" if "c \<in> set (itoa (unat a))" for c
    using digit_chars [OF that] by (simp add: isHex_def unhex_def)
  then have s: "takeWhile isHex (dotted v4) = itoa (unat a)" "dropWhile isHex (dotted v4) = CHR ''.'' # ?r"
    unfolding t by (simp_all add: takeWhile_append2 dropWhile_append2)
  have "unat a < 256" using unsigned_less [of a, where 'a = nat] by simp
  then have "length (itoa (unat a)) \<le> 4"
    using length_itoa [of "unat a" 4] by simp
  with assms s parseIPv4_dotted [OF assms(2)] itoa_facts(3) show ?thesis
    by (subst parse6Loop.simps) simp
qed

lemma hd_itoa: "hd (itoa n) \<noteq> CHR '':''"
  using dot_notin_itoa(2) itoa_facts(3) hd_in_set by metis

lemma ParseIP_mapped:
  assumes "length v4 = 4"
  shows "ParseIP (''::ffff:'' @ dotted v4) = Some (v4prefix @ v4)"
proof -
  have "hex 15 = [hexDigit 15]" "hex 255 = hex 15 @ [hexDigit 15]" "hex 4095 = hex 255 @ [hexDigit 15]"
    "hex 65535 = hex 4095 @ [hexDigit 15]"
    by (subst hex_rec, simp)+
  moreover have "hexDigit 15 = CHR ''f''" by code_simp
  ultimately have f: "hex 65535 = ''ffff''" by simp
  have d: "dotted v4 \<noteq> []" "hd (dotted v4) \<noteq> CHR '':''" "CHR ''%'' \<notin> set (dotted v4)"
    using assms dot_notin_itoa itoa_facts(3) hd_itoa
    by (auto simp: length_Suc_conv numeral_eq_Suc dotted_def hd_append split: if_splits)
  have "parse6Loop [] (Some 0) (''ffff:'' @ dotted v4) = Some (be_bytes 2 65535 @ v4, Some 0, [])"
    using parse6_group(2) [of "[]" 65535 "dotted v4" "Some 0"] parse6_v4 [of "be_bytes 2 65535" v4 0] d assms f by simp
  moreover have "be_bytes 2 65535 = [255, 255]" by (simp add: be_bytes_2)
  ultimately show ?thesis
    using ParseIP_dispatch [of "[]" "CHR '':''" "'':ffff:'' @ dotted v4"] d(3) assms
    by (simp add: parseIPv6_def parse6End_def v4prefix_def)
qed

lemma ParseIP_Addr_String: "length ip = 4 \<or> length ip = 16 \<Longrightarrow> ParseIP (Addr_String ip) = To16 ip"
proof (cases "To4 ip")
  case (Some p4)
  assume l: "length ip = 4 \<or> length ip = 16"
  with Some have "length p4 = 4" "To16 ip = Some (v4prefix @ p4)" "length ip = 4 \<Longrightarrow> p4 = ip"
    by (auto simp: To4_def To16_def split: if_splits) (metis append_take_drop_id)
  then show ?thesis
    using Some ParseIP_dotted ParseIP_mapped by (simp add: Addr_String_def)
next
  case None
  assume "length ip = 4 \<or> length ip = 16"
  with None have "length ip = 16" by (auto simp: To4_def)
  with None ParseIP_text6 show ?thesis by (auto simp: Addr_String_def To16_def)
qed

section \<open>Host and port\<close>

lemma atLast_append: "c \<notin> set b \<Longrightarrow> atLast c (a @ c # b) = Some (a, c # b)"
proof -
  assume "c \<notin> set b"
  then have "\<forall>x \<in> set (rev b). x \<noteq> c" by auto
  then have "takeWhile (\<lambda>x. x \<noteq> c) (rev b @ c # rev a) = rev b" "dropWhile (\<lambda>x. x \<noteq> c) (rev b @ c # rev a) = c # rev a"
    using takeWhile_append2 [of "rev b" "\<lambda>x. x \<noteq> c" "c # rev a"] dropWhile_append2 [of "rev b" "\<lambda>x. x \<noteq> c" "c # rev a"]
    by auto
  then show ?thesis by (simp add: atLast_def)
qed

definition plainHost :: "string \<Rightarrow> bool" where
  "plainHost h \<longleftrightarrow> CHR ''['' \<notin> set h \<and> CHR '']'' \<notin> set h"

lemma splitHostPort_join:
  assumes "plainHost h" and "plainHost p" and "CHR '':'' \<notin> set p"
  shows "splitHostPort (joinHostPort h p) = Inr (h, p)"
proof (cases "CHR '':'' \<in> set h")
  case True
  have "atLast (CHR '':'') (''['' @ h @ '']:'' @ p) = Some (''['' @ h @ '']'', CHR '':'' # p)"
    using atLast_append [of "CHR '':''" p "''['' @ h @ '']''"] assms(3) by simp
  moreover have "cutChar (CHR '']'') (''['' @ h @ '']:'' @ p) = Some (''['' @ h, CHR '':'' # p)"
    using cutChar_append [of "CHR '']''" "''['' @ h" "CHR '':'' # p"] assms(1) by (simp add: plainHost_def)
  ultimately show ?thesis
    using True assms by (simp add: joinHostPort_def splitHostPort_def plainHost_def)
next
  case False
  have "atLast (CHR '':'') (h @ '':'' @ p) = Some (h, CHR '':'' # p)"
    using atLast_append [of "CHR '':''" p h] assms(3) by simp
  moreover have "\<not> hasPrefix (h @ '':'' @ p) ''[''"
    using assms(1) by (cases h) (auto simp: plainHost_def)
  ultimately show ?thesis
    using False assms by (simp add: joinHostPort_def splitHostPort_def plainHost_def)
qed

lemma plainHost_itoa: "plainHost (itoa n)" "CHR '':'' \<notin> set (itoa n)"
  using dot_notin_itoa by (simp_all add: plainHost_def)

lemma ParseUint16_itoa: "n < 2 ^ 16 \<Longrightarrow> ParseUint16 (itoa n) = Some n"
  using itoa_facts [of n] by (simp add: ParseUint16_def)

lemma plainHost_dotted: "length ip = 4 \<Longrightarrow> plainHost (dotted ip)"
  using dot_notin_itoa by (auto simp: plainHost_def dotted_def length_Suc_conv numeral_eq_Suc)

lemma brackets_not_hex: "\<not> isHex CHR ''[''" "\<not> isHex CHR '']''"
  by (simp_all add: isHex_def unhex_def isDigit_def code_def)

lemma plainHost_addr:
  assumes "length ip = 4 \<or> length ip = 16"
  shows "plainHost (IP_String ip)" and "plainHost (Addr_String ip)"
proof -
  have "plainHost (IP_String ip) \<and> plainHost (Addr_String ip)"
  proof (cases "To4 ip")
    case None
    with assms have l: "length ip = 16" by (auto simp: To4_def)
    then have "plainHost (text6 ip)"
      using text6_chars(1) [OF l] brackets_not_hex by (auto simp: plainHost_def)
    moreover have "ip \<noteq> []" using l by auto
    ultimately show ?thesis using None l by (simp add: IP_String_def Addr_String_def)
  next
    case (Some p4)
    then have "length p4 = 4" "length ip = 4 \<Longrightarrow> ip = p4" by (auto simp: To4_def split: if_splits)
    then have "plainHost (dotted p4)" "plainHost (''::ffff:'' @ dotted p4)" "length ip = 4 \<Longrightarrow> ip = p4"
      using plainHost_dotted [of p4] by (simp_all add: plainHost_def)
    moreover have "ip \<noteq> []" using assms by auto
    ultimately show ?thesis using Some assms by (elim disjE) (simp_all add: IP_String_def Addr_String_def)
  qed
  then show "plainHost (IP_String ip)" "plainHost (Addr_String ip)" by blast+
qed

end
