(* ===== verification/Socks.thy ===== *)
theory Socks
  imports Net_Addr Stream_IO
begin

text \<open>
  SOCKS5 messages: the address format (\<^verbatim>\<open>internal/socksaddr.go\<close>), the handshake, request and
  reply of \<^verbatim>\<open>internal/socks5.go\<close>, and the datagrams of a UDP association
  (\<^verbatim>\<open>internal/outline_udp.go\<close>). The client connection is a reader for its input and a
  state its writes go to through the argument \<open>wr\<close>. After a read error the connection is given
  up, so the reader is then left as it was. \<^verbatim>\<open>socks.ParseAddr\<close> of the Shadowsocks
  library is the argument \<open>parseAddr\<close>, the system's table of services the argument
  \<open>services\<close>.
\<close>

section \<open>Definitions\<close>

subsection \<open>Addresses\<close>

definition addrEnd :: "bytes \<Rightarrow> string \<Rightarrow> nat \<Rightarrow> err + string \<times> string \<times> nat" where
  "addrEnd b host off = Inr (host, itoa (be_nat (take 2 (drop off b))), off + 2)"

definition parseSocksAddrAt :: "bytes \<Rightarrow> nat \<Rightarrow> err + string \<times> string \<times> nat" where
  "parseSocksAddrAt b off =
     (if length b < off + 1 then Inl (Msg ''short'')
      else let atyp = b ! off; off = off + 1
           in if atyp = 0x01 then
                (if length b < off + 4 + 2 then Inl (Msg ''short ipv4'')
                 else addrEnd b (IP_String (take 4 (drop off b))) (off + 4))
              else if atyp = 0x03 then
                (if length b < off + 1 then Inl (Msg ''short domain len'')
                 else let l = unat (b ! off); off = off + 1
                      in if length b < off + l + 2 then Inl (Msg ''short domain'')
                         else addrEnd b (string_of (take l (drop off b))) (off + l))
              else if atyp = 0x04 then
                (if length b < off + 16 + 2 then Inl (Msg ''short ipv6'')
                 else addrEnd b (IP_String (take 16 (drop off b))) (off + 16))
              else Inl (Msg ''bad atyp''))"

definition parseSocksAddrFromPlain :: "bytes \<Rightarrow> err + string \<times> string \<times> nat" where
  "parseSocksAddrFromPlain plain = parseSocksAddrAt plain 0"

definition readHost :: "byte \<Rightarrow> reader \<Rightarrow> err + string \<times> reader" where
  "readHost atyp r =
     (if atyp = 0x01 then bindE (readFull 4 r) (\<lambda>(b, r). Inr (IP_String b, r))
      else if atyp = 0x03 then
        bindE (readFull 1 r) (\<lambda>(l, r). bindE (readFull (unat (l ! 0)) r) (\<lambda>(b, r). Inr (string_of b, r)))
      else if atyp = 0x04 then bindE (readFull 16 r) (\<lambda>(b, r). Inr (IP_String b, r))
      else Inl (Msg ''bad atyp''))"

definition readAddrPort :: "byte \<Rightarrow> reader \<Rightarrow> err + (string \<times> string) \<times> reader" where
  "readAddrPort atyp r =
     bindE (readHost atyp r) (\<lambda>(host, r).
     bindE (readFull 2 r) (\<lambda>(pb, r). Inr ((host, itoa (be_nat pb)), r)))"

subsection \<open>Handshake, request, reply\<close>

record 's client =
  crd :: reader
  cst :: 's

type_synonym 's wfun = "'s \<Rightarrow> bytes \<Rightarrow> (int \<times> err option) \<times> 's"

definition clientWrite :: "'s wfun \<Rightarrow> bytes \<Rightarrow> 's client \<Rightarrow> err option \<times> 's client" where
  "clientWrite wr b c = (case wr (cst c) b of ((n, e), s) \<Rightarrow> (e, c\<lparr>cst := s\<rparr>))"

definition socks5Handshake :: "'s wfun \<Rightarrow> 's client \<Rightarrow> err option \<times> 's client" where
  "socks5Handshake wr c =
     (case readFull 2 (crd c) of
        Inl e \<Rightarrow> (Some e, c)
      | Inr (h, r) \<Rightarrow>
          if h ! 0 \<noteq> 0x05 then (Some (Msg ''not socks5''), c\<lparr>crd := r\<rparr>)
          else case readFull (unat (h ! 1)) r of
            Inl e \<Rightarrow> (Some e, c\<lparr>crd := r\<rparr>)
          | Inr (m, r) \<Rightarrow>
              if 0x00 \<in> set m then clientWrite wr [0x05, 0x00] (c\<lparr>crd := r\<rparr>)
              else (Some (Msg ''no acceptable auth method''), snd (clientWrite wr [0x05, 0xFF] (c\<lparr>crd := r\<rparr>))))"

definition socks5ReadRequest :: "'s client \<Rightarrow> (err + byte \<times> string) \<times> 's client" where
  "socks5ReadRequest c =
     (case readFull 4 (crd c) of
        Inl e \<Rightarrow> (Inl e, c)
      | Inr (h, r) \<Rightarrow>
          if h ! 0 \<noteq> 0x05 then (Inl (Msg ''bad ver''), c\<lparr>crd := r\<rparr>)
          else case readAddrPort (h ! 3) r of
            Inl e \<Rightarrow> (Inl e, c\<lparr>crd := r\<rparr>)
          | Inr ((host, port), r) \<Rightarrow> (Inr (h ! 1, joinHostPort host port), c\<lparr>crd := r\<rparr>))"

definition replyBytes :: "(string \<Rightarrow> nat option) \<Rightarrow> byte \<Rightarrow> string \<Rightarrow> bytes" where
  "replyBytes services rep bind =
     (let (host, portStr) = (case splitHostPort bind of Inl e \<Rightarrow> (''0.0.0.0'', ''0'') | Inr hp \<Rightarrow> hp);
          port = (case LookupPort services portStr of Some p \<Rightarrow> p | None \<Rightarrow> 0);
          (atyp, addr) = (case ParseIP host of
              Some ip \<Rightarrow> (case To4 ip of Some ip4 \<Rightarrow> (0x01, ip4) | None \<Rightarrow> (0x04, ip))
            | None \<Rightarrow> (0x03, word_of_nat (length host) # bytes_of host))
      in [0x05, rep, 0x00, atyp] @ addr @ be_bytes 2 port)"

definition socks5Reply ::
  "(string \<Rightarrow> nat option) \<Rightarrow> 's wfun \<Rightarrow> byte \<Rightarrow> string \<Rightarrow> 's client \<Rightarrow> err option \<times> 's client" where
  "socks5Reply services wr rep bind c = clientWrite wr (replyBytes services rep bind) c"

subsection \<open>UDP association\<close>

text \<open>
  \<open>sentUp\<close> are the plaintexts given to the encrypting packet connection, \<open>sentDown\<close> the
  datagrams written to the SOCKS client, oldest first. A peer address is a host and a port.
\<close>

record UDPAssociation =
  peerUDP :: "(string \<times> nat) option"
  sentUp :: "bytes list"
  sentDown :: "((string \<times> nat) \<times> bytes) list"

text \<open>
  One turn of \<^verbatim>\<open>readFromClientLoop\<close> for the datagram \<open>pkt\<close> from \<open>addr\<close>;
  \<open>encErr\<close> is what \<^verbatim>\<open>enc.WriteTo\<close> returns. The first result says whether the loop goes
  on.
\<close>

definition learnPeer :: "string \<times> nat \<Rightarrow> UDPAssociation \<Rightarrow> UDPAssociation" where
  "learnPeer addr a = (if peerUDP a = None then a\<lparr>peerUDP := Some addr\<rparr> else a)"

definition fromClient ::
  "(string \<Rightarrow> bytes option) \<Rightarrow> err option \<Rightarrow> string \<times> nat \<Rightarrow> bytes \<Rightarrow> UDPAssociation \<Rightarrow> bool \<times> UDPAssociation" where
  "fromClient parseAddr encErr addr pkt a =
     (if length pkt < 4 + 2 + 2 then (True, a)
      else let a = learnPeer addr a
           in if pkt ! 0 \<noteq> 0 \<or> pkt ! 1 \<noteq> 0 then (True, a)
              else if pkt ! 2 \<noteq> 0 then (True, a)
              else case parseSocksAddrAt pkt 3 of
                Inl e \<Rightarrow> (True, a)
              | Inr (dstHost, dstPort, off) \<Rightarrow>
                  (case parseAddr (joinHostPort dstHost dstPort) of
                     None \<Rightarrow> (True, a)
                   | Some ssAddr \<Rightarrow> (encErr = None, a\<lparr>sentUp := sentUp a @ [ssAddr @ drop off pkt]\<rparr>)))"

text \<open>One turn of \<^verbatim>\<open>readFromUpstreamLoop\<close> for the plaintext \<open>plain\<close>.\<close>

definition fromUpstream :: "bytes \<Rightarrow> UDPAssociation \<Rightarrow> UDPAssociation" where
  "fromUpstream plain a =
     (case parseSocksAddrFromPlain plain of
        Inl e \<Rightarrow> a
      | Inr (host, port, off) \<Rightarrow>
          let resp = [0, 0, 0] @ take off plain @ drop off plain
          in case peerUDP a of None \<Rightarrow> a | Some peer \<Rightarrow> a\<lparr>sentDown := sentDown a @ [(peer, resp)]\<rparr>)"

text \<open>
  The two loops over the datagrams that arrive until their connection fails.
\<close>

fun readFromClientLoop ::
  "(string \<Rightarrow> bytes option) \<Rightarrow> ((string \<times> nat) \<times> bytes \<times> err option) list \<Rightarrow> UDPAssociation \<Rightarrow> UDPAssociation" where
  "readFromClientLoop parseAddr [] a = a"
| "readFromClientLoop parseAddr ((addr, pkt, encErr) # ps) a =
     (case fromClient parseAddr encErr addr pkt a of
        (True, a') \<Rightarrow> readFromClientLoop parseAddr ps a'
      | (False, a') \<Rightarrow> a')"

definition readFromUpstreamLoop :: "bytes list \<Rightarrow> UDPAssociation \<Rightarrow> UDPAssociation" where
  "readFromUpstreamLoop plains a = fold fromUpstream plains a"

subsection \<open>The address format\<close>

text \<open>The three kinds of SOCKS address (RFC 1928, section 5), their bytes and their text.\<close>

datatype socksHost = HostV4 bytes | HostV6 bytes | HostName bytes

type_synonym socksAddr = "socksHost \<times> nat"

fun hostBytes :: "socksHost \<Rightarrow> bytes" where
  "hostBytes (HostV4 b) = 0x01 # b"
| "hostBytes (HostV6 b) = 0x04 # b"
| "hostBytes (HostName b) = 0x03 # word_of_nat (length b) # b"

fun hostText :: "socksHost \<Rightarrow> string" where
  "hostText (HostV4 b) = IP_String b"
| "hostText (HostV6 b) = IP_String b"
| "hostText (HostName b) = string_of b"

fun hostValid :: "socksHost \<Rightarrow> bool" where
  "hostValid (HostV4 b) \<longleftrightarrow> length b = 4"
| "hostValid (HostV6 b) \<longleftrightarrow> length b = 16"
| "hostValid (HostName b) \<longleftrightarrow> length b < 256"

definition addrBytes :: "socksAddr \<Rightarrow> bytes" where
  "addrBytes a = hostBytes (fst a) @ be_bytes 2 (snd a)"

definition addrText :: "socksAddr \<Rightarrow> string \<times> string" where
  "addrText a = (hostText (fst a), itoa (snd a))"

definition addrValid :: "socksAddr \<Rightarrow> bool" where
  "addrValid a \<longleftrightarrow> hostValid (fst a) \<and> snd a < 2 ^ 16"

definition readSocksAddr :: "reader \<Rightarrow> err + (string \<times> string) \<times> reader" where
  "readSocksAddr r = bindE (readByte r) (\<lambda>(atyp, r). readAddrPort atyp r)"

section \<open>The reader of addresses is a codec\<close>

lemma local_readSocksAddr: "local_dec readSocksAddr"
  unfolding readSocksAddr_def readAddrPort_def readHost_def by (intro dec_intros)

lemma readHost_bytes:
  assumes "hostValid h"
  shows "readHost (hd (hostBytes h)) (Reader (tl (hostBytes h) @ zs) e) = Inr (hostText h, Reader zs e)"
proof (cases h)
  case (HostName b)
  then have "unat (word_of_nat (length b) :: byte) = length b"
    using assms by (simp add: unat_of_nat)
  with HostName show ?thesis
    using readFull_append [of "[word_of_nat (length b)]" 1 "b @ zs" e] by (simp add: readHost_def)
qed (use assms in \<open>simp_all add: readHost_def\<close>)

lemma readSocksAddr_bytes:
  assumes "addrValid a"
  shows "readSocksAddr (Reader (addrBytes a @ zs) e) = Inr (addrText a, Reader zs e)"
proof -
  obtain h p where a: "a = (h, p)" by (cases a)
  have "hostBytes h = hd (hostBytes h) # tl (hostBytes h)" by (cases h) simp_all
  then have "addrBytes a @ zs = hd (hostBytes h) # (tl (hostBytes h) @ be_bytes 2 p @ zs)"
    unfolding addrBytes_def a by simp
  with readHost_bytes [of h "be_bytes 2 p @ zs" e] assms a show ?thesis
    by (simp add: readSocksAddr_def readAddrPort_def addrValid_def addrText_def)
qed

interpretation socksAddrs: codec addrBytes readSocksAddr addrText addrValid
  by unfold_locales (rule readSocksAddr_bytes, assumption, rule local_readSocksAddr)

section \<open>Parsing in memory and reading from a stream agree\<close>

lemma readFull_iff:
  "readFull n (Reader bs e) = Inr (v, r) \<longleftrightarrow> n \<le> length bs \<and> v = take n bs \<and> r = Reader (drop n bs) e"
  by (auto simp: readFull.simps)

lemma drop_eq_iff: "a \<le> length xs \<Longrightarrow> b \<le> length xs \<Longrightarrow> drop a xs = drop b xs \<longleftrightarrow> a = b"
  by (metis diff_diff_cancel length_drop)

lemma parse_split:
  "parseSocksAddrAt (pre @ atyp # rest) (length pre) = Inr (h, p, n) \<longleftrightarrow>
     (\<exists>k. n = length pre + 1 + k \<and> k \<le> length rest \<and> readAddrPort atyp (Reader rest e) = Inr ((h, p), Reader (drop k rest) e))"
proof -
  have fix4: ?thesis if "atyp = 1"
    using that by (auto simp: parseSocksAddrAt_def addrEnd_def readAddrPort_def readHost_def bindE_eq_Inr readFull_iff nth_append drop_eq_iff)
  have fix16: ?thesis if "atyp = 4"
    using that by (auto simp: parseSocksAddrAt_def addrEnd_def readAddrPort_def readHost_def bindE_eq_Inr readFull_iff nth_append drop_eq_iff)
  have name: ?thesis if t: "atyp = 3"
  proof (cases rest)
    case Nil
    with t show ?thesis
      by (auto simp: parseSocksAddrAt_def readAddrPort_def readHost_def bindE_eq_Inr readFull_iff nth_append)
  next
    case (Cons a ds)
    have L: "parseSocksAddrAt (pre @ atyp # rest) (length pre) = Inr (h, p, n) \<longleftrightarrow> unat a + 2 \<le> length ds \<and>
        h = string_of (take (unat a) ds) \<and> p = itoa (be_nat (take 2 (drop (unat a) ds))) \<and> n = length pre + unat a + 4"
      using t Cons by (auto simp: parseSocksAddrAt_def addrEnd_def Let_def nth_append)
    have R: "k \<le> length rest \<and> readAddrPort atyp (Reader rest e) = Inr ((h, p), Reader (drop k rest) e) \<longleftrightarrow>
        k \<le> length rest \<and> unat a + 2 \<le> length ds \<and>
        h = string_of (take (unat a) ds) \<and> p = itoa (be_nat (take 2 (drop (unat a) ds))) \<and> k = unat a + 3" for k
      using t Cons drop_eq_iff [of "unat a + 3" rest k]
      by (auto simp: readAddrPort_def readHost_def bindE_eq_Inr readFull_iff numeral_3_eq_3)
    show ?thesis unfolding L R using Cons by auto
  qed
  have other: ?thesis if "atyp \<notin> {1, 3, 4}"
    using that by (auto simp: parseSocksAddrAt_def readAddrPort_def readHost_def nth_append)
  show ?thesis using fix4 fix16 name other by blast
qed

lemma socks_parsers_agree_aux:
  "parseSocksAddrAt b off = Inr (host, port, n) \<longleftrightarrow>
     off < n \<and> n \<le> length b \<and> readSocksAddr (Reader (drop off b) e) = Inr ((host, port), Reader (drop n b) e)"
proof (cases "off < length b")
  case True
  define pre atyp rest where "pre = take off b" and "atyp = b ! off" and "rest = drop (Suc off) b"
  have b: "b = pre @ atyp # rest" "length pre = off" "drop off b = atyp # rest"
    using True by (simp_all add: pre_def atyp_def rest_def id_take_nth_drop Cons_nth_drop_Suc)
  have d: "drop (off + 1 + k) b = drop k rest" for k
    by (simp add: rest_def add.commute)
  have "readSocksAddr (Reader (drop off b) e) = readAddrPort atyp (Reader rest e)"
    using b(3) by (simp add: readSocksAddr_def)
  moreover have "parseSocksAddrAt b off = Inr (host, port, n) \<longleftrightarrow> (\<exists>k. n = off + 1 + k \<and> k \<le> length rest \<and>
      readAddrPort atyp (Reader rest e) = Inr ((host, port), Reader (drop k rest) e))"
    using parse_split [of pre atyp rest host port n e] b(1,2) by simp
  moreover have "off < n \<and> n \<le> length b \<longleftrightarrow> (\<exists>k. n = off + 1 + k \<and> k \<le> length rest)"
    using b(1,2) by (auto intro: exI [of _ "n - off - 1"])
  ultimately show ?thesis using d by fastforce
next
  case False
  then show ?thesis by (simp add: parseSocksAddrAt_def readSocksAddr_def)
qed

section \<open>Replies\<close>

lemma atoi_from: "foldl (\<lambda>v c. v * 10 + (code c - 48)) v s = v * 10 ^ length s + atoi s"
proof (induction s arbitrary: v)
  case Nil
  then show ?case by (simp add: atoi_def)
next
  case (Cons c s)
  have "atoi (c # s) = (code c - 48) * 10 ^ length s + atoi s"
    using Cons.IH [of "code c - 48"] by (simp add: atoi_def)
  then show ?case by (simp add: Cons.IH algebra_simps)
qed

lemma portLoop_digits:
  "list_all isDigit s \<Longrightarrow> n * 10 ^ length s + atoi s < 2 ^ 30 \<Longrightarrow> portLoop n s = Some (n * 10 ^ length s + atoi s)"
proof (induction s arbitrary: n)
  case Nil
  then show ?case by (simp add: atoi_def)
next
  case (Cons c s)
  let ?m = "n * 10 + (code c - 48)"
  have e: "?m * 10 ^ length s + atoi s = n * 10 ^ length (c # s) + atoi (c # s)"
    using atoi_from [of "code c - 48" s] by (simp add: atoi_def algebra_simps)
  have "?m \<le> ?m * 10 ^ length s" by simp
  with e Cons.prems(2) have m: "?m < 2 ^ 30" by linarith
  then have "n < 2 ^ 30" by simp
  with m e Cons show ?case by (simp add: Let_def)
qed

lemma LookupPort_itoa: "n < 2 ^ 16 \<Longrightarrow> LookupPort services (itoa n) = Some n"
proof -
  assume n: "n < 2 ^ 16"
  have "hasPrefix (itoa n) ''+'' = False" "hasPrefix (itoa n) ''-'' = False"
    using digit_chars [of "hd (itoa n)" n] itoa_facts(3) [of n]
    by (cases "itoa n"; force simp: isDigit_def code_def)+
  moreover have "portLoop 0 (itoa n) = Some n"
    using portLoop_digits [of "itoa n" 0] itoa_facts [of n] n by simp
  ultimately show ?thesis
    using n itoa_facts(3) [of n] by (simp add: LookupPort_def)
qed

definition ipHost :: "bytes \<Rightarrow> socksHost" where
  "ipHost ip = (case To4 ip of Some p4 \<Rightarrow> HostV4 p4 | None \<Rightarrow> HostV6 ip)"

lemma ipHost_facts:
  assumes "length ip = 4 \<or> length ip = 16"
  shows "hostValid (ipHost ip)" and "hostText (ipHost ip) = IP_String ip"
    and "\<exists>ip16. ParseIP (IP_String ip) = Some ip16 \<and> ipHost ip16 = ipHost ip \<and> length ip16 = 16"
proof -
  have four: "length p4 = 4" "To4 p4 = Some p4" "To4 (v4prefix @ p4) = Some p4" if "To4 ip = Some p4" for p4
    using that by (auto simp: To4_def v4prefix_def split: if_splits)
  have "hostValid (ipHost ip) \<and> hostText (ipHost ip) = IP_String ip \<and>
    (\<exists>ip16. ParseIP (IP_String ip) = Some ip16 \<and> ipHost ip16 = ipHost ip \<and> length ip16 = 16)"
  proof (cases "To4 ip")
    case None
    with assms have l: "length ip = 16" by (auto simp: To4_def)
    with ParseIP_IP_String [OF assms] None show ?thesis by (simp add: ipHost_def To16_def)
  next
    case (Some p4)
    note f = four [OF Some]
    from assms have ne: "ip \<noteq> []" "p4 \<noteq> []" using f(1) by auto
    have "To16 ip = Some (v4prefix @ p4)"
      using assms Some by (auto simp: To16_def To4_def split: if_splits) (metis append_take_drop_id)
    with ParseIP_IP_String [OF assms] have "ParseIP (IP_String ip) = Some (v4prefix @ p4)" by simp
    moreover have "ipHost (v4prefix @ p4) = ipHost ip" "ipHost ip = HostV4 p4" "length (v4prefix @ p4) = 16"
      using Some f by (simp_all add: ipHost_def v4prefix_def)
    moreover have "IP_String p4 = IP_String ip"
      using Some f ne assms by (elim disjE) (simp_all add: IP_String_def)
    ultimately show ?thesis using f by auto
  qed
  then show "hostValid (ipHost ip)" "hostText (ipHost ip) = IP_String ip"
    "\<exists>ip16. ParseIP (IP_String ip) = Some ip16 \<and> ipHost ip16 = ipHost ip \<and> length ip16 = 16" by blast+
qed

lemma replyBytes_ip:
  assumes "length ip = 4 \<or> length ip = 16" and "port < 2 ^ 16"
  shows "replyBytes services rep (joinHostPort (IP_String ip) (itoa port)) = [0x05, rep, 0x00] @ addrBytes (ipHost ip, port)"
proof -
  obtain ip16 where p: "ParseIP (IP_String ip) = Some ip16" "ipHost ip16 = ipHost ip" "length ip16 = 16"
    using ipHost_facts(3) [OF assms(1)] by blast
  have "splitHostPort (joinHostPort (IP_String ip) (itoa port)) = Inr (IP_String ip, itoa port)"
    using plainHost_addr(1) [OF assms(1)] plainHost_itoa by (intro splitHostPort_join) auto
  with p LookupPort_itoa [OF assms(2)] show ?thesis
    by (simp add: replyBytes_def addrBytes_def flip: p(2)) (auto simp: ipHost_def split: option.split)
qed

section \<open>Properties\<close>

text \<open>
  C27. The two parsers of SOCKS addresses agree: \<^verbatim>\<open>parseSocksAddrAt\<close> accepts the bytes at an
  offset exactly when \<^verbatim>\<open>readAddrPort\<close> accepts the same bytes from a stream, with the same
  host and port, and the offset it returns is where the stream stands, within the buffer.
\<close>

theorem socks_parsers_agree:
  "parseSocksAddrAt b off = Inr (host, port, n) \<longleftrightarrow>
     off < n \<and> n \<le> length b \<and> readSocksAddr (Reader (drop off b) e) = Inr ((host, port), Reader (drop n b) e)"
  by (rule socks_parsers_agree_aux)

text \<open>
  C28. A UDP association relays without loss. For a valid address that the Shadowsocks library
  encodes as in the request, the datagram of the client reaches the server as the address
  followed by the same data, and the reply with that address and data reaches the first peer as
  exactly the datagram a SOCKS client expects. Datagrams of fewer than eight bytes are dropped,
  which excludes only an empty name with no data.
\<close>

theorem socks_udp_relay:
  assumes "addrValid a" and "parseAddr (joinHostPort (fst (addrText a)) (snd (addrText a))) = Some (addrBytes a)"
    and "fst (addrText a) \<noteq> [] \<or> data \<noteq> []" and "peerUDP assoc = None \<or> peerUDP assoc = Some peer"
  shows "fromClient parseAddr encErr peer ([0, 0, 0] @ addrBytes a @ data) assoc =
      (encErr = None, assoc\<lparr>peerUDP := Some peer, sentUp := sentUp assoc @ [addrBytes a @ data]\<rparr>) \<and>
    sentDown (fromUpstream (addrBytes a @ data) (assoc\<lparr>peerUDP := Some peer\<rparr>)) =
      sentDown assoc @ [(peer, [0, 0, 0] @ addrBytes a @ data)]"
proof -
  let ?pkt = "[0, 0, 0] @ addrBytes a @ data" and ?plain = "addrBytes a @ data"
  have r: "readSocksAddr (Reader (addrBytes a @ data) e) = Inr (addrText a, Reader data e)" for e
    by (rule readSocksAddr_bytes [OF assms(1)])
  have ne: "0 < length (addrBytes a)" by (simp add: addrBytes_def)
  have p3: "parseSocksAddrAt ?pkt 3 = Inr (fst (addrText a), snd (addrText a), 3 + length (addrBytes a))"
    unfolding socks_parsers_agree_aux [of _ _ _ _ _ EOF] using r [of EOF] ne by (simp add: numeral_3_eq_3)
  have p0: "parseSocksAddrAt ?plain 0 = Inr (fst (addrText a), snd (addrText a), length (addrBytes a))"
    unfolding socks_parsers_agree_aux [of _ _ _ _ _ EOF] using r [of EOF] ne by simp
  have len: "8 \<le> length ?pkt"
  proof -
    obtain h q where a: "a = (h, q)" by (cases a)
    show ?thesis
      using assms(1,3) by (cases h) (auto simp: a addrBytes_def addrValid_def addrText_def Suc_le_eq string_of_def)
  qed
  have "fromClient parseAddr encErr peer ?pkt assoc =
      (encErr = None, assoc\<lparr>peerUDP := Some peer, sentUp := sentUp assoc @ [?plain]\<rparr>)"
    using len p3 assms(2,4) by (auto simp: fromClient_def learnPeer_def numeral_3_eq_3)
  moreover have "sentDown (fromUpstream ?plain (assoc\<lparr>peerUDP := Some peer\<rparr>)) = sentDown assoc @ [(peer, [0, 0, 0] @ ?plain)]"
    using p0 by (simp add: fromUpstream_def parseSocksAddrFromPlain_def)
  ultimately show ?thesis by blast
qed

theorem socks_udp_relay_witness:
  "let parseAddr = (\<lambda>s. if s = ''1.2.3.4:53'' then Some [1, 1, 2, 3, 4, 0, 53] else None);
       assoc = \<lparr>peerUDP = None, sentUp = [], sentDown = []\<rparr>
   in sentUp (snd (fromClient parseAddr None (''127.0.0.1'', 9) [0, 0, 0, 1, 1, 2, 3, 4, 0, 53, 7] assoc)) = [[1, 1, 2, 3, 4, 0, 53, 7]]"
proof -
  let ?a = "(HostV4 [1, 2, 3, 4], 53)"
  have v: "addrValid ?a" by (simp add: addrValid_def)
  have t: "addrText ?a = (''1.2.3.4'', ''53'')" by code_simp
  have b: "addrBytes ?a = [1, 1, 2, 3, 4, 0, 53]" by (simp add: addrBytes_def be_bytes_2)
  have j: "joinHostPort ''1.2.3.4'' ''53'' = ''1.2.3.4:53''" by (simp add: joinHostPort_def)
  from socks_udp_relay [OF v, where parseAddr = "\<lambda>s. if s = ''1.2.3.4:53'' then Some [1, 1, 2, 3, 4, 0, 53] else None"
      and data = "[7]" and encErr = None and peer = "(''127.0.0.1'', 9)" and assoc = "\<lparr>peerUDP = None, sentUp = [], sentDown = []\<rparr>"]
  show ?thesis by (simp add: t b j Let_def)
qed

end
