(* ===== verification/Front_End.thy ===== *)
theory Front_End
  imports Socks Ws_Conn Lb_Health Effects
begin

text \<open>
  Serving a client: the SOCKS5 server (\<^verbatim>\<open>Socks5Server\<close> of \<^verbatim>\<open>internal/socks5.go\<close>),
  the TCP tunnel (\<^verbatim>\<open>ProxyTCPOverOutlineWS\<close> of \<^verbatim>\<open>outline_tcp.go\<close>,
  \<^verbatim>\<open>newSSTCPConn\<close>, \<^verbatim>\<open>DialOutlineTCP\<close>), the setting up of a UDP association
  (\<^verbatim>\<open>NewUDPAssociation\<close>), and the TCP flows of the TUN device (\<^verbatim>\<open>tunHandleTCP\<close>).
  The state of a handler is the client connection, the balancer with its telemetry, the effects
  so far in order (what was opened, written to and closed), and what was logged as an error.
  What network, cipher and clock do during one call is its input record: the result of acquiring
  a WebSocket, of picking the cipher, of writing the target header, and how the two copying
  goroutines go.
\<close>

section \<open>Definitions\<close>

text \<open>
  What a session holds. \<open>Stream\<close> is the \<^verbatim>\<open>WSStreamConn\<close> with the cipher around it;
  its \<^verbatim>\<open>Close\<close> also closes the WebSocket below it. \<open>AssocCtx\<close>, \<open>UdpConn\<close> and
  \<open>EncConn\<close> belong to a UDP association, \<open>Endpoint\<close> and \<open>NsConn\<close> to a flow of the TUN
  device.
\<close>

datatype res = ClientConn | WebSocket | Stream | AssocCtx | UdpConn | EncConn | Endpoint | NsConn

primrec sessionWithin :: "res \<Rightarrow> res list" where
  "sessionWithin ClientConn = []"
| "sessionWithin WebSocket = []"
| "sessionWithin Stream = [WebSocket]"
| "sessionWithin AssocCtx = []"
| "sessionWithin UdpConn = []"
| "sessionWithin EncConn = [WebSocket]"
| "sessionWithin Endpoint = []"
| "sessionWithin NsConn = []"

subsection \<open>The TCP tunnel\<close>

definition ErrAddressNotSupported :: err where
  "ErrAddressNotSupported = Sentinel ''address type not supported''"

text \<open>
  \<open>upBreak\<close> is where the copy from the client to the stream breaks: \<open>None\<close> when it takes all
  the client sends, else the number of bytes it has moved and the error. \<open>downData\<close> and
  \<open>downErr\<close> are what the stream gives to the copy to the client, and the error that ends it
  (\<open>None\<close> at the end of the stream). \<open>upFirst\<close> is whether the copy from the client ends
  first, \<open>ctxThen\<close> the context's error at that time, \<open>ctxSecond\<close> its error if the second
  \<^verbatim>\<open>select\<close> sees the context instead of the other copy.
\<close>

record tunnelIn =
  pickErr :: "err option"
  parseAddr :: "string \<Rightarrow> bytes option"
  headerErr :: "err option"
  upBreak :: "(nat \<times> err) option"
  downData :: bytes
  downErr :: "err option"
  upFirst :: bool
  ctxThen :: "err option"
  ctxSecond :: "err option"

definition newSSTCPConn :: "tunnelIn \<Rightarrow> string \<Rightarrow> err option \<times> res effect list" where
  "newSSTCPConn inp dst =
     (case pickErr inp of
        Some e \<Rightarrow> (Some e, [Opened Stream])
      | None \<Rightarrow>
          (case parseAddr inp dst of
             None \<Rightarrow> (Some ErrAddressNotSupported, [Opened Stream, Closed Stream])
           | Some tgt \<Rightarrow>
               (case headerErr inp of
                  Some e \<Rightarrow> (Some e, [Opened Stream, Closed Stream])
                | None \<Rightarrow> (None, [Opened Stream, Wrote Stream tgt]))))"

definition hard :: "err option \<Rightarrow> bool" where
  "hard e = (case e of None \<Rightarrow> False | Some x \<Rightarrow> \<not> errors_Is x EOF)"

text \<open>
  The two copies: from the client to the stream, with the bytes that were moved, and from the
  stream to the client, where a failed write ends the copy. \<^verbatim>\<open>io.CopyBuffer\<close> turns the end of
  its source into no error.
\<close>

definition copyUp :: "tunnelIn \<Rightarrow> 's client \<Rightarrow> err option \<times> bytes \<times> 's client" where
  "copyUp inp c =
     (let e = rerr (crd c); bs = avail (crd c)
      in case upBreak inp of
           None \<Rightarrow> (if e = EOF then None else Some e, bs, c\<lparr>crd := Reader [] e\<rparr>)
         | Some (n, we) \<Rightarrow> (Some we, take n bs, c\<lparr>crd := Reader (drop n bs) e\<rparr>))"

definition copyDown :: "'s wfun \<Rightarrow> tunnelIn \<Rightarrow> 's client \<Rightarrow> err option \<times> 's client" where
  "copyDown wr inp c =
     (if downData inp = [] then (downErr inp, c)
      else case clientWrite wr (downData inp) c of
        (Some e, c) \<Rightarrow> (Some e, c)
      | (None, c) \<Rightarrow> (downErr inp, c))"

definition relayEnd :: "tunnelIn \<Rightarrow> err option \<Rightarrow> err option \<Rightarrow> err option \<times> res effect list" where
  "relayEnd inp e1 e2 =
     (let teardown = (if hard e1 then [Closed Stream, Closed ClientConn] else [])
      in case ctxThen inp of
           Some ce \<Rightarrow> (if hard e1 then e1 else Some ce, teardown)
         | None \<Rightarrow>
             (case ctxSecond inp of
                Some ce \<Rightarrow> (if hard e1 then e1 else Some ce, teardown @ [Closed Stream, Closed ClientConn])
              | None \<Rightarrow> (if hard e1 then e1 else if hard e2 then e2 else None, teardown)))"

definition ProxyTCPOverOutlineWS ::
  "'s wfun \<Rightarrow> tunnelIn \<Rightarrow> string \<Rightarrow> 's client \<Rightarrow> err option \<times> 's client \<times> res effect list" where
  "ProxyTCPOverOutlineWS wr inp dst c =
     (case newSSTCPConn inp dst of
        (Some e, es) \<Rightarrow> (Some e, c, es)
      | (None, es) \<Rightarrow>
          (case copyUp inp c of (eu, sent, c) \<Rightarrow>
           case copyDown wr inp c of (ed, c) \<Rightarrow>
           case (if upFirst inp then relayEnd inp eu ed else relayEnd inp ed eu) of (e, es') \<Rightarrow>
             (e, c, es @ [Wrote Stream sent] @ es' @ [Closed Stream])))"

definition wsBoundConn_Close :: "res effect list" where
  "wsBoundConn_Close = [Closed Stream, ClosedWith WebSocket ''close'']"

definition DialOutlineTCP :: "err option \<Rightarrow> tunnelIn \<Rightarrow> string \<Rightarrow> err option \<times> res effect list" where
  "DialOutlineTCP acquireErr inp dst =
     (case acquireErr of
        Some e \<Rightarrow> (Some e, [])
      | None \<Rightarrow>
          (case newSSTCPConn inp dst of
             (Some e, es) \<Rightarrow> (Some e, Opened WebSocket # es @ [ClosedWith WebSocket ''dial-error''])
           | (None, es) \<Rightarrow> (None, Opened WebSocket # es)))"

subsection \<open>SOCKS5 sessions\<close>

record 's session =
  scl :: "'s client"
  sw :: world
  sacts :: "res effect list"
  slogged :: "err list"
  flowSeq :: "64 word"

record sessionIn =
  sNow :: gotime
  sNowLog :: gotime
  sNowReport :: gotime
  sRnd :: "int \<Rightarrow> int"
  acquired :: "nat \<Rightarrow> err option"
  tunnel :: tunnelIn
  listenErr :: "err option"
  assocDialErr :: "err option"
  relayAddr :: string

text \<open>\<open>closeStatus\<close> is \<^verbatim>\<open>websocket.CloseStatus\<close> of the coder library.\<close>

definition isExpectedTunnelCloseError :: "(err \<Rightarrow> int) \<Rightarrow> err option \<Rightarrow> bool" where
  "isExpectedTunnelCloseError closeStatus e =
     (case e of
        None \<Rightarrow> False
      | Some x \<Rightarrow>
          if errors_Is x NetClosed \<or> errors_Is x EOF \<or> errors_Is x (Sentinel ''i/o timeout'') then True
          else if errors_Is x (Env ''broken pipe'') \<or> errors_Is x (Env ''connection reset by peer'') then True
          else closeStatus x = 1000 \<or> closeStatus x = 1001)"

definition reply ::
  "(string \<Rightarrow> nat option) \<Rightarrow> 's wfun \<Rightarrow> byte \<Rightarrow> string \<Rightarrow> 's session \<Rightarrow> err option \<times> 's session" where
  "reply services wr rep bind s =
     (case socks5Reply services wr rep bind (scl s) of (e, c) \<Rightarrow> (e, s\<lparr>scl := c\<rparr>))"

definition handleConnect ::
  "(string \<Rightarrow> nat option) \<Rightarrow> 's wfun \<Rightarrow> (err \<Rightarrow> int) \<Rightarrow> sessionIn \<Rightarrow> string \<Rightarrow> 's session \<Rightarrow> 's session" where
  "handleConnect services wr closeStatus inp dst s =
     (let s = s\<lparr>flowSeq := flowSeq s + 1\<rparr>
      in case pickByEndpoint (sNow inp) (sNowLog inp) True (sw s) of
           (Inl e, w) \<Rightarrow>
             snd (reply services wr 0x04 ''0.0.0.0:0''
                    (s\<lparr>sw := ReportFailure True None (Some e) (sNowReport inp) (sRnd inp) w\<rparr>))
         | (Inr i, w) \<Rightarrow>
             (case acquired inp i of
                Some e \<Rightarrow>
                  snd (reply services wr 0x04 ''0.0.0.0:0''
                         (s\<lparr>sw := ReportFailure True (Some i) (Some e) (sNowReport inp) (sRnd inp) w\<rparr>))
              | None \<Rightarrow>
                  (case reply services wr 0x00 ''0.0.0.0:0'' (s\<lparr>sw := w, sacts := sacts s @ [Opened WebSocket]\<rparr>) of
                     (Some e, s) \<Rightarrow> s\<lparr>sacts := sacts s @ [ClosedWith WebSocket ''close'']\<rparr>
                   | (None, s) \<Rightarrow>
                       (case ProxyTCPOverOutlineWS wr (tunnel inp) dst (scl s) of (e, c, es) \<Rightarrow>
                          s\<lparr>scl := c, sacts := sacts s @ es @ [ClosedWith WebSocket ''close''],
                            slogged := slogged s @
                              (if hard e \<and> \<not> isExpectedTunnelCloseError closeStatus e then [the e] else [])\<rparr>))))"

text \<open>
  \<^verbatim>\<open>NewUDPAssociation\<close>: the results of listening, dialling and picking the cipher decide
  what it opens, and what it closes on its way out. \<open>assocClose\<close> is
  \<^verbatim>\<open>UDPAssociation.Close\<close>.
\<close>

definition NewUDPAssociation :: "sessionIn \<Rightarrow> (err + string) \<times> res effect list" where
  "NewUDPAssociation inp =
     (case listenErr inp of
        Some e \<Rightarrow> (Inl e, [Opened AssocCtx, Closed AssocCtx])
      | None \<Rightarrow>
          (case assocDialErr inp of
             Some e \<Rightarrow> (Inl e, [Opened AssocCtx, Opened UdpConn, Closed UdpConn, Closed AssocCtx])
           | None \<Rightarrow>
               (case pickErr (tunnel inp) of
                  Some e \<Rightarrow> (Inl e, [Opened AssocCtx, Opened UdpConn, Opened WebSocket,
                    ClosedWith WebSocket ''close'', Closed UdpConn, Closed AssocCtx])
                | None \<Rightarrow> (Inr (relayAddr inp), [Opened AssocCtx, Opened UdpConn, Opened WebSocket, Opened EncConn]))))"

definition assocClose :: "res effect list" where
  "assocClose = [Closed AssocCtx, Closed UdpConn, Closed EncConn, ClosedWith WebSocket '''']"

text \<open>The control connection is read to its end, and what it carries is dropped.\<close>

definition discard :: "'s client \<Rightarrow> 's client" where
  "discard c = c\<lparr>crd := Reader [] (rerr (crd c))\<rparr>"

definition handleUDPAssociate ::
  "(string \<Rightarrow> nat option) \<Rightarrow> 's wfun \<Rightarrow> sessionIn \<Rightarrow> 's session \<Rightarrow> 's session" where
  "handleUDPAssociate services wr inp s =
     (case pickByEndpoint (sNow inp) (sNowLog inp) False (sw s) of
        (Inl e, w) \<Rightarrow>
          snd (reply services wr 0x04 ''0.0.0.0:0''
                 (s\<lparr>sw := ReportFailure False None (Some e) (sNowReport inp) (sRnd inp) w\<rparr>))
      | (Inr i, w) \<Rightarrow>
          (case NewUDPAssociation inp of
             (Inl e, es) \<Rightarrow>
               snd (reply services wr 0x04 ''0.0.0.0:0''
                      (s\<lparr>sw := ReportFailure False (Some i) (Some e) (sNowReport inp) (sRnd inp) w, sacts := sacts s @ es\<rparr>))
           | (Inr addr, es) \<Rightarrow>
               (case reply services wr 0x00 addr (s\<lparr>sw := w, sacts := sacts s @ es\<rparr>) of
                  (Some e, s) \<Rightarrow> s\<lparr>sacts := sacts s @ assocClose\<rparr>
                | (None, s) \<Rightarrow> s\<lparr>scl := discard (scl s), sacts := sacts s @ assocClose\<rparr>)))"

definition HandleConn ::
  "(string \<Rightarrow> nat option) \<Rightarrow> 's wfun \<Rightarrow> (err \<Rightarrow> int) \<Rightarrow> sessionIn \<Rightarrow> 's session \<Rightarrow> 's session" where
  "HandleConn services wr closeStatus inp s =
     (let s = (case socks5Handshake wr (scl s) of
          (Some e, c) \<Rightarrow> s\<lparr>scl := c, slogged := slogged s @ [e]\<rparr>
        | (None, c) \<Rightarrow>
            (case socks5ReadRequest c of
               (Inl e, c) \<Rightarrow> s\<lparr>scl := c, slogged := slogged s @ [e]\<rparr>
             | (Inr (cmd, dst), c) \<Rightarrow>
                 let s = s\<lparr>scl := c\<rparr>
                 in if cmd = 0x01 then handleConnect services wr closeStatus inp dst s
                    else if cmd = 0x03 then handleUDPAssociate services wr inp s
                    else snd (reply services wr 0x07 ''0.0.0.0:0'' s)))
      in s\<lparr>sacts := sacts s @ [Closed ClientConn]\<rparr>)"

subsection \<open>TCP flows of the TUN device\<close>

definition flowDst :: "bytes \<Rightarrow> nat \<Rightarrow> string" where
  "flowDst ip port = joinHostPort (IP_String ip) (itoa port)"

text \<open>\<open>sent\<close> and \<open>got\<close> are the bytes that the two copies of the flow move until the second one ends.\<close>

definition tunHandleTCP :: "sessionIn \<Rightarrow> bytes \<Rightarrow> nat \<Rightarrow> bytes \<Rightarrow> bytes \<Rightarrow> world \<Rightarrow> world \<times> res effect list" where
  "tunHandleTCP inp localIP localPort sent got w =
     (let deferred = [Closed NsConn, Closed Endpoint]
      in case pickByEndpoint (sNow inp) (sNowLog inp) True w of
           (Inl e, w) \<Rightarrow> (w, Opened NsConn # deferred)
         | (Inr i, w) \<Rightarrow>
             (case DialOutlineTCP (acquired inp i) (tunnel inp) (flowDst localIP localPort) of
                (Some e, es) \<Rightarrow>
                  (ReportFailure True (Some i) (Some e) (sNowReport inp) (sRnd inp) w, Opened NsConn # es @ deferred)
              | (None, es) \<Rightarrow>
                  (w, Opened NsConn # es @ [Wrote Stream sent, Wrote NsConn got] @ wsBoundConn_Close @ deferred)))"

section \<open>What a client sends and gets\<close>

definition greeting :: "bytes \<Rightarrow> bytes" where
  "greeting methods = [0x05, word_of_nat (length methods)] @ methods"

definition request :: "byte \<Rightarrow> byte \<Rightarrow> socksAddr \<Rightarrow> bytes" where
  "request cmd rsv a = [0x05, cmd, rsv] @ addrBytes a"

definition replyFor :: "byte \<Rightarrow> bytes" where
  "replyFor rep = [0x05, rep, 0x00, 0x01, 0, 0, 0, 0, 0, 0]"

lemma replyBytes_zero: "replyBytes services rep ''0.0.0.0:0'' = replyFor rep"
proof -
  have "joinHostPort (IP_String [0, 0, 0, 0]) (itoa 0) = ''0.0.0.0:0''" by code_simp
  with replyBytes_ip [of "[0, 0, 0, 0]" 0 services rep] show ?thesis
    by (simp add: replyFor_def addrBytes_def ipHost_def To4_def be_bytes_2)
qed

lemma clientWrite_pipe:
  "\<not> pclosed (cst c) \<Longrightarrow> clientWrite pipe_write b c = (None, c\<lparr>cst := (cst c)\<lparr>pdata := pdata (cst c) @ b\<rparr>\<rparr>)"
  by (simp add: clientWrite_def pipe_write_def)

lemma handshake_accepts:
  assumes "crd c = Reader (greeting m @ zs) e" and "0 \<in> set m" and "length m < 256"
  shows "socks5Handshake wr c = clientWrite wr [0x05, 0x00] (c\<lparr>crd := Reader zs e\<rparr>)"
proof -
  have "readFull 2 (crd c) = Inr ([0x05, word_of_nat (length m)], Reader (m @ zs) e)"
    using assms(1) readFull_append [of "[0x05, word_of_nat (length m)]" 2 "m @ zs" e] by (simp add: greeting_def)
  moreover have "unat (word_of_nat (length m) :: byte) = length m"
    using assms(3) by (simp add: unat_of_nat)
  ultimately show ?thesis
    using assms(2) by (simp add: socks5Handshake_def)
qed

lemma request_read:
  assumes "crd c = Reader (request cmd rsv a @ zs) e" and "addrValid a"
  shows "socks5ReadRequest c = (Inr (cmd, joinHostPort (fst (addrText a)) (snd (addrText a))), c\<lparr>crd := Reader zs e\<rparr>)"
proof -
  obtain t b where ab: "addrBytes a = t # b" by (cases "fst a") (simp_all add: addrBytes_def)
  have "readFull 4 (crd c) = Inr ([0x05, cmd, rsv, t], Reader (b @ zs) e)"
    using assms(1) ab readFull_append [of "[0x05, cmd, rsv, t]" 4 "b @ zs" e] by (simp add: request_def)
  moreover have "readAddrPort t (Reader (b @ zs) e) = Inr (addrText a, Reader zs e)"
    using readSocksAddr_bytes [OF assms(2), of zs e] ab by (simp add: readSocksAddr_def)
  ultimately show ?thesis
    by (simp add: socks5ReadRequest_def split: prod.split)
qed

lemma reply_pipe:
  "\<not> pclosed (cst (scl s)) \<Longrightarrow> reply services pipe_write rep ''0.0.0.0:0'' s =
     (None, s\<lparr>scl := (scl s)\<lparr>cst := (cst (scl s))\<lparr>pdata := pdata (cst (scl s)) @ replyFor rep\<rparr>\<rparr>\<rparr>)"
  by (simp add: reply_def socks5Reply_def clientWrite_pipe replyBytes_zero)

text \<open>
  What the tunnel does when the target has an address: the target header and then what the
  client sends go up the stream, what the stream gives goes to the client, and nothing but an
  unclosed stream of an unknown cipher is left of what was opened.
\<close>

definition tunnelSetUp :: "tunnelIn \<Rightarrow> bool" where
  "tunnelSetUp inp \<longleftrightarrow> pickErr inp = None \<and> headerErr inp = None"

definition movedUp :: "tunnelIn \<Rightarrow> bytes \<Rightarrow> bytes" where
  "movedUp inp bs = (case upBreak inp of None \<Rightarrow> bs | Some (n, e) \<Rightarrow> take n bs)"

definition upErr :: "tunnelIn \<Rightarrow> err \<Rightarrow> err option" where
  "upErr inp e = (case upBreak inp of None \<Rightarrow> if e = EOF then None else Some e | Some (n, we) \<Rightarrow> Some we)"

definition relayErr :: "tunnelIn \<Rightarrow> err option \<Rightarrow> err option \<Rightarrow> err option" where
  "relayErr inp e1 e2 =
     (if hard e1 then e1
      else if ctxThen inp \<noteq> None then ctxThen inp
      else if ctxSecond inp \<noteq> None then ctxSecond inp
      else if hard e2 then e2 else None)"

definition tunnelErr :: "tunnelIn \<Rightarrow> err \<Rightarrow> err option" where
  "tunnelErr inp e =
     (if pickErr inp \<noteq> None then pickErr inp
      else if headerErr inp \<noteq> None then headerErr inp
      else if upFirst inp then relayErr inp (upErr inp e) (downErr inp)
      else relayErr inp (downErr inp) (upErr inp e))"

lemma copyDown_pipe:
  "\<not> pclosed (cst c) \<Longrightarrow> copyDown pipe_write inp c = (downErr inp, c\<lparr>cst := (cst c)\<lparr>pdata := pdata (cst c) @ downData inp\<rparr>\<rparr>)"
  by (simp add: copyDown_def clientWrite_pipe)

lemma copyUp_moved:
  assumes "crd c = Reader bs e"
  shows "\<exists>r. copyUp inp c = (upErr inp e, movedUp inp bs, c\<lparr>crd := r\<rparr>)"
  using assms by (cases "upBreak inp") (auto simp: copyUp_def movedUp_def upErr_def)

lemma relayEnd_result: "fst (relayEnd inp e1 e2) = relayErr inp e1 e2"
  by (simp add: relayEnd_def relayErr_def Let_def split: option.split)

lemma relayEnd_effects:
  "heldAfter sessionWithin [ClientConn, WebSocket, Stream] (snd (relayEnd inp e1 e2) @ [Closed Stream, ClosedWith WebSocket why, Closed ClientConn]) = []"
  "wroteTo r (snd (relayEnd inp e1 e2)) = []"
  by (simp_all add: relayEnd_def Let_def split: option.split)

lemma tunnel_effects:
  assumes "parseAddr inp dst = Some tgt" and "crd c = Reader bs e" and "\<not> pclosed (cst c)"
    and "ProxyTCPOverOutlineWS pipe_write inp dst c = (err, c', es)"
  shows "err = tunnelErr inp e \<and>
    pdata (cst c') = pdata (cst c) @ (if tunnelSetUp inp then downData inp else []) \<and>
    wroteTo Stream es = (if tunnelSetUp inp then tgt @ movedUp inp bs else []) \<and>
    heldAfter sessionWithin [ClientConn, WebSocket] (es @ [ClosedWith WebSocket why, Closed ClientConn]) =
      (if pickErr inp \<noteq> None then [Stream] else [])"
proof (cases "tunnelSetUp inp")
  case False
  then show ?thesis
    using assms(1,4)
    by (cases "pickErr inp") (auto simp: ProxyTCPOverOutlineWS_def newSSTCPConn_def tunnelSetUp_def tunnelErr_def)
next
  case True
  obtain r where up: "copyUp inp c = (upErr inp e, movedUp inp bs, c\<lparr>crd := r\<rparr>)"
    using copyUp_moved [OF assms(2)] by blast
  have down: "copyDown pipe_write inp (c\<lparr>crd := r\<rparr>) =
      (downErr inp, c\<lparr>crd := r, cst := (cst c)\<lparr>pdata := pdata (cst c) @ downData inp\<rparr>\<rparr>)"
    using copyDown_pipe [of "c\<lparr>crd := r\<rparr>"] assms(3) by simp
  define out where
    "out = (if upFirst inp then relayEnd inp (upErr inp e) (downErr inp) else relayEnd inp (downErr inp) (upErr inp e))"
  have "err = fst out" "pdata (cst c') = pdata (cst c) @ downData inp"
    "es = [Opened Stream, Wrote Stream tgt, Wrote Stream (movedUp inp bs)] @ snd out @ [Closed Stream]"
    using assms(1,4) True up down
    by (auto simp: ProxyTCPOverOutlineWS_def newSSTCPConn_def tunnelSetUp_def out_def split: prod.splits)
  moreover have "fst out = tunnelErr inp e" "wroteTo Stream (snd out) = []"
    "heldAfter sessionWithin [ClientConn, WebSocket, Stream] (snd out @ [Closed Stream, ClosedWith WebSocket why, Closed ClientConn]) = []"
    using True relayEnd_effects relayEnd_result by (simp_all add: out_def tunnelErr_def tunnelSetUp_def)
  ultimately show ?thesis
    using True by (simp add: tunnelSetUp_def)
qed

section \<open>Properties\<close>

definition idleSession :: "bytes \<Rightarrow> pipe session" where
  "idleSession input = \<lparr>scl = \<lparr>crd = Reader input EOF, cst = \<lparr>pdata = [], pclosed = False\<rparr>\<rparr>,
     sw = \<lparr>wlb = lb_example, wtel = noMetrics\<rparr>, sacts = [], slogged = [], flowSeq = 0\<rparr>"

definition servingInput :: sessionIn where
  "servingInput = \<lparr>sNow = 10, sNowLog = 10, sNowReport = 10, sRnd = (\<lambda>n. 0), acquired = (\<lambda>i. None),
     tunnel = \<lparr>pickErr = None, parseAddr = (\<lambda>s. if s = ''1.2.3.4:80'' then Some [1, 1, 2, 3, 4, 0, 80] else None), headerErr = None,
       upBreak = None, downData = [9], downErr = Some UnexpectedEOF, upFirst = True, ctxThen = None, ctxSecond = None\<rparr>,
     listenErr = None, assocDialErr = None, relayAddr = []\<rparr>"

text \<open>
  C29. A SOCKS5 CONNECT session from its bytes. The client offers \<^emph>\<open>no authentication\<close>, asks for
  a valid address and goes on with the bytes \<open>zs\<close>. It gets the method, exactly one reply
  (success when an upstream was picked and its WebSocket acquired, host unreachable otherwise),
  and then what the tunnel gives. The stream to the upstream carries the requested address in
  Shadowsocks form and then what the client sent, all of it unless the copy breaks. No error of
  the tunnel reaches the balancer, which is left as the pick left it; when acquiring fails, the
  failure is reported for the picked upstream. An error of the tunnel is logged unless it is an
  expected one. Nothing that the session opened is left open, the client connection included,
  except the stream's context when the cipher of the upstream is unknown.
  \<^verbatim>\<open>socks.ParseAddr\<close> is assumed to give the address in its SOCKS form.
\<close>

theorem socks_connect_session:
  assumes "crd (scl s) = Reader (greeting m @ request 0x01 rsv a @ zs) e" and "0 \<in> set m" and "length m < 256"
    and "addrValid a" and "\<not> pclosed (cst (scl s))"
    and "parseAddr (tunnel inp) (joinHostPort (fst (addrText a)) (snd (addrText a))) = Some (addrBytes a)"
  shows "case pickByEndpoint (sNow inp) (sNowLog inp) True (sw s) of (r, w) \<Rightarrow>
    let out = HandleConn services pipe_write closeStatus inp s;
        ok = (case r of Inl _ \<Rightarrow> False | Inr i \<Rightarrow> acquired inp i = None);
        relayed = (ok \<and> tunnelSetUp (tunnel inp));
        err = tunnelErr (tunnel inp) e
    in pdata (cst (scl out)) = pdata (cst (scl s)) @ [0x05, 0x00] @ replyFor (if ok then 0x00 else 0x04) @
         (if relayed then downData (tunnel inp) else []) \<and>
       sw out = (case r of Inl _ \<Rightarrow> w | Inr i \<Rightarrow>
         (case acquired inp i of None \<Rightarrow> w
          | Some err \<Rightarrow> ReportFailure True (Some i) (Some err) (sNowReport inp) (sRnd inp) w)) \<and>
       slogged out = slogged s @ (if ok \<and> hard err \<and> \<not> isExpectedTunnelCloseError closeStatus err then [the err] else []) \<and>
       (\<exists>es. sacts out = sacts s @ es \<and>
          wroteTo Stream es = (if relayed then addrBytes a @ movedUp (tunnel inp) zs else []) \<and>
          heldAfter sessionWithin [ClientConn] es = (if ok \<and> pickErr (tunnel inp) \<noteq> None then [Stream] else []))"
proof -
  let ?dst = "joinHostPort (fst (addrText a)) (snd (addrText a))"
  let ?c = "(scl s)\<lparr>crd := Reader (request 0x01 rsv a @ zs) e, cst := (cst (scl s))\<lparr>pdata := pdata (cst (scl s)) @ [0x05, 0x00]\<rparr>\<rparr>"
  let ?c2 = "?c\<lparr>crd := Reader zs e, cst := (cst ?c)\<lparr>pdata := pdata (cst ?c) @ replyFor 0x00\<rparr>\<rparr>"
  have h: "socks5Handshake pipe_write (scl s) = (None, ?c)"
    using handshake_accepts [OF assms(1-3)] assms(5) by (simp add: clientWrite_pipe)
  have q: "socks5ReadRequest ?c = (Inr (0x01, ?dst), ?c\<lparr>crd := Reader zs e\<rparr>)"
    by (rule request_read) (use assms(4) in simp_all)
  obtain r w where p: "pickByEndpoint (sNow inp) (sNowLog inp) True (sw s) = (r, w)" by fastforce
  obtain e1 c' es where t: "ProxyTCPOverOutlineWS pipe_write (tunnel inp) ?dst ?c2 = (e1, c', es)"
    by (metis prod_cases3)
  note T = tunnel_effects [OF assms(6) _ _ t, of zs e]
  show ?thesis
  proof (cases r)
    case (Inl err)
    with h q p assms(5) show ?thesis
      by (simp add: HandleConn_def handleConnect_def reply_pipe ReportFailure_def)
  next
    case (Inr i)
    show ?thesis
    proof (cases "acquired inp i")
      case None
      then have "HandleConn services pipe_write closeStatus inp s = s\<lparr>scl := c', sw := w, flowSeq := flowSeq s + 1,
          sacts := sacts s @ Opened WebSocket # es @ [ClosedWith WebSocket ''close'', Closed ClientConn],
          slogged := slogged s @ (if hard e1 \<and> \<not> isExpectedTunnelCloseError closeStatus e1 then [the e1] else [])\<rparr>"
        using h q p t Inr assms(5) by (simp add: HandleConn_def handleConnect_def reply_pipe)
      with None Inr p T assms(5) show ?thesis by simp
    next
      case (Some err)
      with h q p Inr assms(5) show ?thesis
        by (simp add: HandleConn_def handleConnect_def reply_pipe)
    qed
  qed
qed

lemma lb_example_none: "current lb_example = None"
  by code_simp

theorem socks_connect_session_witness:
  "let out = HandleConn (\<lambda>s. None) pipe_write (\<lambda>e. -1) servingInput
     (idleSession [0x05, 0x01, 0x00, 0x05, 0x01, 0x00, 0x01, 1, 2, 3, 4, 0, 80, 7, 8])
   in pdata (cst (scl out)) = [0x05, 0x00] @ replyFor 0x00 @ [9] \<and> wroteTo Stream (sacts out) = [1, 1, 2, 3, 4, 0, 80, 7, 8] \<and>
      slogged out = [UnexpectedEOF] \<and> heldAfter sessionWithin [ClientConn] (sacts out) = []"
proof -
  let ?a = "(HostV4 [1, 2, 3, 4], 80)" and ?s = "idleSession [0x05, 0x01, 0x00, 0x05, 0x01, 0x00, 0x01, 1, 2, 3, 4, 0, 80, 7, 8]"
  have r: "crd (scl ?s) = Reader (greeting [0] @ request 0x01 0x00 ?a @ [7, 8]) EOF"
    by (simp add: idleSession_def greeting_def request_def addrBytes_def be_bytes_2)
  have v: "addrValid ?a" by (simp add: addrValid_def)
  have b: "addrBytes ?a = [1, 1, 2, 3, 4, 0, 80]" by (simp add: addrBytes_def be_bytes_2)
  have "joinHostPort (fst (addrText ?a)) (snd (addrText ?a)) = ''1.2.3.4:80''" by code_simp
  with b have d: "parseAddr (tunnel servingInput) (joinHostPort (fst (addrText ?a)) (snd (addrText ?a))) = Some (addrBytes ?a)"
    by (simp add: servingInput_def)
  obtain w where p: "pickByEndpoint (sNow servingInput) (sNowLog servingInput) True (sw ?s) = (Inr 1, w)"
    using lb_example_best by (simp add: pickByEndpoint_def servingInput_def idleSession_def lb_example_none Let_def)
  have e: "\<not> isExpectedTunnelCloseError (\<lambda>e. -1) (Some UnexpectedEOF)" "hard (Some UnexpectedEOF)" by code_simp+
  show ?thesis
    using socks_connect_session [OF r _ _ v _ d, of "\<lambda>s. None" "\<lambda>e. -1"] p b e
    by (simp add: servingInput_def idleSession_def tunnelErr_def relayErr_def upErr_def tunnelSetUp_def movedUp_def hard_def Let_def)
qed

end
