(* ===== verification/Probes.thy ===== *)
theory Probes
  imports Front_End
begin

text \<open>
  The active probes (\<^verbatim>\<open>internal/active_probe.go\<close>): an HTTP request through the TCP tunnel and
  a DNS query through the UDP tunnel. The cipher, dialling, address encoding, the outcomes of
  writing and what arrives are inputs; \<open>pDatagrams\<close> are the decrypted packets in order and
  \<open>pEnd\<close> the error after the last of them. The last result is what was written to the tunnel.
\<close>

section \<open>Definitions\<close>

record probeIn =
  pCipher :: "err option"
  pConnect :: "err option"
  pParse :: "string \<Rightarrow> bytes option"
  pWrite :: "nat \<Rightarrow> err option"
  pReply :: reader
  pDatagrams :: "bytes list"
  pEnd :: err
  pElapsed :: duration
  pTxid :: "16 word"

subsection \<open>TCP\<close>

definition ProbeTCPQuality :: "probeIn \<Rightarrow> string \<Rightarrow> (duration \<times> err option) \<times> bytes list" where
  "ProbeTCPQuality inp target =
     (case pCipher inp of
        Some e \<Rightarrow> ((0, Some e), [])
      | None \<Rightarrow>
          (case pConnect inp of
             Some e \<Rightarrow> ((0, Some e), [])
           | None \<Rightarrow>
               (case pParse inp target of
                  None \<Rightarrow> ((0, Some ErrAddressNotSupported), [])
                | Some tgt \<Rightarrow>
                    (case pWrite inp 0 of
                       Some e \<Rightarrow> ((0, Some e), [])
                     | None \<Rightarrow>
                         let host = (case splitHostPort target of Inr (h, _) \<Rightarrow> h | Inl _ \<Rightarrow> target);
                             crlf = [CHR 0x0D, CHR 0x0A];
                             req = bytes_of (''HEAD / HTTP/1.1'' @ crlf @ ''Host: '' @ host @ crlf @ ''Connection: close'' @ crlf @ crlf)
                         in (case pWrite inp 1 of
                               Some e \<Rightarrow> ((0, Some e), [tgt])
                             | None \<Rightarrow>
                                 (case readFull 5 (pReply inp) of
                                    Inl e \<Rightarrow> ((0, Some e), [tgt, req])
                                  | Inr (buf, _) \<Rightarrow>
                                      if string_of buf \<noteq> ''HTTP/'' then ((0, Some (Msg ''tcp probe: unexpected response'')), [tgt, req])
                                      else ((pElapsed inp, None), [tgt, req])))))))"

subsection \<open>UDP\<close>

definition trimDot :: "string \<Rightarrow> string" where
  "trimDot s = (if s \<noteq> [] \<and> last s = CHR ''.'' then butlast s else s)"

definition encLabel :: "string \<Rightarrow> bytes" where
  "encLabel lab = (if lab = [] \<or> length lab > 63 then [] else word_of_nat (length lab) # bytes_of lab)"

definition buildDNSQuery :: "16 word \<Rightarrow> string \<Rightarrow> 16 word \<Rightarrow> bytes" where
  "buildDNSQuery txid name qtype =
     be_bytes 2 (unat txid) @ be_bytes 2 0x0100 @ be_bytes 2 1 @ replicate 6 0 @
     concat (map encLabel (splitChar (CHR ''.'') (trimDot name))) @ [0] @ be_bytes 2 (unat qtype) @ [0, 1]"

definition upperChar :: "char \<Rightarrow> char" where
  "upperChar c = (if 97 \<le> code c \<and> code c \<le> 122 then char_of (code c - 32) else c)"

definition queryType :: "string \<Rightarrow> 16 word" where
  "queryType dnstype = (if map upperChar dnstype = ''AAAA'' then 28 else 1)"

text \<open>Whether a packet ends the waiting: its address header is skipped, identifier and QR bit are compared.\<close>

definition isAnswer :: "16 word \<Rightarrow> bytes \<Rightarrow> bool" where
  "isAnswer txid p =
     (case parseSocksAddrFromPlain p of
        Inl _ \<Rightarrow> False
      | Inr (_, _, off) \<Rightarrow>
          if off \<ge> length p then False
          else let dns = drop off p
               in if length dns < 12 then False
                  else be_nat (take 2 dns) = unat txid \<and> drop_bit 15 (be_nat (take 2 (drop 2 dns))) AND 1 = (1 :: nat))"

fun awaitAnswer :: "16 word \<Rightarrow> bytes list \<Rightarrow> err \<Rightarrow> err option" where
  "awaitAnswer txid [] e = Some e"
| "awaitAnswer txid (p # ps) e = (if isAnswer txid p then None else awaitAnswer txid ps e)"

definition ProbeUDPQuality :: "probeIn \<Rightarrow> string \<Rightarrow> string \<Rightarrow> string \<Rightarrow> (duration \<times> err option) \<times> bytes list" where
  "ProbeUDPQuality inp dnsServer name dnstype =
     (case pCipher inp of
        Some e \<Rightarrow> ((0, Some e), [])
      | None \<Rightarrow>
          (case pConnect inp of
             Some e \<Rightarrow> ((0, Some e), [])
           | None \<Rightarrow>
               let q = buildDNSQuery (pTxid inp) name (queryType dnstype)
               in (case pParse inp dnsServer of
                     None \<Rightarrow> ((0, Some ErrAddressNotSupported), [])
                   | Some dst \<Rightarrow>
                       (case pWrite inp 0 of
                          Some e \<Rightarrow> ((0, Some e), [])
                        | None \<Rightarrow>
                            (case awaitAnswer (pTxid inp) (pDatagrams inp) (pEnd inp) of
                               Some e \<Rightarrow> ((0, Some e), [dst @ q])
                             | None \<Rightarrow> ((pElapsed inp, None), [dst @ q]))))))"

subsection \<open>A reader for questions\<close>

text \<open>The format of RFC 1035, sections 4.1.1 and 4.1.2, without compression.\<close>

function (sequential) readLabels :: "bytes \<Rightarrow> (bytes list \<times> bytes) option" where
  "readLabels [] = None"
| "readLabels (n # bs) =
     (if n = 0 then Some ([], bs)
      else if unat n > 63 \<or> length bs < unat n then None
      else map_option (\<lambda>(ls, r). (take (unat n) bs # ls, r)) (readLabels (drop (unat n) bs)))"
  by pat_completeness auto
termination by (relation "measure length") auto

definition readQuestion :: "bytes \<Rightarrow> (nat \<times> nat \<times> nat \<times> string list \<times> nat \<times> nat) option" where
  "readQuestion b =
     (if length b < 12 then None
      else case readLabels (drop 12 b) of
        Some (ls, r) \<Rightarrow>
          if length r = 4
          then Some (be_nat (take 2 b), be_nat (take 2 (drop 2 b)), be_nat (take 2 (drop 4 b)), map string_of ls,
                     be_nat (take 2 r), be_nat (drop 2 r))
          else None
      | None \<Rightarrow> None)"

section \<open>Lemmas\<close>

lemma readLabels_enc:
  assumes "\<And>l. l \<in> set ls \<Longrightarrow> l \<noteq> [] \<and> length l \<le> 63"
  shows "readLabels (concat (map encLabel ls) @ 0 # r) = Some (map bytes_of ls, r)"
  using assms
proof (induction ls)
  case (Cons l ls)
  have u: "unat (word_of_nat (length l) :: byte) = length l"
    using Cons.prems [of l] by (simp add: unat_of_nat)
  then have "(word_of_nat (length l) :: byte) \<noteq> 0"
    using Cons.prems [of l] by (metis length_0_conv list.set_intros(1) unat_0)
  moreover have "readLabels (concat (map encLabel ls) @ 0 # r) = Some (map bytes_of ls, r)"
    by (rule Cons.IH) (use Cons.prems in simp)
  ultimately show ?case
    using u Cons.prems [of l] by (auto simp: encLabel_def [of l] not_less)
qed simp

lemma trimDot_join:
  assumes "ls \<noteq> []" and "\<And>l. l \<in> set ls \<Longrightarrow> l \<noteq> [] \<and> CHR ''.'' \<notin> set l"
  shows "trimDot (join ''.'' ls) = join ''.'' ls" and "trimDot (join ''.'' ls @ ''.'') = join ''.'' ls"
proof -
  have "join ''.'' ls \<noteq> [] \<and> last (join ''.'' ls) = last (last ls)"
    using assms
  proof (induction ls rule: induct_list012)
    case (3 x y zs)
    then show ?case by simp
  qed auto
  moreover have "last (last ls) \<noteq> CHR ''.''"
    using assms(2) [OF last_in_set [OF assms(1)]] last_in_set [of "last ls"] by metis
  ultimately show "trimDot (join ''.'' ls) = join ''.'' ls" "trimDot (join ''.'' ls @ ''.'') = join ''.'' ls"
    by (simp_all add: trimDot_def)
qed

lemma readQuestion_build:
  assumes "ls \<noteq> []" and "\<And>l. l \<in> set ls \<Longrightarrow> l \<noteq> [] \<and> length l \<le> 63 \<and> CHR ''.'' \<notin> set l" and "dot = [] \<or> dot = ''.''"
  shows "readQuestion (buildDNSQuery txid (join ''.'' ls @ dot) qtype) = Some (unat txid, 0x0100, 1, ls, unat qtype, 1)"
proof -
  have "splitChar (CHR ''.'') (trimDot (join ''.'' ls @ dot)) = ls"
    using trimDot_join [OF assms(1)] assms splitChar_join [of ls "CHR ''.''"] by auto
  moreover have "unat txid < 256 ^ 2" "unat qtype < 256 ^ 2"
    using unsigned_less [where w = txid and 'a = nat] unsigned_less [where w = qtype and 'a = nat] by simp_all
  ultimately show ?thesis
    using readLabels_enc [of ls "be_bytes 2 (unat qtype) @ [0, 1]"] assms(2)
    by (simp add: readQuestion_def buildDNSQuery_def be_nat_Cons comp_def)
qed

lemma qr_bit: "drop_bit 15 (be_nat [x, y]) mod 2 = Suc 0 \<longleftrightarrow> 128 \<le> unat (x :: byte)"
proof -
  have "unat x < 256" "unat y < 256" using unsigned_less [where w = x and 'a = nat] unsigned_less [where w = y and 'a = nat] by simp_all
  then show ?thesis by (auto simp: be_nat_Cons drop_bit_eq_div)
qed

lemma isAnswer_addr:
  assumes "addrValid a"
  shows "isAnswer txid (addrBytes a @ d) \<longleftrightarrow> 12 \<le> length d \<and> be_nat (take 2 d) = unat txid \<and> 128 \<le> unat (d ! 2)"
proof -
  have "addrBytes a \<noteq> []" by (cases "fst a") (simp_all add: addrBytes_def)
  then have "parseSocksAddrFromPlain (addrBytes a @ d) = Inr (fst (addrText a), snd (addrText a), length (addrBytes a))"
    using readSocksAddr_bytes [OF assms, of d EOF]
    by (simp add: parseSocksAddrFromPlain_def socks_parsers_agree_aux [of _ _ _ _ _ EOF])
  moreover have "take 2 (drop 2 d) = [d ! 2, d ! 3]" if "12 \<le> length d"
    using that by (simp add: take_Suc_conv_app_nth numeral_2_eq_2 numeral_3_eq_3)
  ultimately show ?thesis
    by (auto simp: isAnswer_def qr_bit Let_def)
qed

lemma awaitAnswer_None: "awaitAnswer txid ps e = None \<longleftrightarrow> list_ex (isAnswer txid) ps"
  by (induction ps) auto

section \<open>Properties\<close>

text \<open>
  C38. The DNS probe asks the right question and takes the right answer. For a name made of labels of
  one to 63 characters, with or without a final dot, the probe sends one packet, the encoded server
  address followed by a DNS query that reads back as one question of class IN with the probe's
  identifier, the labels and the configured type. It succeeds exactly when one of the packets that
  come back carries, behind its address, at least a DNS header with this identifier and the response
  bit set.
\<close>

theorem dns_probe_exact:
  assumes "ls \<noteq> []" and "\<And>l. l \<in> set ls \<Longrightarrow> l \<noteq> [] \<and> length l \<le> 63 \<and> CHR ''.'' \<notin> set l" and "dot = [] \<or> dot = ''.''"
    and "pCipher inp = None" and "pConnect inp = None" and "pParse inp server = Some dst" and "pWrite inp 0 = None"
    and "pDatagrams inp = map (\<lambda>(a, d). addrBytes a @ d) ds" and "\<And>a d. (a, d) \<in> set ds \<Longrightarrow> addrValid a"
  shows "\<exists>q r. ProbeUDPQuality inp server (join ''.'' ls @ dot) typ = (r, [dst @ q]) \<and>
    readQuestion q = Some (unat (pTxid inp), 0x0100, 1, ls, unat (queryType typ), 1) \<and>
    (snd r = None \<longleftrightarrow> (\<exists>a d. (a, d) \<in> set ds \<and> 12 \<le> length d \<and> be_nat (take 2 d) = unat (pTxid inp) \<and> 128 \<le> unat (d ! 2)))"
proof -
  let ?ok = "\<lambda>d. 12 \<le> length d \<and> be_nat (take 2 d) = unat (pTxid inp) \<and> 128 \<le> unat (d ! 2)"
  have "list_ex (isAnswer (pTxid inp)) (pDatagrams inp) \<longleftrightarrow> (\<exists>(a, d) \<in> set ds. isAnswer (pTxid inp) (addrBytes a @ d))"
    unfolding assms(8) list_ex_iff by (simp add: case_prod_unfold)
  also have "\<dots> \<longleftrightarrow> (\<exists>(a, d) \<in> set ds. ?ok d)"
  proof (rule bex_cong [OF refl])
    fix x assume "x \<in> set ds"
    then have "addrValid (fst x)" using assms(9) [of "fst x" "snd x"] by simp
    from isAnswer_addr [OF this] show "(case x of (a, d) \<Rightarrow> isAnswer (pTxid inp) (addrBytes a @ d)) \<longleftrightarrow> (case x of (a, d) \<Rightarrow> ?ok d)"
      by (simp add: case_prod_unfold)
  qed
  finally have "awaitAnswer (pTxid inp) (pDatagrams inp) (pEnd inp) = None \<longleftrightarrow> (\<exists>a d. (a, d) \<in> set ds \<and> ?ok d)"
    unfolding awaitAnswer_None by (simp only: Bex_def split_paired_Ex case_prod_conv)
  moreover define q where "q = buildDNSQuery (pTxid inp) (join ''.'' ls @ dot) (queryType typ)"
  moreover define r where "r = (case awaitAnswer (pTxid inp) (pDatagrams inp) (pEnd inp) of
      None \<Rightarrow> (pElapsed inp, None) | Some e \<Rightarrow> (0, Some e))"
  moreover have "ProbeUDPQuality inp server (join ''.'' ls @ dot) typ = (r, [dst @ q])"
    using assms(4-7) by (simp add: ProbeUDPQuality_def q_def r_def split: option.split)
  moreover have "snd r = awaitAnswer (pTxid inp) (pDatagrams inp) (pEnd inp)"
    by (simp add: r_def split: option.split)
  ultimately show ?thesis
    using readQuestion_build [OF assms(1-3), of "pTxid inp" "queryType typ"] by (intro exI [of _ q] exI [of _ r]) simp
qed

definition probe_example :: probeIn where
  "probe_example = \<lparr>pCipher = None, pConnect = None, pParse = (\<lambda>_. Some [1, 1, 1, 1, 1, 0, 53]), pWrite = (\<lambda>_. None),
     pReply = Reader [] EOF, pDatagrams = [[1, 1, 1, 1, 1, 0, 53, 0, 7, 0x81, 0x80, 0, 1, 0, 0, 0, 0, 0, 0]], pEnd = EOF,
     pElapsed = 5, pTxid = 7\<rparr>"

theorem dns_probe_exact_witness:
  "\<exists>q r. ProbeUDPQuality probe_example ''1.1.1.1:53'' ''example.com.'' ''aaaa'' = (r, [[1, 1, 1, 1, 1, 0, 53] @ q]) \<and>
     readQuestion q = Some (7, 0x0100, 1, [''example'', ''com''], 28, 1) \<and> snd r = None"
proof -
  let ?d = "[0, 7, 0x81, 0x80, 0, 1, 0, 0, 0, 0, 0, 0] :: bytes"
  have d: "pDatagrams probe_example = map (\<lambda>(a, d). addrBytes a @ d) [((HostV4 [1, 1, 1, 1], 53), ?d)]"
    by (simp add: probe_example_def addrBytes_def be_bytes_2)
  have t: "queryType ''aaaa'' = 28" by code_simp
  have "\<exists>q r. ProbeUDPQuality probe_example ''1.1.1.1:53'' (join ''.'' [''example'', ''com''] @ ''.'') ''aaaa'' = (r, [[1, 1, 1, 1, 1, 0, 53] @ q]) \<and>
     readQuestion q = Some (unat (pTxid probe_example), 0x0100, 1, [''example'', ''com''], unat (queryType ''aaaa''), 1) \<and>
     (snd r = None \<longleftrightarrow> (\<exists>a d. (a, d) \<in> set [((HostV4 [1, 1, 1, 1], 53 :: nat), ?d)] \<and> 12 \<le> length d \<and>
       be_nat (take 2 d) = unat (pTxid probe_example) \<and> 128 \<le> unat (d ! 2)))"
    by (rule dns_probe_exact [OF _ _ _ _ _ _ _ d]) (auto simp: probe_example_def addrValid_def)
  then show ?thesis
    by (simp add: t probe_example_def be_nat_Cons)
qed

end
