(* ===== verification/Udp_Session.thy ===== *)
theory Udp_Session
  imports Socks "HOL-Library.AList"
begin

text \<open>
  \<^verbatim>\<open>OutlineUDPSession\<close> of \<^verbatim>\<open>internal/outline_udp_session.go\<close>: datagrams of many
  flows over one encrypted WebSocket, replies handed to subscribers by source address. A channel
  is a number, the index of its state in \<open>chans\<close>: its buffer and whether it is closed. The
  mutex protects the map of subscriptions, but \<^verbatim>\<open>readLoop\<close> sends to the channel after it
  has released the lock, so looking up and sending are two steps of the reading goroutine. The
  pools of buffers only save allocations and have no model: a payload is its bytes. Encryption
  and \<^verbatim>\<open>socks.ParseAddr\<close> are arguments.
\<close>

section \<open>Definitions\<close>

subsection \<open>Address keys\<close>

record addrKey =
  katyp :: byte
  kip :: bytes
  kport :: nat
  kdomain :: string

definition keyZero :: addrKey where
  "keyZero = \<lparr>katyp = 0, kip = replicate 16 0, kport = 0, kdomain = []\<rparr>"

definition pad16 :: "bytes \<Rightarrow> bytes" where
  "pad16 b = b @ replicate (16 - length b) 0"

definition keyEnd :: "bytes \<Rightarrow> addrKey \<Rightarrow> nat \<Rightarrow> (addrKey \<times> nat) option" where
  "keyEnd plain k off = Some (k\<lparr>kport := unat (plain ! off) * 256 + unat (plain ! (off + 1))\<rparr>, off + 2)"

definition parseAddrKeyFromPlain :: "bytes \<Rightarrow> (addrKey \<times> nat) option" where
  "parseAddrKeyFromPlain plain =
     (if length plain < 1 then None
      else let k = keyZero\<lparr>katyp := plain ! 0\<rparr>; off = 1
           in if katyp k = 0x01 then
                (if length plain < off + 4 + 2 then None
                 else keyEnd plain (k\<lparr>kip := pad16 (take 4 (drop off plain))\<rparr>) (off + 4))
              else if katyp k = 0x04 then
                (if length plain < off + 16 + 2 then None
                 else keyEnd plain (k\<lparr>kip := take 16 (drop off plain)\<rparr>) (off + 16))
              else if katyp k = 0x03 then
                (if length plain < off + 1 then None
                 else let l = unat (plain ! off); off = off + 1
                      in if length plain < off + l + 2 then None
                         else keyEnd plain (k\<lparr>kdomain := string_of (take l (drop off plain))\<rparr>) (off + l))
              else None)"

definition addrKeyFromHostPort :: "string \<Rightarrow> addrKey option" where
  "addrKeyFromHostPort hp =
     (case splitHostPort hp of
        Inl e \<Rightarrow> None
      | Inr (host, portStr) \<Rightarrow>
          (case ParseUint16 portStr of
             None \<Rightarrow> None
           | Some port \<Rightarrow>
               (case Option.bind (ParseIP host) To4 of
                  Some ip4 \<Rightarrow> Some (keyZero\<lparr>katyp := 0x01, kip := pad16 ip4, kport := port\<rparr>)
                | None \<Rightarrow>
                    (case Option.bind (ParseIP host) To16 of
                       Some ip6 \<Rightarrow> Some (keyZero\<lparr>katyp := 0x04, kip := ip6, kport := port\<rparr>)
                     | None \<Rightarrow> Some (keyZero\<lparr>katyp := 0x03, kdomain := host, kport := port\<rparr>)))))"

subsection \<open>The session\<close>

record chan =
  cbuf :: "bytes list"
  cclosed :: bool

datatype readerState = RWaits | RHolds nat bytes | RDone | RPanics

record OutlineUDPSession =
  subs :: "(addrKey \<times> nat) list"
  chans :: "chan list"
  usCanceled :: bool
  usEncClosed :: bool
  usWsClosed :: bool
  usReader :: readerState

definition udpChanCap :: nat where [simp]: "udpChanCap = 128"

definition newUDPSession :: OutlineUDPSession where
  "newUDPSession = \<lparr>subs = [], chans = [], usCanceled = False, usEncClosed = False, usWsClosed = False, usReader = RWaits\<rparr>"

text \<open>
  \<^verbatim>\<open>NewOutlineUDPSession\<close>: acquiring the WebSocket and picking the cipher may fail; the
  second result tells whether the WebSocket was closed on the way out.
\<close>

definition NewOutlineUDPSession :: "err option \<Rightarrow> err option \<Rightarrow> (err + OutlineUDPSession) \<times> bool" where
  "NewOutlineUDPSession acquireErr pickErr =
     (case acquireErr of
        Some e \<Rightarrow> (Inl e, False)
      | None \<Rightarrow> (case pickErr of Some e \<Rightarrow> (Inl e, True) | None \<Rightarrow> (Inr newUDPSession, False)))"

text \<open>\<^verbatim>\<open>close(ch)\<close> followed by \<^verbatim>\<open>drainUDPPayloadChan\<close>.\<close>

definition closeAndDrain :: "nat \<Rightarrow> chan list \<Rightarrow> chan list" where
  "closeAndDrain ch cs = cs[ch := \<lparr>cbuf = [], cclosed = True\<rparr>]"

definition us_Close :: "OutlineUDPSession \<Rightarrow> OutlineUDPSession" where
  "us_Close s =
     s\<lparr>usCanceled := True, usEncClosed := True, usWsClosed := True,
       chans := fold closeAndDrain (map snd (subs s)) (chans s), subs := []\<rparr>"

definition Subscribe :: "string \<Rightarrow> OutlineUDPSession \<Rightarrow> nat \<times> OutlineUDPSession" where
  "Subscribe from s =
     (case addrKeyFromHostPort from of
        None \<Rightarrow> (length (chans s), s\<lparr>chans := chans s @ [\<lparr>cbuf = [], cclosed = True\<rparr>]\<rparr>)
      | Some k \<Rightarrow>
          (case map_of (subs s) k of
             Some ch \<Rightarrow> (ch, s)
           | None \<Rightarrow>
               let ch = length (chans s)
               in (ch, s\<lparr>chans := chans s @ [\<lparr>cbuf = [], cclosed = False\<rparr>], subs := AList.update k ch (subs s)\<rparr>)))"

definition Unsubscribe :: "string \<Rightarrow> OutlineUDPSession \<Rightarrow> OutlineUDPSession" where
  "Unsubscribe from s =
     (case addrKeyFromHostPort from of
        None \<Rightarrow> s
      | Some k \<Rightarrow>
          (case map_of (subs s) k of
             None \<Rightarrow> s
           | Some ch \<Rightarrow> s\<lparr>subs := AList.delete k (subs s), chans := closeAndDrain ch (chans s)\<rparr>))"

text \<open>\<open>enc\<close> encrypts and sends one plaintext; its error is the result.\<close>

definition us_Send :: "(string \<Rightarrow> bytes option) \<Rightarrow> (bytes \<Rightarrow> err option) \<Rightarrow> string \<Rightarrow> bytes \<Rightarrow> err option" where
  "us_Send parseAddr enc dst payload =
     (case parseAddr dst of
        None \<Rightarrow> Some (Sentinel ''address type not supported'')
      | Some ssAddr \<Rightarrow> enc (ssAddr @ payload))"

text \<open>The first half of a turn of \<^verbatim>\<open>readLoop\<close>: parse, copy, look up the channel.\<close>

definition lookupReply :: "bytes \<Rightarrow> OutlineUDPSession \<Rightarrow> (nat \<times> bytes) option" where
  "lookupReply plain s =
     (case parseAddrKeyFromPlain plain of
        None \<Rightarrow> None
      | Some (k, off) \<Rightarrow>
          if off > length plain then None
          else if length plain - off \<le> 0 then None
          else map_option (\<lambda>ch. (ch, drop off plain)) (map_of (subs s) k))"

text \<open>The second half: the non-blocking send. Sending to a closed channel panics.\<close>

definition sendReply :: "nat \<Rightarrow> bytes \<Rightarrow> OutlineUDPSession \<Rightarrow> OutlineUDPSession" where
  "sendReply ch p s =
     (if cclosed (chans s ! ch) then s\<lparr>usReader := RPanics\<rparr>
      else s\<lparr>usReader := RWaits, chans :=
        (if length (cbuf (chans s ! ch)) < udpChanCap
         then (chans s)[ch := (chans s ! ch)\<lparr>cbuf := cbuf (chans s ! ch) @ [p]\<rparr>] else chans s)\<rparr>)"

definition readReply :: "bytes \<Rightarrow> OutlineUDPSession \<Rightarrow> OutlineUDPSession" where
  "readReply plain s =
     (case lookupReply plain s of None \<Rightarrow> s | Some (ch, p) \<Rightarrow> sendReply ch p s)"

definition recvChan :: "nat \<Rightarrow> OutlineUDPSession \<Rightarrow> bytes option \<times> OutlineUDPSession" where
  "recvChan ch s =
     (case cbuf (chans s ! ch) of
        [] \<Rightarrow> (None, s)
      | p # ps \<Rightarrow> (Some p, s\<lparr>chans := (chans s)[ch := (chans s ! ch)\<lparr>cbuf := ps\<rparr>]\<rparr>))"

subsection \<open>Everything at once\<close>

inductive us_step :: "OutlineUDPSession \<Rightarrow> OutlineUDPSession \<Rightarrow> bool" where
  subscribe: "us_step s (snd (Subscribe from s))"
| unsubscribe: "us_step s (Unsubscribe from s)"
| closing: "us_step s (us_Close s)"
| receive: "ch < length (chans s) \<Longrightarrow> us_step s (snd (recvChan ch s))"
| nothing: "usReader s = RWaits \<Longrightarrow> lookupReply plain s = None \<Longrightarrow> us_step s s"
| found: "usReader s = RWaits \<Longrightarrow> lookupReply plain s = Some (ch, p) \<Longrightarrow> us_step s (s\<lparr>usReader := RHolds ch p\<rparr>)"
| send: "usReader s = RHolds ch p \<Longrightarrow> us_step s (sendReply ch p s)"
| readErr: "usReader s = RWaits \<Longrightarrow> us_step s (s\<lparr>usReader := RDone\<rparr>)"

section \<open>Keys of addresses\<close>

definition keyOf :: "socksAddr \<Rightarrow> addrKey" where
  "keyOf a = (case fst a of
      HostV4 b \<Rightarrow> keyZero\<lparr>katyp := 0x01, kip := pad16 b, kport := snd a\<rparr>
    | HostV6 b \<Rightarrow> keyZero\<lparr>katyp := 0x04, kip := b, kport := snd a\<rparr>
    | HostName b \<Rightarrow> keyZero\<lparr>katyp := 0x03, kdomain := string_of b, kport := snd a\<rparr>)"

lemma keyOf_inj: "addrValid a \<Longrightarrow> addrValid b \<Longrightarrow> keyOf a = keyOf b \<Longrightarrow> a = b"
  by (cases a; cases b; cases "fst a"; cases "fst b")
    (auto simp: keyOf_def keyZero_def pad16_def addrValid_def dest: arg_cong [of _ _ bytes_of])

lemma port_pair: "p < 2 ^ 16 \<Longrightarrow> unat (word_of_nat (p div 256) :: byte) * 256 + unat (word_of_nat p :: byte) = p"
proof -
  assume "p < 2 ^ 16"
  then have "p div 256 < 256" by (simp add: less_mult_imp_div_less)
  then show ?thesis by (simp add: unat_of_nat)
qed

lemma parseKey_bytes:
  assumes "addrValid a"
  shows "parseAddrKeyFromPlain (addrBytes a @ data) = Some (keyOf a, length (addrBytes a))"
proof -
  obtain h p where a: "a = (h, p)" by (cases a)
  have p: "p < 2 ^ 16" using assms a by (simp add: addrValid_def)
  note port = port_pair [OF p]
  show ?thesis
  proof (cases h)
    case (HostName b)
    have "unat (word_of_nat (length b) :: byte) = length b"
      using assms a HostName by (simp add: addrValid_def unat_of_nat)
    with HostName a port show ?thesis
      by (simp add: parseAddrKeyFromPlain_def keyEnd_def addrBytes_def keyOf_def be_bytes_2 nth_append keyZero_def)
  next
    case (HostV4 b)
    with assms a port show ?thesis
      by (simp add: parseAddrKeyFromPlain_def keyEnd_def addrBytes_def keyOf_def be_bytes_2 nth_append keyZero_def addrValid_def)
  next
    case (HostV6 b)
    with assms a port show ?thesis
      by (simp add: parseAddrKeyFromPlain_def keyEnd_def addrBytes_def keyOf_def be_bytes_2 nth_append keyZero_def addrValid_def)
  qed
qed

lemma key_of_text:
  assumes "length ip = 4 \<or> length ip = 16" and "port < 2 ^ 16"
  shows "addrKeyFromHostPort (joinHostPort (Addr_String ip) (itoa port)) = Some (keyOf (ipHost ip, port))"
proof -
  have s: "splitHostPort (joinHostPort (Addr_String ip) (itoa port)) = Inr (Addr_String ip, itoa port)"
    using plainHost_addr(2) [OF assms(1)] plainHost_itoa by (intro splitHostPort_join) auto
  have r: "ParseIP (Addr_String ip) = To16 ip" by (rule ParseIP_Addr_String [OF assms(1)])
  have t: "Option.bind (To16 ip) To4 = To4 ip" "To4 ip = None \<Longrightarrow> To16 ip = Some ip \<and> length ip = 16"
    using assms(1) by (auto simp: To16_def To4_def v4prefix_def)
  show ?thesis
  proof (cases "To4 ip")
    case (Some p4)
    with s r t(1) ParseUint16_itoa [OF assms(2)] show ?thesis
      by (simp add: addrKeyFromHostPort_def keyOf_def ipHost_def)
  next
    case None
    with s r t ParseUint16_itoa [OF assms(2)] show ?thesis
      by (simp add: addrKeyFromHostPort_def keyOf_def ipHost_def To16_def)
  qed
qed

section \<open>Subscribed channels are open\<close>

definition us_inv :: "OutlineUDPSession \<Rightarrow> bool" where
  "us_inv s \<longleftrightarrow> distinct (map fst (subs s)) \<and> distinct (map snd (subs s)) \<and>
     (\<forall>ch \<in> snd ` set (subs s). ch < length (chans s)) \<and>
     (\<forall>ch < length (chans s). cclosed (chans s ! ch) \<longleftrightarrow> ch \<notin> snd ` set (subs s)) \<and>
     (\<forall>ch < length (chans s). length (cbuf (chans s ! ch)) \<le> udpChanCap \<and> (cclosed (chans s ! ch) \<longrightarrow> cbuf (chans s ! ch) = [])) \<and>
     (\<forall>ch p. usReader s = RHolds ch p \<longrightarrow> ch < length (chans s))"

lemma closeAll:
  "length (fold closeAndDrain xs cs) = length cs"
  "i < length cs \<Longrightarrow> fold closeAndDrain xs cs ! i = (if i \<in> set xs then \<lparr>cbuf = [], cclosed = True\<rparr> else cs ! i)"
  by (induction xs arbitrary: cs) (auto simp: closeAndDrain_def nth_list_update)

lemma us_inv_new: "us_inv newUDPSession"
  by (simp add: us_inv_def newUDPSession_def)

lemma us_inv_Close: "us_inv s \<Longrightarrow> us_inv (us_Close s)"
  by (auto simp: us_inv_def us_Close_def closeAll)

lemma map_of_distinct_snd:
  "distinct (map snd m) \<Longrightarrow> map_of m k = Some v \<Longrightarrow> v \<notin> snd ` set (AList.delete k m)"
proof
  assume d: "distinct (map snd m)" and v: "map_of m k = Some v" and "v \<in> snd ` set (AList.delete k m)"
  then obtain k' where "(k', v) \<in> set m" "k' \<noteq> k" by (auto simp: AList.delete_eq)
  moreover have "(k, v) \<in> set m" using v by (rule map_of_SomeD)
  ultimately show False
    using d inj_onD [of snd "set m" "(k', v)" "(k, v)"] by (auto simp: distinct_map)
qed

lemma update_new: "k \<notin> fst ` set m \<Longrightarrow> AList.update k v m = m @ [(k, v)]"
  by (induction m) auto

lemma us_inv_Subscribe: "us_inv s \<Longrightarrow> us_inv (snd (Subscribe from s))"
proof (cases "addrKeyFromHostPort from")
  case None
  assume "us_inv s"
  with None show ?thesis by (auto simp: us_inv_def Subscribe_def nth_append less_Suc_eq)
next
  case (Some k)
  assume inv: "us_inv s"
  show ?thesis
  proof (cases "map_of (subs s) k")
    case new: None
    then have u: "AList.update k v (subs s) = subs s @ [(k, v)]" for v
      by (simp add: map_of_eq_None_iff update_new)
    have "k \<notin> fst ` set (subs s)" using new by (simp add: map_of_eq_None_iff)
    with inv Some new show ?thesis
      by (auto simp: us_inv_def Subscribe_def Let_def u nth_append less_Suc_eq)
  qed (use inv Some in \<open>simp add: Subscribe_def\<close>)
qed

lemma us_inv_Unsubscribe: "us_inv s \<Longrightarrow> us_inv (Unsubscribe from s)"
proof (cases "addrKeyFromHostPort from")
  case (Some k)
  assume inv: "us_inv s"
  show ?thesis
  proof (cases "map_of (subs s) k")
    case (Some ch)
    have d: "snd ` set (AList.delete k (subs s)) = snd ` set (subs s) - {ch}"
    proof
      show "snd ` set (AList.delete k (subs s)) \<subseteq> snd ` set (subs s) - {ch}"
        using map_of_distinct_snd [OF _ Some] inv by (auto simp: us_inv_def AList.delete_eq)
      show "snd ` set (subs s) - {ch} \<subseteq> snd ` set (AList.delete k (subs s))"
      proof
        fix v
        assume "v \<in> snd ` set (subs s) - {ch}"
        then obtain k' where v: "(k', v) \<in> set (subs s)" "v \<noteq> ch" by auto
        have "distinct (map fst (subs s))" using inv by (simp add: us_inv_def)
        then have "map_of (subs s) k' = Some v" using v(1) by (rule map_of_is_SomeI)
        with Some v(2) have "k' \<noteq> k" by auto
        with v(1) have "(k', v) \<in> set (AList.delete k (subs s))" by (simp add: AList.delete_eq)
        then show "v \<in> snd ` set (AList.delete k (subs s))" by (rule image_eqI [rotated]) simp
      qed
    qed
    have "distinct (map fst (AList.delete k (subs s)))" "distinct (map snd (AList.delete k (subs s)))"
      using inv by (auto simp: us_inv_def AList.delete_eq distinct_map_filter)
    moreover have "ch < length (chans s)"
      using inv map_of_SomeD [OF Some] unfolding us_inv_def by force
    ultimately show ?thesis
      using inv \<open>addrKeyFromHostPort from = Some k\<close> Some d
      by (auto simp: us_inv_def Unsubscribe_def closeAndDrain_def nth_list_update)
  qed (use inv Some in \<open>simp add: Unsubscribe_def\<close>)
qed (simp add: Unsubscribe_def)

lemma lookupReply_mem: "lookupReply plain s = Some (ch, p) \<Longrightarrow> ch \<in> snd ` set (subs s)"
  by (auto simp: lookupReply_def split: option.splits if_splits dest!: map_of_SomeD) force

lemma us_inv_step:
  assumes "us_step s s'" and "us_inv s"
  shows "us_inv s'"
  using assms
proof (induction rule: us_step.induct)
  case (receive ch s)
  then show ?case
    by (auto simp: us_inv_def recvChan_def nth_list_update split: list.split)
next
  case (found s plain ch p)
  with lookupReply_mem [OF found(2)] show ?case
    by (auto simp: us_inv_def)
next
  case (send s ch p)
  then show ?case
    by (auto simp: us_inv_def sendReply_def nth_list_update)
qed (auto simp: us_inv_Close us_inv_Subscribe us_inv_Unsubscribe, auto simp: us_inv_def)

lemma us_inv_reach: "us_step\<^sup>*\<^sup>* newUDPSession s \<Longrightarrow> us_inv s"
  by (induction rule: rtranclp_induct) (auto simp: us_inv_new intro: us_inv_step)

lemma readReply_subscribed:
  assumes "us_inv s" and "map_of (subs s) (keyOf a) = Some ch" and "addrValid a" and "data \<noteq> []"
  shows "readReply (addrBytes a @ data) s = sendReply ch data s" and "ch < length (chans s)" and "\<not> cclosed (chans s ! ch)"
proof -
  show "readReply (addrBytes a @ data) s = sendReply ch data s"
    using parseKey_bytes [OF assms(3), of data] assms(2,4) by (simp add: readReply_def lookupReply_def)
  have "ch \<in> snd ` set (subs s)" using map_of_SomeD [OF assms(2)] by force
  with assms(1) show "ch < length (chans s)" "\<not> cclosed (chans s ! ch)" unfolding us_inv_def by blast+
qed

lemma readReply_other:
  assumes "us_inv s" and "map_of (subs s) (keyOf a) = Some ch" and "addrValid a" and "addrValid b" and "b \<noteq> a"
  shows "chans (readReply (addrBytes b @ data) s) ! ch = chans s ! ch"
proof (cases "map_of (subs s) (keyOf b)")
  case None
  then show ?thesis
    using parseKey_bytes [OF assms(4), of data] by (simp add: readReply_def lookupReply_def)
next
  case (Some ch')
  have "keyOf a \<noteq> keyOf b" using keyOf_inj assms(3-5) by blast
  moreover have "inj_on snd (set (subs s))" using assms(1) by (simp add: us_inv_def distinct_map)
  ultimately have "ch' \<noteq> ch"
    using inj_onD [of snd "set (subs s)" "(keyOf a, ch)" "(keyOf b, ch')"] map_of_SomeD [OF Some] map_of_SomeD [OF assms(2)] by auto
  with Some show ?thesis
    using parseKey_bytes [OF assms(4), of data] by (simp add: readReply_def lookupReply_def sendReply_def)
qed

lemma Subscribe_maps:
  assumes "addrKeyFromHostPort from = Some k" and "Subscribe from s = (ch, s1)"
  shows "map_of (subs s1) k = Some ch"
  using assms by (auto simp: Subscribe_def Let_def update_conv' split: option.splits)

lemma session_example_ip: "addrKeyFromHostPort ''1.2.3.4:53'' = Some (keyOf (HostV4 [1, 2, 3, 4], 53))"
proof -
  have "joinHostPort (Addr_String [1, 2, 3, 4]) (itoa 53) = ''1.2.3.4:53''" by code_simp
  with key_of_text [of "[1, 2, 3, 4]" 53] show ?thesis by (simp add: ipHost_def To4_def)
qed

section \<open>Properties\<close>

text \<open>
  C30. However subscribing, unsubscribing, closing, receiving and the reading goroutine interleave:
  each address and each channel is subscribed at most once, a channel is closed exactly when it is
  not (or no longer) subscribed, no channel holds more than 128 payloads, and a closed channel
  holds none, so no payload outlives its subscription.
\<close>

theorem udp_session_channels:
  assumes "us_step\<^sup>*\<^sup>* newUDPSession s"
  shows "distinct (map fst (subs s)) \<and> distinct (map snd (subs s)) \<and>
    (\<forall>ch < length (chans s). (cclosed (chans s ! ch) \<longleftrightarrow> ch \<notin> snd ` set (subs s)) \<and>
       length (cbuf (chans s ! ch)) \<le> 128 \<and> (cclosed (chans s ! ch) \<longrightarrow> cbuf (chans s ! ch) = []))"
  using us_inv_reach [OF assms] by (simp add: us_inv_def)

theorem udp_session_channels_witness:
  "\<exists>s. us_step\<^sup>*\<^sup>* newUDPSession s \<and> length (chans s) = 1 \<and> \<not> cclosed (chans s ! 0) \<and> 0 \<in> snd ` set (subs s)"
proof -
  let ?s = "snd (Subscribe ''1.2.3.4:53'' newUDPSession)"
  have r: "us_step\<^sup>*\<^sup>* newUDPSession ?s" by (intro r_into_rtranclp us_step.subscribe)
  have "length (chans ?s) = 1" "0 \<in> snd ` set (subs ?s)"
    using session_example_ip by (simp_all add: Subscribe_def newUDPSession_def Let_def)
  with udp_session_channels [OF r] r show ?thesis by auto
qed

text \<open>
  C31. The reading goroutine panics on a closed channel exactly when the subscription it looked up
  has ended before it sends: \<^verbatim>\<open>readLoop\<close> sends without holding the lock that
  \<^verbatim>\<open>Unsubscribe\<close> and \<^verbatim>\<open>Close\<close> hold while they close the channel. Such runs exist.
\<close>

theorem udp_reader_panics_iff:
  assumes "us_step\<^sup>*\<^sup>* newUDPSession s" and "usReader s = RHolds ch p"
  shows "usReader (sendReply ch p s) = RPanics \<longleftrightarrow> ch \<notin> snd ` set (subs s)"
  using us_inv_reach [OF assms(1)] assms(2) by (auto simp: us_inv_def sendReply_def)

theorem udp_reader_panics_iff_witness:
  "\<exists>s. us_step\<^sup>*\<^sup>* newUDPSession s \<and> usReader s = RPanics"
proof -
  let ?s1 = "snd (Subscribe ''1.2.3.4:53'' newUDPSession)"
  let ?a = "(HostV4 [1, 2, 3, 4], 53)"
  have key: "addrKeyFromHostPort ''1.2.3.4:53'' = Some (keyOf ?a)"
    by (rule session_example_ip)
  have v: "addrValid ?a" by (simp add: addrValid_def)
  have m: "subs ?s1 = [(keyOf ?a, 0)]" "length (chans ?s1) = 1" "usReader ?s1 = RWaits"
    using key by (simp_all add: Subscribe_def newUDPSession_def Let_def)
  have l: "lookupReply (addrBytes ?a @ [7]) ?s1 = Some (0, [7])"
    using parseKey_bytes [OF v, of "[7]"] m by (simp add: lookupReply_def)
  let ?s2 = "?s1\<lparr>usReader := RHolds 0 [7]\<rparr>" and ?s3 = "Unsubscribe ''1.2.3.4:53'' (?s1\<lparr>usReader := RHolds 0 [7]\<rparr>)"
  have r: "us_step\<^sup>*\<^sup>* newUDPSession ?s3"
    using us_step.subscribe us_step.found [OF m(3) l] us_step.unsubscribe
    by (meson rtranclp.rtrancl_into_rtrancl rtranclp.rtrancl_refl)
  have h: "usReader ?s3 = RHolds 0 [7]" "subs ?s3 = []"
    using key m by (simp_all add: Unsubscribe_def AList.delete_eq)
  with udp_reader_panics_iff [OF r h(1)] have "usReader (sendReply 0 [7] ?s3) = RPanics" by simp
  moreover have "us_step ?s3 (sendReply 0 [7] ?s3)" using us_step.send [OF h(1)] .
  ultimately show ?thesis using r by (meson rtranclp.rtrancl_into_rtrancl)
qed

text \<open>
  C32. Replies find their flow. After a flow subscribes to a destination, given as the text of any
  IPv4 or IPv6 address and port, a plaintext with that address in its header puts its data at the
  end of the flow's channel, unless the channel is full, and a plaintext with any other address
  leaves the channel alone.
\<close>

theorem udp_replies_find_their_flow:
  assumes "us_step\<^sup>*\<^sup>* newUDPSession s" and "length ip = 4 \<or> length ip = 16" and "port < 2 ^ 16"
    and "Subscribe (joinHostPort (Addr_String ip) (itoa port)) s = (ch, s1)" and "data \<noteq> []"
  shows "cbuf (chans (readReply (addrBytes (ipHost ip, port) @ data) s1) ! ch) =
      cbuf (chans s1 ! ch) @ (if length (cbuf (chans s1 ! ch)) < 128 then [data] else []) \<and>
    (addrValid b \<and> b \<noteq> (ipHost ip, port) \<longrightarrow>
      cbuf (chans (readReply (addrBytes b @ data) s1) ! ch) = cbuf (chans s1 ! ch))"
proof -
  have inv: "us_inv s1"
    using us_inv_Subscribe [OF us_inv_reach [OF assms(1)], of "joinHostPort (Addr_String ip) (itoa port)"] assms(4) by simp
  have v: "addrValid (ipHost ip, port)" using ipHost_facts(1) [OF assms(2)] assms(3) by (simp add: addrValid_def)
  note m = Subscribe_maps [OF key_of_text [OF assms(2,3)] assms(4)]
  show ?thesis
    using readReply_subscribed [OF inv m v assms(5)] readReply_other [OF inv m v] by (simp add: sendReply_def)
qed

theorem udp_replies_find_their_flow_witness:
  "cbuf (chans (readReply [1, 1, 2, 3, 4, 0, 53, 9] (snd (Subscribe ''1.2.3.4:53'' newUDPSession))) ! 0) = [[9]]"
proof -
  have t: "joinHostPort (Addr_String [1, 2, 3, 4]) (itoa 53) = ''1.2.3.4:53''" by code_simp
  have b: "addrBytes (ipHost [1, 2, 3, 4], 53) @ [9] = [1, 1, 2, 3, 4, 0, 53, 9]"
    by (simp add: addrBytes_def ipHost_def To4_def be_bytes_2)
  have s: "Subscribe ''1.2.3.4:53'' newUDPSession = (0, snd (Subscribe ''1.2.3.4:53'' newUDPSession))"
    "cbuf (chans (snd (Subscribe ''1.2.3.4:53'' newUDPSession)) ! 0) = []"
    using session_example_ip by (simp_all add: Subscribe_def newUDPSession_def Let_def)
  from udp_replies_find_their_flow [OF rtranclp.rtrancl_refl, of "[1, 2, 3, 4]" 53 0 _ "[9]", unfolded t, OF _ _ s(1)] s(2)
  show ?thesis by (simp add: b)
qed

end
