(* ===== verification/Udp_Ports.thy ===== *)
theory Udp_Ports
  imports Udp_Session Lb_Health "HOL-Library.Multiset"
begin

text \<open>
  UDP flows of the TUN device: the table of port sessions (\<^verbatim>\<open>internal/tun_udp_porttable.go\<close>)
  and the handler of one flow (\<^verbatim>\<open>tunHandleUDP\<close> of \<^verbatim>\<open>internal/tun_native.go\<close>). A
  port session is a number, the index of its state in \<open>psStore\<close>: handlers keep using a port
  session after the table has dropped it. Each lock section is a definition. Between its two
  sections \<^verbatim>\<open>getOrCreate\<close> dials without a lock; the step relation interleaves these
  sections with those of other goroutines and with garbage collection. Time is an input.
\<close>

section \<open>Definitions\<close>

record TunConfig =
  Device :: string
  MTU :: int
  NetNS :: string
  TunDebug :: bool
  UDPMaxFlows :: int
  UDPIdleTimeout :: duration
  UDPGCInterval :: duration
  UDPFlowIdleTimeout :: duration
  UDPMaxDstPerPort :: int

record udpPortKey =
  netProto :: nat
  srcIP :: bytes
  srcPort :: nat

record udpPortSession =
  psUp :: nat
  psSess :: OutlineUDPSession
  lastSeen :: gotime
  flows :: "gotime gomap"

record udpPortTable =
  tcfg :: TunConfig
  psStore :: "udpPortSession list"
  ports :: "(udpPortKey \<times> nat) list"

definition newUDPPortTable :: "TunConfig \<Rightarrow> udpPortTable" where
  "newUDPPortTable c = \<lparr>tcfg = c, psStore = [], ports = []\<rparr>"

definition updPs :: "nat \<Rightarrow> (udpPortSession \<Rightarrow> udpPortSession) \<Rightarrow> udpPortTable \<Rightarrow> udpPortTable" where
  "updPs i f t = t\<lparr>psStore := (psStore t)[i := f (psStore t ! i)]\<rparr>"

subsection \<open>Finding or creating a port session\<close>

definition portLimit :: "TunConfig \<Rightarrow> int" where
  "portLimit c = (if UDPMaxFlows c \<le> 0 then 4096 else UDPMaxFlows c)"

text \<open>The first section: \<open>None\<close> when a session has to be created.\<close>

definition portCheck :: "gotime \<Rightarrow> udpPortKey \<Rightarrow> udpPortTable \<Rightarrow> (err + nat) option \<times> udpPortTable" where
  "portCheck now key t =
     (case map_of (ports t) key of
        Some i \<Rightarrow> (Some (Inr i), updPs i (\<lambda>ps. ps\<lparr>lastSeen := now\<rparr>) t)
      | None \<Rightarrow>
          if int (length (ports t)) \<ge> portLimit (tcfg t)
          then (Some (Inl (Msg (''udp port session limit reached: '' @ itoaInt (portLimit (tcfg t))))), t)
          else (None, t))"

text \<open>
  The second section: a session that another goroutine stored in the meantime wins, the new one is
  closed and forgotten.
\<close>

definition portStore :: "gotime \<Rightarrow> udpPortKey \<Rightarrow> nat \<Rightarrow> OutlineUDPSession \<Rightarrow> udpPortTable \<Rightarrow> nat \<times> udpPortTable" where
  "portStore now key upi sess t =
     (case map_of (ports t) key of
        Some i \<Rightarrow> (i, t)
      | None \<Rightarrow>
          let i = length (psStore t)
          in (i, t\<lparr>psStore := psStore t @ [\<lparr>psUp = upi, psSess = sess, lastSeen = now, flows = []\<rparr>],
                   ports := AList.update key i (ports t)\<rparr>))"

text \<open>
  \<open>mkSession inp upi\<close> is the result of \<^verbatim>\<open>NewOutlineUDPSession\<close> for the picked upstream.
\<close>

record udpIn =
  uNow :: gotime
  uPick :: gotime
  uLog :: gotime
  uReport :: gotime
  uRnd :: "int \<Rightarrow> int"
  mkSession :: "nat \<Rightarrow> err + OutlineUDPSession"

definition getOrCreate :: "udpIn \<Rightarrow> udpPortKey \<Rightarrow> udpPortTable \<times> world \<Rightarrow> (err + nat) \<times> udpPortTable \<times> world" where
  "getOrCreate inp key st =
     (case portCheck (uNow inp) key (fst st) of
        (Some r, t) \<Rightarrow> (r, t, snd st)
      | (None, t) \<Rightarrow>
          (case pickByEndpoint (uPick inp) (uLog inp) False (snd st) of
             (Inl e, w) \<Rightarrow> (Inl e, t, w)
           | (Inr upi, w) \<Rightarrow>
               (case mkSession inp upi of
                  Inl e \<Rightarrow> (Inl e, t, ReportFailure False (Some upi) (Some e) (uReport inp) (uRnd inp) w)
                | Inr sess \<Rightarrow> (case portStore (uNow inp) key upi sess t of (i, t) \<Rightarrow> (Inr i, t, w)))))"

subsection \<open>Garbage collection\<close>

definition portIdle :: "TunConfig \<Rightarrow> duration" where
  "portIdle c = (if UDPIdleTimeout c \<le> 0 then 60 * second else UDPIdleTimeout c)"

definition flowIdle :: "TunConfig \<Rightarrow> duration" where
  "flowIdle c = (if UDPFlowIdleTimeout c \<le> 0 then 30 * second else UDPFlowIdleTimeout c)"

definition expired :: "gotime \<Rightarrow> duration \<Rightarrow> gotime \<Rightarrow> bool" where
  "expired now limit t \<longleftrightarrow> timeSub now t > limit"

definition pruneFlows :: "TunConfig \<Rightarrow> gotime \<Rightarrow> udpPortSession \<Rightarrow> udpPortSession" where
  "pruneFlows c now ps =
     ps\<lparr>flows := filter (\<lambda>(dst, t). \<not> expired now (flowIdle c) t) (flows ps),
        psSess := fold (\<lambda>(dst, t). Unsubscribe dst) (filter (\<lambda>(dst, t). expired now (flowIdle c) t) (flows ps)) (psSess ps)\<rparr>"

definition gcPort :: "TunConfig \<Rightarrow> gotime \<Rightarrow> udpPortSession \<Rightarrow> udpPortSession" where
  "gcPort c now ps =
     (let ps = pruneFlows c now ps
      in if expired now (portIdle c) (lastSeen ps) then ps\<lparr>psSess := us_Close (psSess ps)\<rparr> else ps)"

definition gcOnce :: "gotime \<Rightarrow> udpPortTable \<Rightarrow> udpPortTable" where
  "gcOnce now t =
     t\<lparr>psStore := map (\<lambda>i. if i \<in> snd ` set (ports t) then gcPort (tcfg t) now (psStore t ! i) else psStore t ! i)
          [0..<length (psStore t)],
       ports := filter (\<lambda>(k, i). \<not> expired now (portIdle (tcfg t)) (lastSeen (psStore t ! i))) (ports t)\<rparr>"

subsection \<open>One flow\<close>

datatype subscription = Already | Dropped | Started nat

definition maxDst :: "TunConfig \<Rightarrow> int" where
  "maxDst c = (if UDPMaxDstPerPort c \<le> 0 then 512 else UDPMaxDstPerPort c)"

definition flowSubscribe :: "gotime \<Rightarrow> string \<Rightarrow> nat \<Rightarrow> udpPortTable \<Rightarrow> subscription \<times> udpPortTable" where
  "flowSubscribe now dst i t =
     (let ps = psStore t ! i
      in case map_of (flows ps) dst of
           Some _ \<Rightarrow> (Already, t)
         | None \<Rightarrow>
             if int (length (flows ps)) \<ge> maxDst (tcfg t) then (Dropped, t)
             else case Subscribe dst (psSess ps) of (ch, sess) \<Rightarrow>
               (Started ch, updPs i (\<lambda>ps. ps\<lparr>flows := AList.update dst now (flows ps), psSess := sess\<rparr>) t))"

text \<open>
  After traffic: the flow's time stamp, and the time stamp of whatever session the table has under
  the port's key by now.
\<close>

definition touchFlow :: "gotime \<Rightarrow> string \<Rightarrow> nat \<Rightarrow> udpPortKey \<Rightarrow> udpPortTable \<Rightarrow> udpPortTable" where
  "touchFlow now dst i pk t =
     (let t = updPs i (\<lambda>ps. ps\<lparr>flows := AList.update dst now (flows ps)\<rparr>) t
      in case map_of (ports t) pk of None \<Rightarrow> t | Some j \<Rightarrow> updPs j (\<lambda>ps. ps\<lparr>lastSeen := now\<rparr>) t)"

definition onSess :: "(OutlineUDPSession \<Rightarrow> OutlineUDPSession) \<Rightarrow> nat \<Rightarrow> udpPortTable \<Rightarrow> udpPortTable" where
  "onSess f i t = updPs i (\<lambda>ps. ps\<lparr>psSess := f (psSess ps)\<rparr>) t"

text \<open>
  One turn of the goroutine that forwards replies from channel \<open>ch\<close>: \<open>None\<close> waits, otherwise
  whether it goes on, with the payload it wrote to the stack.
\<close>

definition replyTurn ::
  "gotime \<Rightarrow> err option \<Rightarrow> string \<Rightarrow> nat \<Rightarrow> udpPortKey \<Rightarrow> nat \<Rightarrow> udpPortTable \<Rightarrow> (bool \<times> bytes option \<times> udpPortTable) option" where
  "replyTurn now writeErr dst i pk ch t =
     (case recvChan ch (psSess (psStore t ! i)) of
        (None, _) \<Rightarrow>
          if cclosed (chans (psSess (psStore t ! i)) ! ch) then Some (False, None, onSess (Unsubscribe dst) i t) else None
      | (Some p, sess) \<Rightarrow>
          let t = onSess (\<lambda>_. sess) i t
          in if writeErr \<noteq> None then Some (False, Some p, onSess (Unsubscribe dst) i t)
             else Some (True, Some p, touchFlow now dst i pk t))"

text \<open>
  One turn of the loop that sends to the server. A closed session's packet connection fails with
  \<^verbatim>\<open>net.ErrClosed\<close>; \<open>enc\<close> says what sending gives on an open one.
\<close>

definition encOf :: "(bytes \<Rightarrow> err option) \<Rightarrow> OutlineUDPSession \<Rightarrow> bytes \<Rightarrow> err option" where
  "encOf enc sess b = (if usEncClosed sess then Some NetClosed else enc b)"

definition sendTurn ::
  "udpIn \<Rightarrow> (string \<Rightarrow> bytes option) \<Rightarrow> (bytes \<Rightarrow> err option) \<Rightarrow> string \<Rightarrow> nat \<Rightarrow> udpPortKey \<Rightarrow> bytes \<Rightarrow>
     udpPortTable \<times> world \<Rightarrow> bool \<times> udpPortTable \<times> world" where
  "sendTurn inp parseAddr enc dst i pk payload st =
     (case st of (t, w) \<Rightarrow>
        if payload = [] then (True, t, w)
        else case us_Send parseAddr (encOf enc (psSess (psStore t ! i))) dst payload of
          Some e \<Rightarrow>
            (False, t, ReportFailure False (Some (psUp (psStore t ! i))) (Some e) (uReport inp) (uRnd inp)
               (w\<lparr>wtel := observeTunError ''udp_send'' (wtel w)\<rparr>))
        | None \<Rightarrow> (True, touchFlow (uNow inp) dst i pk t, w))"

definition flowEnd :: "string \<Rightarrow> nat \<Rightarrow> udpPortTable \<Rightarrow> udpPortTable" where
  "flowEnd dst i t = onSess (Unsubscribe dst) i (updPs i (\<lambda>ps. ps\<lparr>flows := AList.delete dst (flows ps)\<rparr>) t)"

fun sendLoop ::
  "(string \<Rightarrow> bytes option) \<Rightarrow> (bytes \<Rightarrow> err option) \<Rightarrow> string \<Rightarrow> nat \<Rightarrow> udpPortKey \<Rightarrow> (udpIn \<times> bytes) list \<Rightarrow>
     udpPortTable \<times> world \<Rightarrow> udpPortTable \<times> world" where
  "sendLoop parseAddr enc dst i pk [] st = st"
| "sendLoop parseAddr enc dst i pk ((inp, p) # ps) st =
     (case sendTurn inp parseAddr enc dst i pk p st of
        (True, st') \<Rightarrow> sendLoop parseAddr enc dst i pk ps st'
      | (False, st') \<Rightarrow> st')"

definition portKeyOf :: "bytes \<Rightarrow> nat \<Rightarrow> udpPortKey" where
  "portKeyOf ip port = \<lparr>netProto = (if length ip = 16 then 6 else 4), srcIP = ip, srcPort = port\<rparr>"

text \<open>
  The handler of a flow on its own: the packets it reads from the stack until reading fails, each
  with the time it is handled at.
\<close>

definition tunHandleUDP ::
  "udpIn \<Rightarrow> (string \<Rightarrow> bytes option) \<Rightarrow> (bytes \<Rightarrow> err option) \<Rightarrow> bytes \<times> nat \<Rightarrow> bytes \<times> nat \<Rightarrow> (udpIn \<times> bytes) list \<Rightarrow>
     udpPortTable \<times> world \<Rightarrow> udpPortTable \<times> world" where
  "tunHandleUDP inp parseAddr enc remote locl pkts st =
     (let dst = joinHostPort (Addr_String (fst locl)) (itoa (snd locl));
          pk = portKeyOf (fst remote) (snd remote)
      in case getOrCreate inp pk st of
           (Inl e, st) \<Rightarrow> st
         | (Inr i, t, w) \<Rightarrow>
             (case flowSubscribe (uNow inp) dst i t of
                (Dropped, t) \<Rightarrow> (t, w)
              | (_, t) \<Rightarrow>
                  (case sendLoop parseAddr enc dst i pk pkts (t, w) of (t, w) \<Rightarrow> (flowEnd dst i t, w))))"

subsection \<open>Goroutines\<close>

text \<open>
  The table and the goroutines that are dialling, each with its key and start time. At most
  \<open>dmax\<close> of them dial at the same time.
\<close>

inductive pt_step :: "nat \<Rightarrow> udpPortTable \<times> (udpPortKey \<times> gotime) multiset \<Rightarrow>
    udpPortTable \<times> (udpPortKey \<times> gotime) multiset \<Rightarrow> bool" for dmax where
  settled: "portCheck now key t = (Some r, t') \<Longrightarrow> pt_step dmax (t, D) (t', D)"
| dials: "portCheck now key t = (None, t') \<Longrightarrow> size D < dmax \<Longrightarrow> pt_step dmax (t, D) (t', add_mset (key, now) D)"
| failed: "pt_step dmax (t, add_mset (key, now) D) (t, D)"
| stored: "pt_step dmax (t, add_mset (key, now) D) (snd (portStore now key upi sess t), D)"
| collects: "pt_step dmax (t, D) (gcOnce now t, D)"
| traffic: "length (psStore t) = length ss \<Longrightarrow> pt_step dmax (t, D) (t\<lparr>psStore := ss\<rparr>, D)"

section \<open>Lemmas\<close>

lemma updPs_simps [simp]:
  "length (psStore (updPs i f t)) = length (psStore t)" "ports (updPs i f t) = ports t" "tcfg (updPs i f t) = tcfg t"
  by (simp_all add: updPs_def)

lemma psStore_updPs: "i < length (psStore t) \<Longrightarrow> psStore (updPs i f t) ! j = (if i = j then f (psStore t ! i) else psStore t ! j)"
  by (simp add: updPs_def nth_list_update)

lemma portCheck_keeps: "portCheck now key t = (r, t') \<Longrightarrow> ports t' = ports t \<and> tcfg t' = tcfg t"
  by (auto simp: portCheck_def split: option.splits if_splits)

lemma portCheck_None: "portCheck now key t = (None, t') \<Longrightarrow> int (length (ports t)) < portLimit (tcfg t)"
  by (auto simp: portCheck_def split: option.splits if_splits)

lemma portStore_length:
  "length (ports (snd (portStore now key upi sess t))) \<le> Suc (length (ports t)) \<and> tcfg (snd (portStore now key upi sess t)) = tcfg t"
  by (auto simp: portStore_def Let_def update_new map_of_eq_None_iff split: option.split)

lemma gcOnce_keeps: "length (ports (gcOnce now t)) \<le> length (ports t)" "tcfg (gcOnce now t) = tcfg t"
  "length (psStore (gcOnce now t)) = length (psStore t)"
  by (simp_all add: gcOnce_def)

lemma gcOnce_nth:
  "i < length (psStore t) \<Longrightarrow> (k, i) \<in> set (ports t) \<Longrightarrow> psStore (gcOnce now t) ! i = gcPort (tcfg t) now (psStore t ! i)"
  by (force simp: gcOnce_def)

definition table_inv :: "TunConfig \<Rightarrow> nat \<Rightarrow> udpPortTable \<times> (udpPortKey \<times> gotime) multiset \<Rightarrow> bool" where
  "table_inv c dmax st \<longleftrightarrow> tcfg (fst st) = c \<and> size (snd st) \<le> dmax \<and>
     int (length (ports (fst st)) + size (snd st)) \<le> portLimit c + int dmax - 1"

lemma table_inv_step:
  assumes "pt_step dmax st st'" and "table_inv c dmax st"
  shows "table_inv c dmax st'"
  using assms
proof (induction rule: pt_step.induct)
  case (settled now key t r t' D)
  with portCheck_keeps [OF settled(1)] show ?case by (simp add: table_inv_def)
next
  case (dials now key t t' D)
  with portCheck_keeps [OF dials(1)] portCheck_None [OF dials(1)] show ?case by (auto simp: table_inv_def)
next
  case (stored t key now D upi sess)
  with portStore_length [of now key upi sess t] show ?case by (auto simp: table_inv_def)
next
  case (collects t D now)
  with gcOnce_keeps [of now t] show ?case by (simp add: table_inv_def)
qed (auto simp: table_inv_def)

lemma table_inv_reach:
  assumes "(pt_step dmax)\<^sup>*\<^sup>* (newUDPPortTable c, {#}) st"
  shows "table_inv c dmax st"
  using assms
proof (induction rule: rtranclp_induct)
  case base
  show ?case by (auto simp: table_inv_def newUDPPortTable_def portLimit_def)
qed (auto intro: table_inv_step)

lemma Unsubscribe_subs:
  "map_of (subs s) k = None \<Longrightarrow> map_of (subs (Unsubscribe x s)) k = None"
  "addrKeyFromHostPort x = Some k \<Longrightarrow> map_of (subs (Unsubscribe x s)) k = None"
  by (auto simp: Unsubscribe_def AList.delete_conv' split: option.split)

lemma fold_Unsubscribe:
  assumes "addrKeyFromHostPort x = Some k" and "x \<in> fst ` set xs"
  shows "map_of (subs (fold (\<lambda>(dst, t). Unsubscribe dst) xs s)) k = None"
proof -
  have keep: "map_of (subs (fold (\<lambda>(dst, t). Unsubscribe dst) ys s)) k = None" if "map_of (subs s) k = None" for ys s
    using that by (induction ys arbitrary: s) (auto simp: Unsubscribe_subs)
  show ?thesis
    using assms(2) by (induction xs arbitrary: s) (auto simp: Unsubscribe_subs(2) [OF assms(1)] keep)
qed

lemma touchFlow_facts:
  assumes "i < length (psStore t)"
  shows "map_of (flows (psStore (touchFlow now dst i pk t) ! i)) dst = Some now"
    and "psSess (psStore (touchFlow now dst i pk t) ! i) = psSess (psStore t ! i)"
  using assms by (auto simp: touchFlow_def Let_def updPs_def nth_list_update update_conv' split: option.split)

lemma readReply_unsubscribed:
  assumes "map_of (subs s) (keyOf a) = None" and "addrValid a"
  shows "readReply (addrBytes a @ data) s = s"
  using parseKey_bytes [OF assms(2), of data] assms(1) by (simp add: readReply_def lookupReply_def)

section \<open>Properties\<close>

text \<open>
  C33. When at most \<open>dmax\<close> goroutines dial at the same time, the table never holds more than the
  configured number of port sessions plus \<open>dmax - 1\<close>: the limit is exact for one goroutine at a
  time, and since it is not checked again after dialling it can be exceeded by the others.
\<close>

theorem port_table_bound:
  assumes "(pt_step dmax)\<^sup>*\<^sup>* (newUDPPortTable c, {#}) (t, D)"
  shows "int (length (ports t)) \<le> portLimit c + int dmax - 1"
  using table_inv_reach [OF assms] by (simp add: table_inv_def)

definition tun_example :: TunConfig where
  "tun_example = \<lparr>Device = ''tun0'', MTU = 1500, NetNS = [], TunDebug = False, UDPMaxFlows = 1, UDPIdleTimeout = 0,
     UDPGCInterval = 0, UDPFlowIdleTimeout = 0, UDPMaxDstPerPort = 0\<rparr>"

theorem port_table_bound_witness:
  "\<exists>t D. (pt_step 2)\<^sup>*\<^sup>* (newUDPPortTable tun_example, {#}) (t, D) \<and> length (ports t) = 2 \<and>
     int (length (ports t)) \<le> portLimit tun_example + 1 \<and> portLimit tun_example = 1"
proof -
  let ?t0 = "newUDPPortTable tun_example" and ?a = "portKeyOf [10, 0, 0, 1] 1" and ?b = "portKeyOf [10, 0, 0, 1] 2"
  let ?t1 = "snd (portStore 0 ?a 0 newUDPSession ?t0)"
  let ?t2 = "snd (portStore 0 ?b 0 newUDPSession ?t1)"
  have l: "portLimit tun_example = 1" by (simp add: portLimit_def tun_example_def)
  have ne: "?a \<noteq> ?b" by (simp add: portKeyOf_def)
  have c: "portCheck 0 k ?t0 = (None, ?t0)" for k
    by (simp add: portCheck_def newUDPPortTable_def l)
  have "pt_step 2 (?t0, {#}) (?t0, {#(?a, 0)#})" "pt_step 2 (?t0, {#(?a, 0)#}) (?t0, {#(?b, 0), (?a, 0)#})"
    using c by (auto intro: pt_step.dials)
  moreover have "pt_step 2 (?t0, {#(?b, 0), (?a, 0)#}) (?t1, {#(?b, 0)#})"
    using pt_step.stored [of 2 ?t0 ?a 0 "{#(?b, 0)#}" 0 newUDPSession] by (simp add: add_mset_commute)
  moreover have "pt_step 2 (?t1, {#(?b, 0)#}) (?t2, {#})"
    by (rule pt_step.stored)
  ultimately have r: "(pt_step 2)\<^sup>*\<^sup>* (?t0, {#}) (?t2, {#})"
    by (meson converse_rtranclp_into_rtranclp rtranclp.rtrancl_refl)
  have "length (ports ?t2) = 2"
    using ne by (simp add: portStore_def newUDPPortTable_def Let_def)
  with r port_table_bound [OF r] l show ?thesis by auto
qed

text \<open>
  C34. A flow that was idle for long enough to be collected, on a port that was not, gets no more
  replies. When it resumes, its packets are sent and its entry is renewed, so nobody subscribes to
  its destination again, and every reply from the destination is dropped.
\<close>

theorem resumed_flow_gets_no_replies:
  assumes "i < length (psStore t)" and "(pk, i) \<in> set (ports t)"
    and "(dst, t0) \<in> set (flows (psStore t ! i))" and "dst = joinHostPort (Addr_String ip) (itoa port)"
    and "length ip = 4 \<or> length ip = 16" and "port < 2 ^ 16"
    and "expired now (flowIdle (tcfg t)) t0" and "\<not> expired now (portIdle (tcfg t)) (lastSeen (psStore t ! i))"
    and "sendTurn inp parseAddr enc dst i pk payload (gcOnce now t, w) = (True, t2, w2)" and "payload \<noteq> []"
  shows "map_of (flows (psStore t2 ! i)) dst = Some (uNow inp) \<and> flowSubscribe now2 dst i t2 = (Already, t2) \<and>
    readReply (addrBytes (ipHost ip, port) @ data) (psSess (psStore t2 ! i)) = psSess (psStore t2 ! i)"
proof -
  let ?g = "gcOnce now t"
  have l: "i < length (psStore ?g)" using assms(1) gcOnce_keeps(3) by simp
  have t2: "t2 = touchFlow (uNow inp) dst i pk ?g"
    using assms(9,10) by (auto simp: sendTurn_def split: option.splits)
  have s: "psSess (psStore ?g ! i) =
      fold (\<lambda>(dst, t). Unsubscribe dst) (filter (\<lambda>(dst, t'). expired now (flowIdle (tcfg t)) t') (flows (psStore t ! i)))
        (psSess (psStore t ! i))" (is "_ = fold _ ?old _")
    using gcOnce_nth [OF assms(1,2)] assms(8) by (simp add: gcPort_def pruneFlows_def Let_def)
  have "dst \<in> fst ` set ?old"
    using assms(3,7) by force
  with fold_Unsubscribe [OF key_of_text [OF assms(5,6)], of ?old "psSess (psStore t ! i)"] s assms(4)
  have "map_of (subs (psSess (psStore ?g ! i))) (keyOf (ipHost ip, port)) = None"
    by simp
  moreover have "addrValid (ipHost ip, port)" using ipHost_facts(1) [OF assms(5)] assms(6) by (simp add: addrValid_def)
  ultimately show ?thesis
    using touchFlow_facts [OF l] t2 by (simp add: readReply_unsubscribed flowSubscribe_def Let_def)
qed

definition table_example :: "gotime \<Rightarrow> udpPortTable" where
  "table_example seen = \<lparr>tcfg = tun_example,
     psStore = [\<lparr>psUp = 0, psSess = snd (Subscribe ''1.2.3.4:53'' newUDPSession), lastSeen = seen, flows = [(''1.2.3.4:53'', 0)]\<rparr>],
     ports = [(portKeyOf [10, 0, 0, 1] 1, 0)]\<rparr>"

definition udp_in_example :: "gotime \<Rightarrow> udpIn" where
  "udp_in_example now = \<lparr>uNow = now, uPick = now, uLog = now, uReport = now, uRnd = (\<lambda>_. 0), mkSession = (\<lambda>_. Inr newUDPSession)\<rparr>"

lemmas table_examples = table_example_def tun_example_def udp_in_example_def expired_def timeSub_def flowIdle_def portIdle_def

theorem resumed_flow_gets_no_replies_witness:
  "let st = sendTurn (udp_in_example (51 * second)) (\<lambda>_. Some []) (\<lambda>_. None) ''1.2.3.4:53'' 0 (portKeyOf [10, 0, 0, 1] 1) [9]
              (gcOnce (50 * second) (table_example (40 * second)), \<lparr>wlb = lb_example, wtel = noMetrics\<rparr>);
       ps = psStore (fst (snd st)) ! 0
   in fst st \<and> map_of (flows ps) ''1.2.3.4:53'' = Some (51 * second) \<and>
      readReply [1, 1, 2, 3, 4, 0, 53, 9] (psSess ps) = psSess ps"
proof -
  let ?t = "table_example (40 * second)" and ?w = "\<lparr>wlb = lb_example, wtel = noMetrics\<rparr>"
  let ?i = "udp_in_example (51 * second)" and ?k = "portKeyOf [10, 0, 0, 1] 1"
  have t: "''1.2.3.4:53'' = joinHostPort (Addr_String [1, 2, 3, 4]) (itoa 53)" by code_simp
  have b: "addrBytes (ipHost [1, 2, 3, 4], 53) @ [9] = [1, 1, 2, 3, 4, 0, 53, 9]"
    by (simp add: addrBytes_def ipHost_def To4_def be_bytes_2)
  have n: "uNow ?i = 51 * second" by (simp add: udp_in_example_def)
  have e: "\<not> usEncClosed (psSess (psStore (gcOnce (50 * second) ?t) ! 0))"
    using session_example_ip
    by (simp add: gcOnce_def gcPort_def pruneFlows_def table_examples newUDPSession_def Subscribe_def Unsubscribe_def Let_def)
  have s: "sendTurn ?i (\<lambda>_. Some []) (\<lambda>_. None) ''1.2.3.4:53'' 0 ?k [9] (gcOnce (50 * second) ?t, ?w) =
      (True, touchFlow (51 * second) ''1.2.3.4:53'' 0 ?k (gcOnce (50 * second) ?t), ?w)"
    using e n by (simp add: sendTurn_def us_Send_def encOf_def)
  show ?thesis
    using resumed_flow_gets_no_replies [of 0 ?t ?k "''1.2.3.4:53''" 0, OF _ _ _ t _ _ _ _ s, where data = "[9]"] n b s
    by (simp add: table_examples)
qed

text \<open>
  C35. A port session that was collected because it was idle counts as a failure of its server. The
  handler of a flow that still uses it fails to send its next packet, whatever the server would have
  said, and the server is reported unhealthy for UDP.
\<close>

theorem collected_port_blames_upstream:
  assumes "i < length (psStore t)" and "(pk, i) \<in> set (ports t)"
    and "expired now (portIdle (tcfg t)) (lastSeen (psStore t ! i))" and "payload \<noteq> []"
    and "lb_wf (wlb w)" and "psUp (psStore t ! i) < length (pool (wlb w))"
  shows "\<exists>w2. sendTurn inp parseAddr enc dst i pk payload (gcOnce now t, w) = (False, gcOnce now t, w2) \<and>
    \<not> healthy (hcOf False (pool (wlb w2) ! psUp (psStore t ! i)))"
proof -
  let ?w = "w\<lparr>wtel := observeTunError ''udp_send'' (wtel w)\<rparr>"
  have g: "psUp (psStore (gcOnce now t) ! i) = psUp (psStore t ! i)" "usEncClosed (psSess (psStore (gcOnce now t) ! i))"
    using gcOnce_nth [OF assms(1,2)] assms(3) by (simp_all add: gcPort_def pruneFlows_def us_Close_def Let_def)
  then obtain e where "us_Send parseAddr (encOf enc (psSess (psStore (gcOnce now t) ! i))) dst payload = Some e"
    by (cases "parseAddr dst") (simp_all add: us_Send_def encOf_def)
  moreover have "down False (psUp (psStore t ! i)) (ReportFailure False (Some (psUp (psStore t ! i))) (Some e) now' r ?w)" for now' r
    using assms(5,6) by (intro down_report) simp_all
  ultimately show ?thesis
    using assms(4) g(1) by (simp add: sendTurn_def down_def)
qed

theorem collected_port_blames_upstream_witness:
  "healthy (hcOf False (pool lb_example ! 0)) \<and>
   \<not> healthy (hcOf False (pool (wlb (snd (snd (sendTurn (udp_in_example (62 * second)) (\<lambda>_. Some []) (\<lambda>_. None) ''1.2.3.4:53'' 0
       (portKeyOf [10, 0, 0, 1] 1) [9] (gcOnce (61 * second) (table_example 0), \<lparr>wlb = lb_example, wtel = noMetrics\<rparr>))))) ! 0))"
proof -
  have w: "lb_wf lb_example" "length (pool lb_example) = 2" "healthy (hcOf False (pool lb_example ! 0))" by code_simp+
  have "\<exists>w2. sendTurn (udp_in_example (62 * second)) (\<lambda>_. Some []) (\<lambda>_. None) ''1.2.3.4:53'' 0 (portKeyOf [10, 0, 0, 1] 1) [9]
      (gcOnce (61 * second) (table_example 0), \<lparr>wlb = lb_example, wtel = noMetrics\<rparr>) =
        (False, gcOnce (61 * second) (table_example 0), w2) \<and>
      \<not> healthy (hcOf False (pool (wlb w2) ! psUp (psStore (table_example 0) ! 0)))"
    using w by (intro collected_port_blames_upstream) (simp_all add: table_examples)
  with w(3) show ?thesis by (auto simp: table_examples)
qed

end
