(* ===== verification/Load_Config.thy ===== *)
theory Load_Config
  imports Udp_Ports
begin

text \<open>
  The configuration (\<^verbatim>\<open>internal/config.go\<close>): the record that the YAML file is decoded into,
  the defaults that \<^verbatim>\<open>LoadConfig\<close> fills in, and the repair of addresses. Reading the file
  and decoding YAML are parameters. The last part is the start of the program
  (\<^verbatim>\<open>cmd/outline-cli-ws/main.go\<close>): which parts it starts, and its accept loop.
\<close>

section \<open>Definitions\<close>

record WebSocketConfig =
  WSDebug :: bool

record Config =
  ListenSOCKS5 :: string
  Tun :: TunConfig
  WebSocket :: WebSocketConfig
  Healthcheck :: HealthcheckConfig
  Selection :: SelectionConfig
  Upstreams :: "UpstreamConfig list"
  Probe :: ProbeConfig
  DisableProbes :: bool
  Fwmark :: "32 word"

subsection \<open>Addresses\<close>

definition normalizeHostPort :: "string \<Rightarrow> string" where
  "normalizeHostPort s =
     (case splitHostPort s of
        Inr _ \<Rightarrow> s
      | Inl _ \<Rightarrow>
          if count_list s (CHR '':'') \<ge> 2 \<and> \<not> hasPrefix s ''['' then
            (case atLast (CHR '':'') s of
               None \<Rightarrow> s
             | Some (host, b) \<Rightarrow>
                 let port = tl b
                 in if host \<noteq> [] \<and> port \<noteq> [] \<and> list_all isDigit port \<and> ParseIP host \<noteq> None
                    then ''['' @ host @ '']:'' @ port else s)
          else s)"

subsection \<open>Defaults\<close>

definition orDefault :: "'a \<Rightarrow> 'a \<Rightarrow> 'a \<Rightarrow> 'a" where
  "orDefault zero d x = (if x = zero then d else x)"

definition tunDefaults :: "TunConfig \<Rightarrow> TunConfig" where
  "tunDefaults t =
     t\<lparr>MTU := orDefault 0 1500 (MTU t), UDPMaxFlows := orDefault 0 4096 (UDPMaxFlows t),
       UDPIdleTimeout := orDefault 0 (60 * second) (UDPIdleTimeout t),
       UDPGCInterval := orDefault 0 (10 * second) (UDPGCInterval t),
       UDPFlowIdleTimeout := orDefault 0 (30 * second) (UDPFlowIdleTimeout t),
       UDPMaxDstPerPort := orDefault 0 512 (UDPMaxDstPerPort t)\<rparr>"

definition healthcheckDefaults :: "HealthcheckConfig \<Rightarrow> HealthcheckConfig" where
  "healthcheckDefaults h =
     h\<lparr>Interval := orDefault 0 (5 * second) (Interval h), Timeout := orDefault 0 (3 * second) (Timeout h),
       FailThreshold := orDefault 0 2 (FailThreshold h), SuccessThreshold := orDefault 0 1 (SuccessThreshold h),
       MinInterval := orDefault 0 (1 * second) (MinInterval h), MaxInterval := orDefault 0 (30 * second) (MaxInterval h),
       Jitter := orDefault 0 (200 * millisecond) (Jitter h),
       BackoffFactor := orDefault (Fin 0) (f_const (16 / 10)) (BackoffFactor h),
       RTTScale := orDefault (Fin 0) (f_const (25 / 100)) (RTTScale h)\<rparr>"

definition selectionDefaults :: "SelectionConfig \<Rightarrow> SelectionConfig" where
  "selectionDefaults s =
     s\<lparr>StickyTTL := orDefault 0 (60 * second) (StickyTTL s), Cooldown := orDefault 0 (20 * second) (Cooldown s),
       MinSwitch := orDefault 0 (20 * millisecond) (MinSwitch s), WarmStandbyN := orDefault 0 2 (WarmStandbyN s),
       WarmStandbyInterval := orDefault 0 (2 * second) (WarmStandbyInterval s),
       StandbyKeepaliveInterval := orDefault 0 (15 * second) (StandbyKeepaliveInterval s),
       StandbyKeepaliveProbeTimeout := orDefault 0 (1200 * millisecond) (StandbyKeepaliveProbeTimeout s)\<rparr>"

definition probeDefaults :: "ProbeConfig \<Rightarrow> ProbeConfig" where
  "probeDefaults p =
     (let none = (\<not> EnableTCP p \<and> \<not> EnableUDP p)
      in p\<lparr>ProbeTimeout := orDefault 0 (2 * second) (ProbeTimeout p),
           TCPTarget := orDefault [] ''example.com:80'' (TCPTarget p),
           UDPTarget := normalizeHostPort (orDefault [] ''1.1.1.1:53'' (UDPTarget p)),
           DNSName := orDefault [] ''example.com'' (DNSName p), DNSType := orDefault [] ''A'' (DNSType p),
           EnableTCP := EnableTCP p \<or> none, EnableUDP := EnableUDP p \<or> none\<rparr>)"

definition upstreamDefaults :: "UpstreamConfig \<Rightarrow> UpstreamConfig" where
  "upstreamDefaults u = (if f_le (Weight u) (Fin 0) then u\<lparr>Weight := Fin 1\<rparr> else u)"

definition configDefaults :: "Config \<Rightarrow> Config" where
  "configDefaults c =
     c\<lparr>Tun := tunDefaults (Tun c), Healthcheck := healthcheckDefaults (Healthcheck c),
       Selection := selectionDefaults (Selection c), Probe := probeDefaults (Probe c),
       Upstreams := map upstreamDefaults (Upstreams c)\<rparr>"

definition LoadConfig :: "(string \<Rightarrow> err + bytes) \<Rightarrow> (bytes \<Rightarrow> err + Config) \<Rightarrow> string \<Rightarrow> err + Config" where
  "LoadConfig readFile unmarshal path = bindE (readFile path) (\<lambda>b. bindE (unmarshal b) (\<lambda>c. Inr (configDefaults c)))"

subsection \<open>Starting the program\<close>

datatype part = MetricsServer string | HealthChecks | WarmStandby | SocksServer string | TunNative TunConfig

text \<open>
  \<open>ifaceErr\<close> and \<open>listenErr\<close> are the results of looking up the interface and of listening;
  \<open>now\<close> is the time at which probes are disabled. \<open>Inl\<close> is \<^verbatim>\<open>log.Fatal\<close>.
\<close>

record startIn =
  metricsAddr :: string
  noProbes :: bool
  ifaceErr :: "string \<Rightarrow> err option"
  listenErr :: "string \<Rightarrow> err option"
  startTime :: gotime

definition startLB :: "startIn \<Rightarrow> Config \<Rightarrow> LoadBalancer" where
  "startLB inp c =
     (let lb = NewLoadBalancer (Upstreams c) (Healthcheck c) (Selection c) (Probe c) (Fwmark c)
      in if DisableProbes c \<or> noProbes inp then DisableBackgroundProbes (startTime inp) lb else lb)"

definition startParts :: "startIn \<Rightarrow> Config \<Rightarrow> err + part list" where
  "startParts inp c =
     (let background =
            (if metricsAddr inp = [] then [] else [MetricsServer (metricsAddr inp)]) @
            (if DisableProbes c \<or> noProbes inp then [] else [HealthChecks, WarmStandby]);
          socks = ListenSOCKS5 c; dev = Device (Tun c);
          socksEnabled = (socks \<noteq> []); tunEnabled = (dev \<noteq> [])
      in if \<not> socksEnabled \<and> \<not> tunEnabled
         then Inl (Msg ''nothing to run: neither listen.socks5 nor tun.device is configured'')
         else case (if tunEnabled \<and> \<not> socksEnabled \<and> NetNS (Tun c) = [] then ifaceErr inp dev else None) of
             Some e \<Rightarrow> Inl (Wrap (''tun-only mode requires existing interface '' @ quote dev @ '': '') e)
           | None \<Rightarrow>
               (case (if socksEnabled then listenErr inp socks else None) of
                  Some e \<Rightarrow> Inl (Wrap (''listen socks5 '' @ socks @ '': '') e)
                | None \<Rightarrow>
                    Inr (background @ (if socksEnabled then [SocksServer socks] else []) @
                         (if tunEnabled then [TunNative (Tun c)] else []))))"

text \<open>
  The accept loop: each event is what \<^verbatim>\<open>Accept\<close> returned and whether the context had ended
  by then. The result is the connections that were served, each with that flag, and whether the
  loop returned.
\<close>

fun acceptLoop :: "((err + 'c) \<times> bool) list \<Rightarrow> ('c \<times> bool) list \<times> bool" where
  "acceptLoop [] = ([], False)"
| "acceptLoop ((Inl e, ended) # evs) = (if ended then ([], True) else acceptLoop evs)"
| "acceptLoop ((Inr c, ended) # evs) = (case acceptLoop evs of (served, r) \<Rightarrow> ((c, ended) # served, r))"

section \<open>Lemmas\<close>

definition ipChar :: "char \<Rightarrow> bool" where
  "ipChar c \<longleftrightarrow> isHex c \<or> c = CHR ''.'' \<or> c = CHR '':''"

lemma splitChar_chars: "c \<in> set s \<Longrightarrow> c = sep \<or> (\<exists>p \<in> set (splitChar sep s). c \<in> set p)"
proof (induction s)
  case (Cons d s)
  then show ?case by (cases "splitChar sep s") (auto split: if_splits)
qed simp

lemma parseIPv4_chars:
  assumes "parseIPv4 s = Some ip"
  shows "list_all ipChar s"
proof -
  have "ipChar c" if "c \<in> set s" for c
    using splitChar_chars [OF that, of "CHR ''.''"] assms
    by (auto simp: parseIPv4_def octet_def list_all_iff ipChar_def isHex_def unhex_def Let_def split: if_splits)
  then show ?thesis by (simp add: list_all_iff)
qed

lemma hex_prefix_chars:
  assumes "dropWhile isHex s = r" and "list_all ipChar r"
  shows "list_all ipChar s"
proof -
  have "list_all ipChar (takeWhile isHex s)"
    by (auto simp: list_all_iff ipChar_def dest: set_takeWhileD)
  with assms show ?thesis
    using takeWhile_dropWhile_id [of isHex s] by (metis list_all_append)
qed

lemma parse6Loop_cases:
  assumes "parse6Loop ip e s = Some (ip', e', [])"
  obtains "s = []" | "dropWhile isHex s = []" | v4 where "parseIPv4 s = Some v4"
  | r i2 e2 where "dropWhile isHex s = CHR '':'' # r" "parse6Loop i2 e2 r = Some (ip', e', [])"
  | r i2 e2 where "dropWhile isHex s = CHR '':'' # CHR '':'' # r" "r = [] \<or> parse6Loop i2 e2 r = Some (ip', e', [])"
proof (cases "length ip \<ge> 16 \<or> dropWhile isHex s = []")
  case True
  with assms that(1,2) show ?thesis by (auto simp: parse6Loop.simps [of ip e s] split: if_splits)
next
  case False
  then obtain c r where r: "dropWhile isHex s = c # r" by (cases "dropWhile isHex s") auto
  note step = assms [unfolded parse6Loop.simps [of ip e s] Let_def r list.case]
  show ?thesis
  proof (cases "c = CHR ''.''")
    case True
    with step False that(3) show ?thesis by (auto split: if_splits)
  next
    case no: False
    with step False have c: "c = CHR '':''" "r \<noteq> []" by (auto split: if_splits)
    then obtain d r' where d: "r = d # r'" by (cases r) auto
    with step False no c r that(4,5) show ?thesis by (auto split: if_splits)
  qed
qed

lemma parse6Loop_chars: "parse6Loop ip e s = Some (ip', e', []) \<Longrightarrow> list_all ipChar s"
proof (induction "length s" arbitrary: ip e s rule: less_induct)
  case less
  have IH: "list_all ipChar r" if "length r < length s" "parse6Loop i2 e2 r = Some (ip', e', [])" for i2 e2 r
    using less.hyps that by blast
  have l: "length r < length s" if "dropWhile isHex s = c # r" for c r
    using that length_dropWhile_le [of isHex s] by simp
  have ip: "ipChar (CHR '':'')" by (simp add: ipChar_def)
  from less.prems show ?case
  proof (cases rule: parse6Loop_cases)
    case (4 r i2 e2)
    with IH [OF l] ip show ?thesis by (auto intro: hex_prefix_chars)
  next
    case (5 r i2 e2)
    with IH [of r] l ip have "list_all ipChar r" by fastforce
    with 5 ip show ?thesis by (auto intro: hex_prefix_chars)
  next
    case 2
    then show ?thesis by (rule hex_prefix_chars) simp
  qed (auto intro: parseIPv4_chars)
qed

lemma ParseIP_plain:
  assumes "ParseIP s = Some ip"
  shows "plainHost s"
proof -
  have "list_all ipChar s"
  proof (cases "\<exists>v4. parseIPv4 s = Some v4")
    case True
    then show ?thesis by (auto intro: parseIPv4_chars)
  next
    case False
    with assms have p6: "parseIPv6 s = Some ip"
      by (auto simp: ParseIP_def split: list.splits if_splits)
    have loop: "list_all ipChar r" if "Option.bind (parse6Loop i e r) parse6End = Some ip" for i e r
      using that by (auto simp: bind_eq_Some_conv parse6End_def split: if_splits intro: parse6Loop_chars)
    show ?thesis
    proof (cases "hasPrefix s ''::''")
      case True
      then obtain r where s: "s = ''::'' @ r"
        by (cases s; cases "tl s") auto
      have "r = [] \<or> list_all ipChar r"
        using p6 s loop [of "[]" "Some 0" r] by (auto simp: parseIPv6_def split: if_splits)
      then show ?thesis by (auto simp: s ipChar_def)
    next
      case False
      with p6 loop show ?thesis by (auto simp: parseIPv6_def)
    qed
  qed
  then show ?thesis
    using brackets_not_hex by (auto simp: plainHost_def list_all_iff ipChar_def)
qed

lemma digits_plain: "list_all isDigit p \<Longrightarrow> plainHost p" "list_all isDigit p \<Longrightarrow> CHR '':'' \<notin> set p"
  by (auto simp: plainHost_def list_all_iff isDigit_def code_def)

lemma atLast_Some:
  assumes "atLast c s = Some (a, b)"
  shows "s = a @ c # tl b \<and> c \<notin> set (tl b)"
proof -
  from assms have "c \<in> set s" by (simp add: atLast_def split: if_splits)
  then obtain a' b' where s: "s = a' @ c # b'" "c \<notin> set b'" using split_list_last by metis
  with atLast_append [OF s(2), of a'] assms show ?thesis by auto
qed

lemma normalize_cases:
  obtains "normalizeHostPort s = s" | host port where "s = host @ '':'' @ port" "normalizeHostPort s = ''['' @ host @ '']:'' @ port"
    "splitHostPort (''['' @ host @ '']:'' @ port) = Inr (host, port)"
proof -
  have "normalizeHostPort s = s \<or>
      (\<exists>host b. atLast (CHR '':'') s = Some (host, b) \<and> list_all isDigit (tl b) \<and> ParseIP host \<noteq> None \<and>
        2 \<le> count_list s (CHR '':'') \<and> normalizeHostPort s = ''['' @ host @ '']:'' @ tl b)"
    unfolding normalizeHostPort_def Let_def by (auto split: sum.split option.split)
  then consider "normalizeHostPort s = s"
    | host b where "atLast (CHR '':'') s = Some (host, b)" "list_all isDigit (tl b)" "ParseIP host \<noteq> None"
      "2 \<le> count_list s (CHR '':'')" "normalizeHostPort s = ''['' @ host @ '']:'' @ tl b"
    by blast
  then show thesis
  proof cases
    case (2 host b)
    have s: "s = host @ '':'' @ tl b" "CHR '':'' \<notin> set (tl b)"
      using atLast_Some [OF 2(1)] by auto
    then have "CHR '':'' \<in> set host"
      using 2(4) count_notin [of "CHR '':''" host] count_notin [of "CHR '':''" "tl b"] by fastforce
    with splitHostPort_join [of host "tl b"] ParseIP_plain 2 digits_plain [OF 2(2)] s that(2) show thesis
      by (auto simp: joinHostPort_def)
  qed (rule that(1))
qed

lemma normalize_valid: "splitHostPort s = Inr x \<Longrightarrow> normalizeHostPort s = s"
  by (simp add: normalizeHostPort_def)

lemma normalize_idem: "normalizeHostPort (normalizeHostPort s) = normalizeHostPort s"
  by (rule normalize_cases [of s]) (simp_all add: normalize_valid)

lemma normalize_neq_Nil: "s \<noteq> [] \<Longrightarrow> normalizeHostPort s \<noteq> []"
  by (rule normalize_cases [of s]) auto

lemma normalize_ip_port:
  assumes "length ip = 4 \<or> length ip = 16"
  shows "normalizeHostPort (IP_String ip @ '':'' @ itoa port) = joinHostPort (IP_String ip) (itoa port)"
proof (cases "CHR '':'' \<in> set (IP_String ip)")
  case False
  then have "joinHostPort (IP_String ip) (itoa port) = IP_String ip @ '':'' @ itoa port"
    by (simp add: joinHostPort_def)
  with normalize_valid [OF splitHostPort_join [OF plainHost_addr(1) [OF assms] plainHost_itoa, of port]] show ?thesis
    by simp
next
  case True
  let ?h = "IP_String ip" and ?p = "itoa port"
  have last: "atLast (CHR '':'') (?h @ '':'' @ ?p) = Some (?h, CHR '':'' # ?p)"
    using atLast_append [OF plainHost_itoa(2), of ?h] by simp
  have np: "\<not> hasPrefix (?h @ '':'' @ ?p) ''[''" "?h \<noteq> []"
    using plainHost_addr(1) [OF assms] True by (cases ?h; auto simp: plainHost_def)+
  have "\<exists>e. splitHostPort (?h @ '':'' @ ?p) = Inl e"
    using True np last by (simp add: splitHostPort_def)
  moreover have "2 \<le> count_list (?h @ '':'' @ ?p) (CHR '':'')"
    using True count_list_0_iff [of ?h "CHR '':''"] by (cases "count_list ?h (CHR '':'')") simp_all
  moreover have "list_all isDigit ?p" "?p \<noteq> []" "ParseIP ?h \<noteq> None"
    using itoa_facts [of port] ParseIP_IP_String [OF assms] assms by (auto simp: To16_def)
  ultimately show ?thesis
    using last np True by (auto simp: normalizeHostPort_def joinHostPort_def)
qed

section \<open>Properties\<close>

text \<open>
  Repairing a target address: the text of any IPv4 or IPv6 address followed by a colon and a
  port, without brackets, becomes an address that splits into exactly that host and port. An
  address that splits already is kept, and a second repair changes nothing.
\<close>

theorem normalize_repairs_addresses:
  assumes "length ip = 4 \<or> length ip = 16"
  shows "splitHostPort (normalizeHostPort (IP_String ip @ '':'' @ itoa port)) = Inr (IP_String ip, itoa port) \<and>
    normalizeHostPort (joinHostPort (IP_String ip) (itoa port)) = joinHostPort (IP_String ip) (itoa port) \<and>
    normalizeHostPort (normalizeHostPort s) = normalizeHostPort s"
  using splitHostPort_join [OF plainHost_addr(1) [OF assms] plainHost_itoa] normalize_ip_port [OF assms]
  by (simp add: normalize_idem normalize_valid)

theorem normalize_repairs_addresses_witness:
  "splitHostPort (normalizeHostPort (IP_String [0x20, 1, 0xd, 0xb8, 0, 0, 0, 0, 0, 0, 0, 0, 0, 0, 0, 1] @ '':'' @ itoa 53)) =
     Inr (IP_String [0x20, 1, 0xd, 0xb8, 0, 0, 0, 0, 0, 0, 0, 0, 0, 0, 0, 1], itoa 53)"
  using normalize_repairs_addresses [of "[0x20, 1, 0xd, 0xb8, 0, 0, 0, 0, 0, 0, 0, 0, 0, 0, 0, 1]" 53] by simp

text \<open>What a file has to keep to: no negative numbers, no number that is not one.\<close>

definition config_sane :: "Config \<Rightarrow> bool" where
  "config_sane c \<longleftrightarrow>
     (let t = Tun c; h = Healthcheck c; s = Selection c
      in list_all (\<lambda>x. 0 \<le> x)
           [MTU t, UDPMaxFlows t, UDPIdleTimeout t, UDPGCInterval t, UDPFlowIdleTimeout t, UDPMaxDstPerPort t,
            Interval h, Timeout h, FailThreshold h, SuccessThreshold h, MinInterval h, MaxInterval h, Jitter h,
            StickyTTL s, Cooldown s, MinSwitch s, WarmStandbyN s, WarmStandbyInterval s, StandbyKeepaliveInterval s,
            StandbyKeepaliveProbeTimeout s, ProbeTimeout (Probe c)] \<and>
         f_le (Fin 0) (BackoffFactor h) \<and> f_le (Fin 0) (RTTScale h) \<and> list_all (\<lambda>u. Weight u \<noteq> NaN) (Upstreams c))"

definition config_ready :: "Config \<Rightarrow> bool" where
  "config_ready c \<longleftrightarrow>
     (let t = Tun c; h = Healthcheck c; s = Selection c; p = Probe c
      in list_all (\<lambda>x. 0 < x)
           [MTU t, UDPMaxFlows t, UDPIdleTimeout t, UDPGCInterval t, UDPFlowIdleTimeout t, UDPMaxDstPerPort t,
            Interval h, Timeout h, FailThreshold h, SuccessThreshold h, MinInterval h, MaxInterval h, Jitter h,
            StickyTTL s, Cooldown s, MinSwitch s, WarmStandbyN s, WarmStandbyInterval s, StandbyKeepaliveInterval s,
            StandbyKeepaliveProbeTimeout s, ProbeTimeout p] \<and>
         f_lt (Fin 0) (BackoffFactor h) \<and> f_lt (Fin 0) (RTTScale h) \<and> list_all (\<lambda>u. f_lt (Fin 0) (Weight u)) (Upstreams c) \<and>
         (EnableTCP p \<or> EnableUDP p) \<and> list_all (\<lambda>x. x \<noteq> []) [TCPTarget p, UDPTarget p, DNSName p, DNSType p])"

lemma orDefault_pos: "0 \<le> x \<Longrightarrow> 0 < d \<Longrightarrow> 0 < orDefault 0 d (x :: int)"
  by (simp add: orDefault_def)

lemma orDefault_f64: "f_le (Fin 0) x \<Longrightarrow> f_lt (Fin 0) d \<Longrightarrow> f_lt (Fin 0) (orDefault (Fin 0) d x)"
  by (cases x) (auto simp: orDefault_def)

lemma orDefault_string: "d \<noteq> [] \<Longrightarrow> orDefault [] d x \<noteq> []"
  by (simp add: orDefault_def)

lemma round64_pos:
  assumes "2 powi (- 1074) \<le> x"
  shows "f_lt (Fin 0) (round64 x)"
proof -
  have x: "0 < x" using assms two_powi_pos [of "- 1074"] by linarith
  have "2 powi (ilog2 x - 52) \<le> (2 :: rat) powi ilog2 x" by (intro power_int_increasing) auto
  with ilog2_bounds(1) [OF x] assms x have "quantum x \<le> x"
    by (auto simp: quantum_def max_def)
  then have "1 \<le> roundEven (x / quantum x)"
    using roundEven_ge [of 1 "x / quantum x"] by (simp add: le_divide_eq)
  then have "0 < of_int (roundEven (x / quantum x)) * quantum x"
    by (intro mult_pos_pos) simp_all
  moreover from this have "\<not> of_int (roundEven (x / quantum x)) * quantum x \<le> - (2 ^ 1024)"
    by (simp add: not_le)
  ultimately show ?thesis
    using x by (simp add: round64_def Let_def)
qed

lemma default_factors: "f_lt (Fin 0) (f_const (16 / 10))" "f_lt (Fin 0) (f_const (25 / 100))"
proof -
  have "(2 :: rat) powi (- 1074) \<le> 2 powi (- 2)" by (intro power_int_increasing) auto
  then have "(2 :: rat) powi (- 1074) \<le> 25 / 100" by (simp add: power_int_minus)
  then show "f_lt (Fin 0) (f_const (16 / 10))" "f_lt (Fin 0) (f_const (25 / 100))"
    by (intro round64_pos; linarith)+
qed

lemma orDefault_idem: "orDefault z d (orDefault z d x) = orDefault z d x"
  by (simp add: orDefault_def)

lemma probeDefaults_idem: "probeDefaults (probeDefaults p) = probeDefaults p"
proof -
  let ?t = "orDefault [] ''1.1.1.1:53'' (UDPTarget p)"
  have "orDefault [] ''1.1.1.1:53'' (normalizeHostPort ?t) = normalizeHostPort ?t"
    using normalize_neq_Nil [OF orDefault_string, of "''1.1.1.1:53''" "UDPTarget p"] by (simp add: orDefault_def)
  then show ?thesis
    by (cases "EnableTCP p"; cases "EnableUDP p") (simp_all add: probeDefaults_def orDefault_idem normalize_idem)
qed

lemma configDefaults_idem: "configDefaults (configDefaults c) = configDefaults c"
proof -
  have "upstreamDefaults (upstreamDefaults u) = upstreamDefaults u" for u
    by (simp add: upstreamDefaults_def)
  then have "map upstreamDefaults (map upstreamDefaults us) = map upstreamDefaults us" for us
    by simp
  moreover have "tunDefaults (tunDefaults t) = tunDefaults t" "healthcheckDefaults (healthcheckDefaults h) = healthcheckDefaults h"
    "selectionDefaults (selectionDefaults s) = selectionDefaults s" for t h s
    by (simp_all add: tunDefaults_def healthcheckDefaults_def selectionDefaults_def orDefault_idem)
  ultimately show ?thesis
    by (simp add: configDefaults_def probeDefaults_idem)
qed

lemma loaded_ready_aux:
  assumes "config_sane c"
  shows "config_ready (configDefaults c)"
proof -
  have "f_lt (Fin 0) (Weight (upstreamDefaults u))" if "u \<in> set (Upstreams c)" for u
    using assms that by (cases "Weight u") (auto simp: config_sane_def upstreamDefaults_def list_all_iff Let_def)
  then show ?thesis
    using assms default_factors orDefault_string [of "''1.1.1.1:53''"]
    by (auto simp add: config_ready_def config_sane_def configDefaults_def tunDefaults_def healthcheckDefaults_def
        selectionDefaults_def probeDefaults_def Let_def list_all_iff orDefault_pos orDefault_f64 orDefault_string normalize_neq_Nil)
qed

lemma probes_on:
  "EnableTCP (Probe (configDefaults c)) \<longleftrightarrow> EnableTCP (Probe c) \<or> \<not> EnableUDP (Probe c)"
  "EnableUDP (Probe (configDefaults c)) \<longleftrightarrow> EnableUDP (Probe c) \<or> \<not> EnableTCP (Probe c)"
  by (auto simp: configDefaults_def probeDefaults_def Let_def)

text \<open>
  C39. The configuration is complete. Whatever a file without negative numbers leaves out, the
  configuration that \<^verbatim>\<open>LoadConfig\<close> returns has positive intervals, limits, thresholds,
  factors and weights, non-empty targets and at least one kind of probe; the UDP port table then
  works with exactly the configured limits and never falls back to its own defaults; and filling
  in the defaults a second time changes nothing. A probe is on when the file enables it or enables
  neither: setting both to \<^verbatim>\<open>false\<close>, which a comment offers as the way to do without
  them, turns both on.
\<close>

theorem loaded_config_ready:
  assumes "readFile path = Inr b" and "unmarshal b = Inr c0" and "config_sane c0"
  shows "\<exists>c. LoadConfig readFile unmarshal path = Inr c \<and> config_ready c \<and>
    portLimit (Tun c) = UDPMaxFlows (Tun c) \<and> portIdle (Tun c) = UDPIdleTimeout (Tun c) \<and>
    flowIdle (Tun c) = UDPFlowIdleTimeout (Tun c) \<and> maxDst (Tun c) = UDPMaxDstPerPort (Tun c) \<and>
    configDefaults c = c \<and>
    (EnableTCP (Probe c) \<longleftrightarrow> EnableTCP (Probe c0) \<or> \<not> EnableUDP (Probe c0)) \<and>
    (EnableUDP (Probe c) \<longleftrightarrow> EnableUDP (Probe c0) \<or> \<not> EnableTCP (Probe c0))"
  using assms loaded_ready_aux [OF assms(3)] configDefaults_idem [of c0] probes_on [of c0]
  by (auto simp: LoadConfig_def config_ready_def portLimit_def portIdle_def flowIdle_def maxDst_def Let_def)

definition config_empty :: Config where
  "config_empty = \<lparr>ListenSOCKS5 = [],
     Tun = \<lparr>Device = [], MTU = 0, NetNS = [], TunDebug = False, UDPMaxFlows = 0, UDPIdleTimeout = 0, UDPGCInterval = 0,
       UDPFlowIdleTimeout = 0, UDPMaxDstPerPort = 0\<rparr>,
     WebSocket = \<lparr>WSDebug = False\<rparr>,
     Healthcheck = \<lparr>Interval = 0, Timeout = 0, FailThreshold = 0, SuccessThreshold = 0, MinInterval = 0, MaxInterval = 0,
       Jitter = 0, BackoffFactor = Fin 0, RTTScale = Fin 0\<rparr>,
     Selection = \<lparr>StickyTTL = 0, Cooldown = 0, MinSwitch = 0, WarmStandbyN = 0, WarmStandbyInterval = 0,
       StandbyKeepalive = False, StandbyKeepaliveInterval = 0, StandbyKeepaliveProbeTimeout = 0\<rparr>,
     Upstreams = [], Probe = \<lparr>EnableTCP = False, EnableUDP = False, ProbeTimeout = 0, TCPTarget = [], UDPTarget = [],
       DNSName = [], DNSType = []\<rparr>, DisableProbes = False, Fwmark = 0\<rparr>"

theorem loaded_config_ready_witness:
  "\<exists>c. LoadConfig (\<lambda>_. Inr []) (\<lambda>_. Inr config_empty) ''config.yaml'' = Inr c \<and> config_ready c \<and>
     portLimit (Tun c) = UDPMaxFlows (Tun c) \<and> UDPMaxFlows (Tun c) = 4096"
proof -
  have "config_sane config_empty" by (simp add: config_sane_def config_empty_def)
  from loaded_config_ready [of "\<lambda>_. Inr []" "''config.yaml''" "[]" "\<lambda>_. Inr config_empty", OF refl refl this]
  obtain c where "LoadConfig (\<lambda>_. Inr []) (\<lambda>_. Inr config_empty) ''config.yaml'' = Inr c" "config_ready c"
    "portLimit (Tun c) = UDPMaxFlows (Tun c)" by blast
  moreover from this(1) have "UDPMaxFlows (Tun c) = 4096"
    by (auto simp: LoadConfig_def configDefaults_def tunDefaults_def config_empty_def orDefault_def)
  ultimately show ?thesis by blast
qed

section \<open>The start of the program\<close>

text \<open>
  A program that starts has a front end. Health checks and warm standby run together or not at
  all; without them every upstream is usable from the start, with them none is before its first
  check.
\<close>

theorem start_consistent:
  assumes "startParts inp c = Inr ps"
  shows "(\<exists>p \<in> set ps. (\<exists>a. p = SocksServer a \<and> a \<noteq> []) \<or> (\<exists>t. p = TunNative t \<and> Device t \<noteq> [])) \<and>
    (HealthChecks \<in> set ps \<longleftrightarrow> WarmStandby \<in> set ps) \<and>
    (\<forall>u \<in> set (pool (startLB inp c)). \<forall>t. healthy (hcOf t u) \<longleftrightarrow> HealthChecks \<notin> set ps)"
proof -
  have "ps = (if metricsAddr inp = [] then [] else [MetricsServer (metricsAddr inp)]) @
      (if DisableProbes c \<or> noProbes inp then [] else [HealthChecks, WarmStandby]) @
      (if ListenSOCKS5 c = [] then [] else [SocksServer (ListenSOCKS5 c)]) @
      (if Device (Tun c) = [] then [] else [TunNative (Tun c)]) \<and> (ListenSOCKS5 c \<noteq> [] \<or> Device (Tun c) \<noteq> [])"
    using assms unfolding startParts_def Let_def
    by (cases "DisableProbes c \<or> noProbes inp") (simp_all split: if_splits option.splits)
  moreover have "healthy (hcOf t u) \<longleftrightarrow> DisableProbes c \<or> noProbes inp" if "u \<in> set (pool (startLB inp c))" for t u
    using that by (auto simp: startLB_def NewLoadBalancer_def DisableBackgroundProbes_def newUpstream_def hcOf_def Let_def split: if_splits)
  ultimately show ?thesis by (cases "DisableProbes c \<or> noProbes inp") auto
qed

text \<open>
  The listener outlives the program's context: once the context has ended without the listener
  being closed, as it does when the TUN part fails, the accept loop goes on and serves every
  connection under the ended context.
\<close>

theorem accept_outlives_context:
  "acceptLoop (map (\<lambda>c. (Inr c, True)) cs @ evs) =
     (map (\<lambda>c. (c, True)) cs @ fst (acceptLoop evs), snd (acceptLoop evs))"
  by (induction cs) (auto split: prod.split)

text \<open>An IPv6 address without a port whose last group has only decimal digits is taken apart.\<close>

lemma normalize_splits_address:
  "ParseIP ''1::2:3'' \<noteq> None" "normalizeHostPort ''1::2:3'' = ''[1::2]:3''"
proof -
  let ?a = "[0, 1, 0, 0, 0, 0, 0, 0, 0, 0, 0, 0, 0, 2, 0, 3] :: bytes" and ?b = "[0, 1, 0, 0, 0, 0, 0, 0, 0, 0, 0, 0, 0, 0, 0, 2] :: bytes"
  have t: "IP_String ?a = ''1::2:3''" "IP_String ?b = ''1::2''" "itoa 3 = ''3''" by code_simp+
  show "ParseIP ''1::2:3'' \<noteq> None"
    using ParseIP_IP_String [of ?a] t(1) by (simp add: To16_def)
  show "normalizeHostPort ''1::2:3'' = ''[1::2]:3''"
    using normalize_ip_port [of ?b 3] t(2,3) by (simp add: joinHostPort_def)
qed

end
