(* ===== verification/Tun_Device.thy ===== *)
theory Tun_Device
  imports Load_Config
begin

text \<open>
  The TUN device (\<^verbatim>\<open>internal/tun_native.go\<close>): opening the interface, inside another network
  namespace if one is configured, the two packet pumps between the interface and the network
  stack, and \<^verbatim>\<open>RunTunNative\<close>. The results of system calls, of the interface and of the
  network stack are inputs; handlers of flows are modelled in \<^verbatim>\<open>Front_End\<close> and
  \<^verbatim>\<open>Udp_Ports\<close>.
\<close>

section \<open>Definitions\<close>

subsection \<open>Opening the interface\<close>

text \<open>
  \<open>ifaceByName\<close> gives the results of the two lookups, the second with the interface's MTU;
  \<open>isFile\<close> is whether the handle is an \<^verbatim>\<open>os.File\<close>, else its type name is
  \<open>handleType\<close>.
\<close>

record openIn =
  lookupErr :: "err option"
  newErr :: "err option"
  isFile :: bool
  handleType :: string
  persistErr :: "err option"
  lookupAgain :: "err + int"

definition EPERM :: err where
  "EPERM = Sentinel ''operation not permitted''"

definition ensureTunPersistent :: "openIn \<Rightarrow> string \<Rightarrow> err option" where
  "ensureTunPersistent inp name =
     (if \<not> isFile inp then Some (Msg (''tun '' @ quote name @ '': unexpected handle type '' @ handleType inp))
      else case persistErr inp of
        None \<Rightarrow> None
      | Some e \<Rightarrow> if e = EPERM then None else Some (Wrap (''set TUNSETPERSIST for '' @ quote name @ '': '') e))"

text \<open>
  The thread: the network namespace it is in, how often the goroutine has locked it, and the files
  that are open. An open interface is a handle of \<^verbatim>\<open>/dev/net/tun\<close>.
\<close>

record thread =
  netns :: string
  threadLocks :: nat
  openFiles :: "string list"

definition openFile :: "string \<Rightarrow> thread \<Rightarrow> thread" where
  "openFile f t = t\<lparr>openFiles := f # openFiles t\<rparr>"

definition closeFile :: "string \<Rightarrow> thread \<Rightarrow> thread" where
  "closeFile f t = t\<lparr>openFiles := remove1 f (openFiles t)\<rparr>"

definition tunFile :: "string \<Rightarrow> string" where
  "tunFile name = ''/dev/net/tun '' @ name"

definition openExistingTun :: "openIn \<Rightarrow> string \<Rightarrow> thread \<Rightarrow> (err + int) \<times> thread" where
  "openExistingTun inp name t =
     (if name = [] then (Inl (Msg ''tun.device is empty''), t)
      else case lookupErr inp of
        Some e \<Rightarrow> (Inl (Wrap (''tun interface '' @ quote name @ '' not found (create it in start script): '') e), t)
      | None \<Rightarrow>
          (case newErr inp of
             Some e \<Rightarrow> (Inl (Wrap (''open tun '' @ quote name @ '': '') e), t)
           | None \<Rightarrow>
               let t1 = openFile (tunFile name) t
               in case ensureTunPersistent inp name of
                    Some e \<Rightarrow> (Inl e, closeFile (tunFile name) t1)
                  | None \<Rightarrow>
                      (case lookupAgain inp of
                         Inl e \<Rightarrow> (Inl (Wrap (''InterfaceByName('' @ quote name @ ''): '') e), closeFile (tunFile name) t1)
                       | Inr mtu \<Rightarrow> (Inr (if mtu \<le> 0 then 1500 else mtu), t1))))"

subsection \<open>Network namespaces\<close>

text \<open>
  \<open>origErr\<close> and \<open>targetErr\<close> are the results of opening the two namespace files, \<open>enterErr\<close> and
  \<open>restoreErr\<close> those of the two calls of \<^verbatim>\<open>setns\<close>.
\<close>

record nsIn =
  origErr :: "err option"
  targetErr :: "err option"
  enterErr :: "err option"
  restoreErr :: "err option"

definition selfNS :: string where
  "selfNS = ''/proc/self/ns/net''"

definition withNetNS :: "nsIn \<Rightarrow> string \<Rightarrow> (thread \<Rightarrow> (err + 'a) \<times> thread) \<Rightarrow> thread \<Rightarrow> (err + 'a) \<times> thread" where
  "withNetNS inp path fn t =
     (if path = [] then fn t
      else
        let unlock = (\<lambda>t. t\<lparr>threadLocks := threadLocks t - 1\<rparr>);
            home = netns t;
            t1 = t\<lparr>threadLocks := threadLocks t + 1\<rparr>
        in case origErr inp of
             Some e \<Rightarrow> (Inl (Wrap ''open current netns: '' e), unlock t1)
           | None \<Rightarrow>
               let t2 = openFile selfNS t1
               in case targetErr inp of
                    Some e \<Rightarrow> (Inl (Wrap (''open tun.netns '' @ quote path @ '': '') e), unlock (closeFile selfNS t2))
                  | None \<Rightarrow>
                      let t3 = openFile path t2;
                          finish = (\<lambda>t. unlock (closeFile selfNS (closeFile path t)))
                      in case enterErr inp of
                           Some e \<Rightarrow> (Inl (Wrap (''setns('' @ quote path @ ''): '') e), finish t3)
                         | None \<Rightarrow>
                             (case fn (t3\<lparr>netns := path\<rparr>) of
                                (r, t4) \<Rightarrow> (r, finish (if restoreErr inp = None then t4\<lparr>netns := home\<rparr> else t4))))"

subsection \<open>The pumps\<close>

datatype netProtocol = IPv4 | IPv6

text \<open>
  How a pump ends: the context has ended, it returned an error, it panicked, or it is still
  running after the given events.
\<close>

datatype pumpEnd = CtxDone | Failed err | Panics err | Running

definition version :: "bytes \<Rightarrow> netProtocol option" where
  "version pkt =
     (let v = unat (drop_bit 4 (hd pkt)) in if v = 4 then Some IPv4 else if v = 6 then Some IPv6 else None)"

text \<open>An event is whether the context has ended and what the interface's \<^verbatim>\<open>Read\<close> gives.\<close>

fun tunToStack ::
  "(bool \<times> (err + bytes)) list \<Rightarrow> telemetry \<times> (netProtocol \<times> bytes) list \<Rightarrow> pumpEnd \<times> telemetry \<times> (netProtocol \<times> bytes) list" where
  "tunToStack [] st = (Running, st)"
| "tunToStack ((ended, rd) # evs) (tel, injected) =
     (if ended then (CtxDone, tel, injected)
      else case rd of
        Inl e \<Rightarrow> (Failed e, observeTunError ''read'' tel, injected)
      | Inr pkt \<Rightarrow>
          if pkt = [] then (Panics (Panic ''index out of range [0] with length 0''), tel, injected)
          else case version pkt of
            None \<Rightarrow> tunToStack evs (observeTunDrop ''unknown_l3'' tel, injected)
          | Some proto \<Rightarrow> tunToStack evs (observeTunFrame ''in'' (int (length pkt)) tel, injected @ [(proto, pkt)]))"

text \<open>An event is whether the context has ended, the packet the stack has if any, and the result of writing it.\<close>

fun stackToTun ::
  "(bool \<times> bytes option \<times> err option) list \<Rightarrow> telemetry \<times> bytes list \<Rightarrow> pumpEnd \<times> telemetry \<times> bytes list" where
  "stackToTun [] st = (Running, st)"
| "stackToTun ((ended, pkt, werr) # evs) (tel, written) =
     (if ended then (CtxDone, tel, written)
      else case pkt of
        None \<Rightarrow> stackToTun evs (tel, written)
      | Some b \<Rightarrow>
          (case werr of
             Some e \<Rightarrow> (Failed e, observeTunError ''write'' tel, written)
           | None \<Rightarrow> stackToTun evs (observeTunFrame ''out'' (int (length b)) tel, written @ [b])))"

subsection \<open>Running the device\<close>

definition NewTicker :: "duration \<Rightarrow> err + unit" where
  "NewTicker d = (if d \<le> 0 then Inl (Panic ''non-positive interval for NewTicker'') else Inr ())"

text \<open>The tickers that \<^verbatim>\<open>RunWarmStandby\<close> starts with.\<close>

definition warmTickers :: "SelectionConfig \<Rightarrow> err + unit" where
  "warmTickers s =
     bindE (NewTicker (WarmStandbyInterval s)) (\<lambda>_. if StandbyKeepalive s then NewTicker (StandbyKeepaliveInterval s) else Inr ())"

definition isDNSDestination :: "string \<Rightarrow> bool" where
  "isDNSDestination dst = (case splitHostPort dst of Inl _ \<Rightarrow> False | Inr (_, port) \<Rightarrow> port = ''53'')"

definition nativeDefaults :: "TunConfig \<Rightarrow> TunConfig" where
  "nativeDefaults c =
     c\<lparr>UDPMaxFlows := orDefault 0 4096 (UDPMaxFlows c), UDPIdleTimeout := orDefault 0 (60 * second) (UDPIdleTimeout c),
       UDPGCInterval := orDefault 0 (10 * second) (UDPGCInterval c)\<rparr>"

text \<open>
  \<open>nicErr\<close> is the result of creating the network interface in the stack, \<open>pumpErr\<close> what ends
  the run: \<open>None\<close> is the context, \<open>Some e\<close> the result of the first pump that returns. The
  results are the error, the thread with the files that are left open, and the port table that
  the flows of this run use. A panic in the goroutine of the garbage collection ends the program
  without running deferred calls.
\<close>

record tunIn =
  tunOpen :: openIn
  tunNs :: nsIn
  nicErr :: "string option"
  pumpErr :: "err option option"

definition RunTunNative :: "tunIn \<Rightarrow> TunConfig \<Rightarrow> thread \<Rightarrow> err option \<times> thread \<times> udpPortTable option" where
  "RunTunNative inp cfg0 t =
     (if Device cfg0 = [] then (Some (Msg ''tun.device is empty''), t, None)
      else
        let c = nativeDefaults cfg0;
            deferred = closeFile (tunFile (Device c))
        in case withNetNS (tunNs inp) (NetNS c) (openExistingTun (tunOpen inp) (Device c)) t of
             (Inl e, t1) \<Rightarrow> (Some e, t1, None)
           | (Inr mtu, t1) \<Rightarrow>
               (case nicErr inp of
                  Some s \<Rightarrow> (Some (Msg (''CreateNIC: '' @ s)), deferred t1, None)
                | None \<Rightarrow>
                    (case NewTicker (UDPGCInterval c) of
                       Inl e \<Rightarrow> (Some e, t1, Some (newUDPPortTable c))
                     | Inr _ \<Rightarrow>
                         (case pumpErr inp of
                            None \<Rightarrow> (None, deferred t1, Some (newUDPPortTable c))
                          | Some r \<Rightarrow> (r, deferred t1, Some (newUDPPortTable c))))))"

section \<open>Lemmas\<close>

lemma file_simps [simp]:
  "openFiles (openFile f t) = f # openFiles t" "openFiles (closeFile f t) = remove1 f (openFiles t)"
  "netns (openFile f t) = netns t" "netns (closeFile f t) = netns t"
  "threadLocks (openFile f t) = threadLocks t" "threadLocks (closeFile f t) = threadLocks t"
  "closeFile f (openFile f t) = t"
  by (simp_all add: openFile_def closeFile_def)

text \<open>Opening the interface opens its file exactly when it succeeds.\<close>

lemma openExistingTun_file:
  "openExistingTun inp name t = (r, t') \<Longrightarrow> t' = (case r of Inl _ \<Rightarrow> t | Inr _ \<Rightarrow> openFile (tunFile name) t)"
  by (auto simp: openExistingTun_def Let_def split: if_splits option.splits sum.splits)

text \<open>
  The namespace the thread is in after \<^verbatim>\<open>withNetNS\<close>: its own, unless it entered the other one
  and could not switch back.
\<close>

definition nsAfter :: "nsIn \<Rightarrow> string \<Rightarrow> string \<Rightarrow> string" where
  "nsAfter inp path home =
     (if path \<noteq> [] \<and> origErr inp = None \<and> targetErr inp = None \<and> enterErr inp = None \<and> restoreErr inp \<noteq> None
      then path else home)"

lemma withNetNS_thread:
  assumes "\<And>t r t'. fn t = (r, t') \<Longrightarrow> t' = (case r of Inl _ \<Rightarrow> t | Inr _ \<Rightarrow> openFile f t)"
    and "withNetNS inp path fn t = (r, t')"
  shows "t' = (case r of Inl _ \<Rightarrow> t | Inr _ \<Rightarrow> openFile f t)\<lparr>netns := nsAfter inp path (netns t)\<rparr>"
proof (cases "path = [] \<or> origErr inp \<noteq> None \<or> targetErr inp \<noteq> None \<or> enterErr inp \<noteq> None")
  case True
  then show ?thesis
    using assms(2) assms(1) [of t r t']
    by (cases r) (auto simp: withNetNS_def nsAfter_def openFile_def Let_def split: if_splits option.splits)
next
  case False
  let ?t3 = "openFile path (openFile selfNS (t\<lparr>threadLocks := threadLocks t + 1\<rparr>))"
  obtain t4 where q: "fn (?t3\<lparr>netns := path\<rparr>) = (r, t4)"
    and t': "t' = (closeFile selfNS (closeFile path (if restoreErr inp = None then t4\<lparr>netns := netns t\<rparr> else t4)))
        \<lparr>threadLocks := threadLocks t4 - 1\<rparr>"
    using assms(2) False by (auto simp: withNetNS_def Let_def split: prod.splits)
  show ?thesis
    using assms(1) [OF q] t' False
    by (cases r) (auto simp: nsAfter_def openFile_def closeFile_def)
qed

lemma isDNSDestination_flow:
  assumes "length ip = 4 \<or> length ip = 16"
  shows "isDNSDestination (joinHostPort (Addr_String ip) (itoa port)) \<longleftrightarrow> port = 53"
proof -
  have "itoa port = itoa 53 \<longleftrightarrow> port = 53"
    using itoa_facts(1) [of port] itoa_facts(1) [of 53] by metis
  moreover have "itoa 53 = ''53''" by code_simp
  ultimately show ?thesis
    using splitHostPort_join [OF plainHost_addr(2) [OF assms] plainHost_itoa] by (simp add: isDNSDestination_def)
qed

lemma nativeDefaults_keep:
  "Device (nativeDefaults c) = Device c" "NetNS (nativeDefaults c) = NetNS c"
  by (simp_all add: nativeDefaults_def)

text \<open>What one packet from the interface does.\<close>

definition pumpOne :: "bytes \<Rightarrow> telemetry \<times> (netProtocol \<times> bytes) list \<Rightarrow> telemetry \<times> (netProtocol \<times> bytes) list" where
  "pumpOne pkt st =
     (case version pkt of
        None \<Rightarrow> (observeTunDrop ''unknown_l3'' (fst st), snd st)
      | Some proto \<Rightarrow> (observeTunFrame ''in'' (int (length pkt)) (fst st), snd st @ [(proto, pkt)]))"

lemma tunToStack_packets:
  assumes "\<And>p. p \<in> set pkts \<Longrightarrow> p \<noteq> []"
  shows "tunToStack (map (\<lambda>p. (False, Inr p)) pkts @ evs) st = tunToStack evs (fold pumpOne pkts st)"
  using assms
proof (induction pkts arbitrary: st)
  case (Cons p pkts)
  then show ?case by (cases st) (auto simp: pumpOne_def split: option.split)
qed simp

definition ipOf :: "bytes \<Rightarrow> (netProtocol \<times> bytes) list" where
  "ipOf p = (case version p of None \<Rightarrow> [] | Some proto \<Rightarrow> [(proto, p)])"

lemma fold_pumpOne:
  assumes "enabled (fst st)"
  shows "snd (fold pumpOne pkts st) = snd st @ concat (map ipOf pkts) \<and> enabled (fst (fold pumpOne pkts st)) \<and>
    mget 0 (tunDrops (fst (fold pumpOne pkts st))) ''reason=unknown_l3'' mod 2 ^ 64 =
      (mget 0 (tunDrops (fst st)) ''reason=unknown_l3'' + length (filter (\<lambda>p. version p = None) pkts)) mod 2 ^ 64 \<and>
    mget 0 (tunPackets (fst (fold pumpOne pkts st))) ''dir=in'' mod 2 ^ 64 =
      (mget 0 (tunPackets (fst st)) ''dir=in'' + length (filter (\<lambda>p. version p \<noteq> None) pkts)) mod 2 ^ 64"
  using assms
proof (induction pkts arbitrary: st)
  case (Cons p pkts)
  have "enabled (fst (pumpOne p st))"
    using Cons.prems by (simp add: pumpOne_def observe_defs Let_def split: option.split)
  note IH = Cons.IH [OF this]
  show ?case
    using IH Cons.prems
    by (cases "version p") (simp_all add: pumpOne_def ipOf_def observe_defs Let_def mod_simps)
qed simp

section \<open>Properties\<close>

text \<open>
  C40. Running the device leaves the system as it found it. Whatever fails on the way, and however the
  run ends: the thread is unlocked, every file that was opened is closed, the namespace files and the
  interface included, and the thread is back in its own network namespace unless switching back
  failed, in which case it stays in the other one. The one exception is a panic over a negative
  interval of the garbage collection, which ends the program with the interface open. Flows use a
  fresh table with the limits of the configuration.
\<close>

theorem tun_run_cleans_up:
  assumes "RunTunNative inp c t = (r, t', tbl)"
  shows "t' = (if tbl \<noteq> None \<and> UDPGCInterval c < 0 then openFile (tunFile (Device c)) t else t)
        \<lparr>netns := (if Device c = [] then netns t else nsAfter (tunNs inp) (NetNS c) (netns t))\<rparr> \<and>
    (tbl \<noteq> None \<and> UDPGCInterval c < 0 \<longrightarrow> r = Some (Panic ''non-positive interval for NewTicker'')) \<and>
    (\<forall>pt. tbl = Some pt \<longrightarrow> tcfg pt = nativeDefaults c \<and> ports pt = [])"
proof (cases "Device c = []")
  case True
  with assms show ?thesis by (auto simp: RunTunNative_def)
next
  case False
  obtain x t1 where w: "withNetNS (tunNs inp) (NetNS c) (openExistingTun (tunOpen inp) (Device c)) t = (x, t1)" by fastforce
  have t1: "t1 = (case x of Inl _ \<Rightarrow> t | Inr _ \<Rightarrow> openFile (tunFile (Device c)) t)\<lparr>netns := nsAfter (tunNs inp) (NetNS c) (netns t)\<rparr>"
    by (rule withNetNS_thread [OF openExistingTun_file w])
  have shut: "closeFile f ((openFile f t)\<lparr>netns := n\<rparr>) = t\<lparr>netns := n\<rparr>" for f n
    by (simp add: openFile_def closeFile_def)
  have gc: "NewTicker (UDPGCInterval (nativeDefaults c)) =
      (if UDPGCInterval c < 0 then Inl (Panic ''non-positive interval for NewTicker'') else Inr ())"
    by (simp add: NewTicker_def nativeDefaults_def orDefault_def)
  show ?thesis
    using assms False w t1 shut gc
    by (cases x) (auto simp: RunTunNative_def nativeDefaults_keep newUDPPortTable_def Let_def split: option.splits if_splits)
qed

definition tun_in_example :: tunIn where
  "tun_in_example = \<lparr>tunOpen = \<lparr>lookupErr = None, newErr = None, isFile = True, handleType = [], persistErr = Some EPERM, lookupAgain = Inr 0\<rparr>,
     tunNs = \<lparr>origErr = None, targetErr = None, enterErr = None, restoreErr = Some EPERM\<rparr>, nicErr = None, pumpErr = Some (Some EOF)\<rparr>"

theorem tun_run_cleans_up_witness:
  "\<exists>tbl. RunTunNative tun_in_example (tun_example\<lparr>NetNS := ''/run/netns/vpn''\<rparr>) \<lparr>netns = ''host'', threadLocks = 0, openFiles = []\<rparr> =
     (Some EOF, \<lparr>netns = ''/run/netns/vpn'', threadLocks = 0, openFiles = []\<rparr>, tbl)"
proof -
  let ?c = "tun_example\<lparr>NetNS := ''/run/netns/vpn''\<rparr>" and ?t = "\<lparr>netns = ''host'', threadLocks = 0, openFiles = []\<rparr>"
  obtain r t' tbl where run: "RunTunNative tun_in_example ?c ?t = (r, t', tbl)" by (metis prod_cases3)
  then have "r = Some EOF"
    by (auto simp: RunTunNative_def tun_in_example_def tun_example_def withNetNS_def openExistingTun_def ensureTunPersistent_def
        nativeDefaults_def orDefault_def NewTicker_def Let_def)
  with tun_run_cleans_up [OF run] run show ?thesis
    by (simp add: tun_in_example_def tun_example_def nsAfter_def)
qed

text \<open>
  The pump from the interface injects exactly the IPv4 and IPv6 packets, in order and unchanged, and
  counts them and the others, modulo the width of the counters; it goes on until the context ends or
  reading fails.
\<close>

theorem tun_pump_exact:
  assumes "\<And>p. p \<in> set pkts \<Longrightarrow> p \<noteq> []" and "enabled tel"
    and "tunToStack (map (\<lambda>p. (False, Inr p)) pkts @ [(False, Inl e)]) (tel, []) = (r, tel', injected)"
  shows "r = Failed e \<and> injected = concat (map ipOf pkts) \<and>
    mget 0 (tunDrops tel') ''reason=unknown_l3'' mod 2 ^ 64 =
      (mget 0 (tunDrops tel) ''reason=unknown_l3'' + length (filter (\<lambda>p. version p = None) pkts)) mod 2 ^ 64 \<and>
    mget 0 (tunPackets tel') ''dir=in'' mod 2 ^ 64 =
      (mget 0 (tunPackets tel) ''dir=in'' + length (filter (\<lambda>p. version p \<noteq> None) pkts)) mod 2 ^ 64"
proof -
  obtain tel1 inj where f: "fold pumpOne pkts (tel, []) = (tel1, inj)" by fastforce
  have "r = Failed e" "tel' = observeTunError ''read'' tel1" "injected = inj"
    using assms(3) tunToStack_packets [OF assms(1), of pkts "[(False, Inl e)]" "(tel, [])"] f by auto
  with fold_pumpOne [of "(tel, [])" pkts] assms(2) f show ?thesis
    by (simp add: observeTunError_def)
qed

text \<open>
  Tickers: the intervals of a loaded configuration without negative numbers are accepted; a negative
  interval passes \<^verbatim>\<open>LoadConfig\<close> and panics when the part that uses it starts.
\<close>

theorem tickers_accept_loaded:
  assumes "config_sane c0" and "c = configDefaults c0"
  shows "warmTickers (Selection c) = Inr () \<and> NewTicker (UDPGCInterval (nativeDefaults (Tun c))) = Inr ()"
  using loaded_ready_aux [OF assms(1)] assms(2)
  by (auto simp: config_ready_def warmTickers_def NewTicker_def nativeDefaults_def orDefault_def Let_def)

theorem negative_ticker_panics:
  assumes "WarmStandbyInterval (Selection c0) < 0"
  shows "warmTickers (Selection (configDefaults c0)) = Inl (Panic ''non-positive interval for NewTicker'')"
  using assms by (simp add: warmTickers_def NewTicker_def configDefaults_def selectionDefaults_def orDefault_def)

end
