(* ===== verification/Unit_Build.thy ===== *)
theory Unit_Build
  imports Load_Config
begin

text \<open>
  The build with the tag \<^verbatim>\<open>unit\<close>, in which the tests run without third-party packages,
  replaces \<^verbatim>\<open>config.go\<close> by \<^verbatim>\<open>unit_stubs.go\<close>. Its functions return
  \<^verbatim>\<open>ErrNotImplemented\<close>, except for a second \<^verbatim>\<open>normalizeHostPort\<close>, written
  differently, which is the one the tests of this build exercise. This theory compares the two.
\<close>

section \<open>Definitions\<close>

text \<open>The last step of the source, a test for an address without port, returns its argument either way.\<close>

definition unit_normalizeHostPort :: "string \<Rightarrow> string" where
  "unit_normalizeHostPort s =
     (if s = [] then s
      else case splitHostPort s of
        Inr _ \<Rightarrow> s
      | Inl _ \<Rightarrow>
          (case atLast (CHR '':'') s of
             None \<Rightarrow> s
           | Some (host, b) \<Rightarrow>
               let port = tl b
               in if host \<noteq> [] \<and> port \<noteq> [] then
                    if last host = CHR '':'' then s
                    else let candidate = ''['' @ host @ '']:'' @ port
                         in (case splitHostPort candidate of Inr _ \<Rightarrow> candidate | Inl _ \<Rightarrow> s)
                  else s))"

section \<open>The two agree on what the tests cover, and not beyond\<close>

text \<open>
  On the text of an address followed by a colon and a port, the two functions give the same,
  unless the text of the address ends with a colon.
\<close>

theorem unit_copy_agrees:
  assumes "length ip = 4 \<or> length ip = 16" and "last (IP_String ip) \<noteq> CHR '':''"
  shows "unit_normalizeHostPort (IP_String ip @ '':'' @ itoa port) = normalizeHostPort (IP_String ip @ '':'' @ itoa port)"
proof (cases "CHR '':'' \<in> set (IP_String ip)")
  case False
  then have "joinHostPort (IP_String ip) (itoa port) = IP_String ip @ '':'' @ itoa port"
    by (simp add: joinHostPort_def)
  with splitHostPort_join [OF plainHost_addr(1) [OF assms(1)] plainHost_itoa, of port] normalize_ip_port [OF assms(1), of port]
  show ?thesis by (simp add: unit_normalizeHostPort_def)
next
  case True
  let ?h = "IP_String ip" and ?p = "itoa port"
  have j: "joinHostPort ?h ?p = ''['' @ ?h @ '']:'' @ ?p"
    using True by (simp add: joinHostPort_def)
  have last: "atLast (CHR '':'') (?h @ '':'' @ ?p) = Some (?h, CHR '':'' # ?p)"
    using atLast_append [OF plainHost_itoa(2), of ?h] by simp
  have h: "?h \<noteq> []" "\<not> hasPrefix (?h @ '':'' @ ?p) ''[''" "?p \<noteq> []"
    using plainHost_addr(1) [OF assms(1)] True itoa_facts(3) [of port] by (cases ?h; auto simp: plainHost_def)+
  have "\<exists>e. splitHostPort (?h @ '':'' @ ?p) = Inl e"
    using True h last by (simp add: splitHostPort_def)
  with last h assms(2) splitHostPort_join [OF plainHost_addr(1) [OF assms(1)] plainHost_itoa, of port] j
  show ?thesis
    unfolding normalize_ip_port [OF assms(1)] by (auto simp: unit_normalizeHostPort_def)
qed

text \<open>
  The copy takes an address without port apart when its last group is not decimal, brackets
  hosts that are no addresses, and leaves an address that ends with a colon as it is; the
  program does the opposite in each case.
\<close>

theorem unit_copy_differs:
  "unit_normalizeHostPort ''1::2:f'' = ''[1::2]:f''" "normalizeHostPort ''1::2:f'' = ''1::2:f''"
  "unit_normalizeHostPort ''a:b:c'' = ''[a:b]:c''" "normalizeHostPort ''a:b:c'' = ''a:b:c''"
  "unit_normalizeHostPort ''1:::5'' = ''1:::5''" "normalizeHostPort ''1:::5'' = ''[1::]:5''"
  by code_simp+

end
