(* ===== verification/Debug_Log.thy ===== *)
theory Debug_Log
  imports Net_Addr
begin

text \<open>
  The debug output: the switch and the printer of \<^verbatim>\<open>ws_debug.go\<close>, the payload previews of
  \<^verbatim>\<open>ws_payload_debug.go\<close>, and the handler of \<^verbatim>\<open>ws_h3_qlog_debug.go\<close> that turns
  the structured events of the QUIC package into lines. The state is the switch and the lines printed so
  far. A resolved \<^verbatim>\<open>slog.Value\<close> is a group of attributes, an \<^verbatim>\<open>any\<close> that holds
  a slice of values, another \<^verbatim>\<open>any\<close> with the text \<^verbatim>\<open>fmt.Sprint\<close> gives it, or a
  scalar with its \<^verbatim>\<open>String\<close>. The packet counters are unbounded here; at one packet per
  nanosecond theirs would overflow after 292 years.
\<close>

section \<open>Definitions\<close>

record debugLog =
  wsDebugEnabled :: bool
  logged :: "string list"

definition SetWebSocketDebug :: "bool \<Rightarrow> debugLog \<Rightarrow> debugLog" where
  "SetWebSocketDebug enabled d = d\<lparr>wsDebugEnabled := enabled\<rparr>"

definition wsDebugf :: "string \<Rightarrow> debugLog \<Rightarrow> debugLog" where
  "wsDebugf line d = (if wsDebugEnabled d then d\<lparr>logged := logged d @ [''[debug] '' @ line]\<rparr> else d)"

subsection \<open>Payload previews\<close>

definition wsPayloadDebugPreviewBytes :: nat where [simp]: "wsPayloadDebugPreviewBytes = 48"

definition hexEncode :: "bytes \<Rightarrow> string" where
  "hexEncode bs = concat (map (\<lambda>b. hex (unat b div 16) @ hex (unat b mod 16)) bs)"

definition wsDebugPayload :: "string \<Rightarrow> string \<Rightarrow> string \<Rightarrow> bytes \<Rightarrow> debugLog \<Rightarrow> debugLog" where
  "wsDebugPayload direction upstream proto payload d =
     (if \<not> wsDebugEnabled d then d
      else let previewLen = min (length payload) wsPayloadDebugPreviewBytes;
               preview = hexEncode (take previewLen payload);
               line = ''ws payload '' @ direction @ '' upstream='' @ quote upstream @ '' proto='' @ quote proto @
                 '' len='' @ itoa (length payload) @ '' preview_hex='' @ preview
           in wsDebugf (if previewLen < length payload then line @ ''...'' else line) d)"

subsection \<open>Attributes of events\<close>

datatype slogVal =
  KindGroup "(string \<times> slogVal) list"
| AnyValues "slogVal list"
| AnyOther string
| Scalar string

text \<open>
  The attributes of one event, flattened into a map from paths to texts; a value of a slice that is
  not a group is skipped.
\<close>

fun flattenAttr :: "string gomap \<Rightarrow> string \<Rightarrow> string \<times> slogVal \<Rightarrow> string gomap"
  and flattenGroup :: "string gomap \<Rightarrow> string \<Rightarrow> (string \<times> slogVal) list \<Rightarrow> string gomap"
  and flattenValues :: "string gomap \<Rightarrow> string \<Rightarrow> nat \<Rightarrow> slogVal list \<Rightarrow> string gomap" where
  "flattenAttr out prefix (key, v) =
     (let k = (if prefix \<noteq> [] then prefix @ ''.'' @ key else key)
      in case v of
           KindGroup as \<Rightarrow> flattenGroup out k as
         | AnyValues fs \<Rightarrow> flattenValues out k 0 fs
         | AnyOther t \<Rightarrow> AList.update k t out
         | Scalar t \<Rightarrow> AList.update k t out)"
| "flattenGroup out prefix [] = out"
| "flattenGroup out prefix (a # as) = flattenGroup (flattenAttr out prefix a) prefix as"
| "flattenValues out k i [] = out"
| "flattenValues out k i (v # vs) =
     flattenValues (case v of KindGroup as \<Rightarrow> flattenGroup out (k @ ''['' @ itoa i @ '']'') as | _ \<Rightarrow> out) k (Suc i) vs"

definition collectSlogAttrs :: "(string \<times> slogVal) list \<Rightarrow> string gomap" where
  "collectSlogAttrs as = flattenGroup [] [] as"

definition packetHeaderSummary :: "string gomap \<Rightarrow> string" where
  "packetHeaderSummary attrs =
     ''type='' @ mget [] attrs ''header.packet_type'' @ '' pn='' @ mget [] attrs ''header.packet_number''"

definition frameKey :: "nat \<Rightarrow> string" where
  "frameKey i = ''frames['' @ itoa i @ ''].frame_type''"

definition packetFrameTypes :: "string gomap \<Rightarrow> string" where
  "packetFrameTypes attrs =
     (let types = filter (\<lambda>t. t \<noteq> []) (map (\<lambda>i. mget [] attrs (frameKey i)) [0..<12])
      in if types = [] then ''[]'' else ''['' @ join '' '' types @ '']'')"

definition packetHasFrameType :: "string gomap \<Rightarrow> string \<Rightarrow> bool" where
  "packetHasFrameType attrs want = list_ex (\<lambda>i. mget [] attrs (frameKey i) = want) [0..<12]"

definition formatAttrMap :: "string gomap \<Rightarrow> string" where
  "formatAttrMap attrs =
     (if attrs = [] then ''{}''
      else ''map['' @ join '' '' (map (\<lambda>k. k @ '':'' @ mget [] attrs k) (sortedKeys attrs)) @ '']'')"

subsection \<open>The handler\<close>

definition h3QlogFirstPackets :: nat where [simp]: "h3QlogFirstPackets = 20"

record h3QlogDebugHandler =
  sentPackets :: nat
  recvPackets :: nat

text \<open>What both kinds of packet events do with the number of the packet.\<close>

definition packetLines :: "string \<Rightarrow> nat \<Rightarrow> string gomap \<Rightarrow> debugLog \<Rightarrow> debugLog" where
  "packetLines what n attrs d =
     (let d1 = (if n \<le> h3QlogFirstPackets
                then wsDebugf (''h3[qlog]: '' @ what @ '' #'' @ itoa n @ '' header='' @ packetHeaderSummary attrs @
                       '' frames='' @ packetFrameTypes attrs) d
                else d)
      in if packetHasFrameType attrs ''connection_close''
         then wsDebugf (''h3[qlog]: '' @ what @ '' connection_close details='' @ formatAttrMap attrs) d1
         else d1)"

definition qlogHandle ::
  "string \<times> (string \<times> slogVal) list \<Rightarrow> h3QlogDebugHandler \<times> debugLog \<Rightarrow> h3QlogDebugHandler \<times> debugLog" where
  "qlogHandle r st =
     (let (msg, as) = r; (h, d) = st; attrs = collectSlogAttrs as
      in if msg = ''transport:parameters_set''
           then (h, wsDebugf (''h3[qlog]: transport parameters '' @ formatAttrMap attrs) d)
         else if msg = ''transport:packet_sent''
           then let n = Suc (sentPackets h) in (h\<lparr>sentPackets := n\<rparr>, packetLines ''packet_sent'' n attrs d)
         else if msg = ''transport:packet_received''
           then let n = Suc (recvPackets h) in (h\<lparr>recvPackets := n\<rparr>, packetLines ''packet_recv'' n attrs d)
         else if msg = ''connectivity:packet_dropped''
           then (h, wsDebugf (''h3[qlog]: packet_dropped '' @ formatAttrMap attrs) d)
         else if contains msg ''connection_closed''
           then (h, wsDebugf (''h3[qlog]: '' @ msg @ '' '' @ formatAttrMap attrs) d)
         else (h, d))"

subsection \<open>Names\<close>

definition h3ErrorName :: "64 word \<Rightarrow> string" where
  "h3ErrorName c =
     (let names = [''H3_NO_ERROR'', ''H3_GENERAL_PROTOCOL_ERROR'', ''H3_INTERNAL_ERROR'', ''H3_STREAM_CREATION_ERROR'',
            ''H3_CLOSED_CRITICAL_STREAM'', ''H3_FRAME_UNEXPECTED'', ''H3_FRAME_ERROR'', ''H3_EXCESSIVE_LOAD'',
            ''H3_ID_ERROR'', ''H3_SETTINGS_ERROR'', ''H3_MISSING_SETTINGS'', ''H3_REQUEST_REJECTED'',
            ''H3_REQUEST_CANCELLED'', ''H3_REQUEST_INCOMPLETE'', ''H3_MESSAGE_ERROR'', ''H3_CONNECT_ERROR'',
            ''H3_VERSION_FALLBACK'']
      in if 0x100 \<le> c \<and> c \<le> 0x110 then names ! (unat c - 0x100) else ''unknown'')"

section \<open>How much is printed\<close>

lemma wsDebugf_off [simp]: "\<not> wsDebugEnabled d \<Longrightarrow> wsDebugf line d = d"
  by (simp add: wsDebugf_def)

lemma wsDebugf_on [simp]:
  "wsDebugEnabled (wsDebugf line d) = wsDebugEnabled d"
  "wsDebugEnabled d \<Longrightarrow> logged (wsDebugf line d) = logged d @ [''[debug] '' @ line]"
  by (simp_all add: wsDebugf_def)

lemma packetLines_on:
  "wsDebugEnabled (packetLines what n attrs d) = wsDebugEnabled d"
  "wsDebugEnabled d \<Longrightarrow> length (logged (packetLines what n attrs d)) = length (logged d) + (if n \<le> 20 then 1 else 0) +
     (if packetHasFrameType attrs ''connection_close'' then 1 else 0)"
  by (simp_all add: packetLines_def Let_def)

definition isPacket :: "string \<Rightarrow> string \<times> (string \<times> slogVal) list \<Rightarrow> bool" where
  "isPacket what r \<longleftrightarrow> fst r = what"

definition closesConn :: "string \<times> (string \<times> slogVal) list \<Rightarrow> bool" where
  "closesConn r \<longleftrightarrow> fst r \<in> {''transport:packet_sent'', ''transport:packet_received''} \<and>
     packetHasFrameType (collectSlogAttrs (snd r)) ''connection_close''"

definition otherLine :: "string \<times> (string \<times> slogVal) list \<Rightarrow> bool" where
  "otherLine r \<longleftrightarrow> fst r \<in> {''transport:parameters_set'', ''connectivity:packet_dropped''} \<or>
     fst r \<notin> {''transport:packet_sent'', ''transport:packet_received''} \<and> contains (fst r) ''connection_closed''"

definition countOf :: "('a \<Rightarrow> bool) \<Rightarrow> 'a list \<Rightarrow> nat" where
  "countOf P xs = length (filter P xs)"

lemma countOf_simps [simp]: "countOf P [] = 0" "countOf P (x # xs) = (if P x then 1 else 0) + countOf P xs"
  by (simp_all add: countOf_def)

lemma qlogHandle_step:
  assumes "wsDebugEnabled d" and "qlogHandle r (h, d) = (h', d')"
  shows "wsDebugEnabled d'" and "sentPackets h' = sentPackets h + (if isPacket ''transport:packet_sent'' r then 1 else 0)"
    and "recvPackets h' = recvPackets h + (if isPacket ''transport:packet_received'' r then 1 else 0)"
    and "length (logged d') = length (logged d) +
      (if isPacket ''transport:packet_sent'' r \<and> sentPackets h < 20 then 1 else 0) +
      (if isPacket ''transport:packet_received'' r \<and> recvPackets h < 20 then 1 else 0) +
      (if closesConn r then 1 else 0) + (if otherLine r then 1 else 0)"
  using assms by (cases r;
    auto simp: qlogHandle_def Let_def isPacket_def closesConn_def otherLine_def packetLines_on split: if_splits)+

lemma qlog_fold:
  assumes "wsDebugEnabled d" and "fold qlogHandle rs (h, d) = (h', d')"
  shows "length (logged d') + min 20 (sentPackets h) + min 20 (recvPackets h) = length (logged d) +
      min 20 (sentPackets h + countOf (isPacket ''transport:packet_sent'') rs) +
      min 20 (recvPackets h + countOf (isPacket ''transport:packet_received'') rs) +
      countOf closesConn rs + countOf otherLine rs"
  using assms
proof (induction rs arbitrary: h d)
  case Nil
  then show ?case by simp
next
  case (Cons r rs)
  obtain h1 d1 where s: "qlogHandle r (h, d) = (h1, d1)" by fastforce
  note st = qlogHandle_step [OF Cons.prems(1) s]
  have m: "min 20 (n + (if P then 1 else 0)) = min 20 n + (if P \<and> n < 20 then 1 else 0)" for n :: nat and P
    by simp
  have "fold qlogHandle rs (h1, d1) = (h', d')"
    using Cons.prems(2) s by simp
  from Cons.IH [OF st(1) this, unfolded st(2-) m] show ?case
    by (simp add: add.assoc add.left_commute add.commute)
qed

text \<open>
  With debug output on, a connection prints one line for each of the first 20 packets in either
  direction, one for each packet seen to close the connection, one for each of the other events
  it knows, and nothing else.
\<close>

theorem qlog_lines_exact:
  assumes "wsDebugEnabled d" and "fold qlogHandle rs (\<lparr>sentPackets = 0, recvPackets = 0\<rparr>, d) = (h', d')"
  shows "length (logged d') = length (logged d) + min 20 (countOf (isPacket ''transport:packet_sent'') rs) +
    min 20 (countOf (isPacket ''transport:packet_received'') rs) + countOf closesConn rs + countOf otherLine rs"
  using qlog_fold [OF assms] by simp

section \<open>What is printed of a packet\<close>

text \<open>A frame as the QUIC package logs it: a group with its type first and other attributes after it.\<close>

definition scalars :: "(string \<times> string) list \<Rightarrow> (string \<times> slogVal) list" where
  "scalars xs = map (\<lambda>(k, t). (k, Scalar t)) xs"

definition frameVal :: "string \<times> (string \<times> string) list \<Rightarrow> slogVal" where
  "frameVal f = KindGroup ((''frame_type'', Scalar (fst f)) # scalars (snd f))"

lemma flattenGroup_other:
  assumes "\<And>k. k \<in> fst ` set xs \<Longrightarrow> q \<noteq> p @ ''.'' @ k" and "p \<noteq> []"
  shows "mget d (flattenGroup out p (scalars xs)) q = mget d out q"
  using assms by (induction xs arbitrary: out) (auto simp: scalars_def)

definition framePrefix :: "nat \<Rightarrow> string" where
  "framePrefix i = ''frames['' @ itoa i @ '']''"

lemma framePrefix_neq_Nil: "framePrefix i \<noteq> []"
  by (simp add: framePrefix_def)

lemma frame_path: "framePrefix i @ ''.'' @ k = frameKey j \<longleftrightarrow> i = j \<and> k = ''frame_type''"
proof
  assume e: "framePrefix i @ ''.'' @ k = frameKey j"
  have "itoa i @ CHR '']'' # ''.'' @ k = itoa j @ CHR '']'' # ''.frame_type''"
    using e by (simp add: frameKey_def framePrefix_def)
  then have e: "itoa i = itoa j" "k = ''frame_type''"
    using cutChar_append [OF dot_notin_itoa(5)] by (metis option.inject prod.inject append_Cons append_Nil list.inject)+
  from arg_cong [OF e(1), of atoi] have "i = j" by (simp only: itoa_facts(1))
  with e(2) show "i = j \<and> k = ''frame_type''" by simp
qed (simp add: frameKey_def framePrefix_def)

lemma flattenValues_frame:
  "flattenValues out ''frames'' i (frameVal f # vs) = flattenValues
     (flattenGroup (AList.update (framePrefix i @ ''.'' @ ''frame_type'') (fst f) out) (framePrefix i) (scalars (snd f)))
     ''frames'' (Suc i) vs"
  by (simp add: framePrefix_def frameVal_def)

lemma flattenGroup_frame:
  assumes "''frame_type'' \<notin> fst ` set xs"
  shows "mget [] (flattenGroup (AList.update (framePrefix i @ ''.'' @ ''frame_type'') t out) (framePrefix i) (scalars xs)) (frameKey j) =
    (if i = j then t else mget [] out (frameKey j))"
proof -
  have "frameKey j \<noteq> framePrefix i @ ''.'' @ k" if "k \<in> fst ` set xs" for k
    using that assms frame_path [of i k j] by metis
  then have "mget [] (flattenGroup (AList.update (framePrefix i @ ''.'' @ ''frame_type'') t out) (framePrefix i) (scalars xs)) (frameKey j) =
      mget [] (AList.update (framePrefix i @ ''.'' @ ''frame_type'') t out) (frameKey j)"
    by (rule flattenGroup_other) (assumption, rule framePrefix_neq_Nil)
  with frame_path [of i "''frame_type''" j] show ?thesis by (simp only: mget_update) metis
qed

lemma flattenValues_frames:
  assumes "\<And>f. f \<in> set fs \<Longrightarrow> ''frame_type'' \<notin> fst ` set (snd f)"
  shows "mget [] (flattenValues out ''frames'' i (map frameVal fs)) (frameKey j) =
    (if i \<le> j \<and> j < i + length fs then fst (fs ! (j - i)) else mget [] out (frameKey j))"
  using assms
proof (induction fs arbitrary: out i)
  case Nil
  then show ?case by auto
next
  case (Cons f fs)
  have "''frame_type'' \<notin> fst ` set (snd f)" using Cons.prems by simp
  note g = flattenGroup_frame [OF this, of i "fst f" out j]
  show ?case
    unfolding list.map flattenValues_frame
    by (subst Cons.IH) (use Cons.prems g in \<open>auto simp: nth_Cons'\<close>)
qed

definition packetAttrs :: "string \<Rightarrow> string \<Rightarrow> (string \<times> (string \<times> string) list) list \<Rightarrow> (string \<times> slogVal) list" where
  "packetAttrs pt pn fs =
     [(''header'', KindGroup [(''packet_type'', Scalar pt), (''packet_number'', Scalar pn)]), (''frames'', AnyValues (map frameVal fs))]"

text \<open>
  Of a packet the types of its first 12 frames are shown, and a frame that closes the connection is
  noticed exactly when it is among them.
\<close>

theorem packet_first_frames:
  assumes "\<And>f. f \<in> set fs \<Longrightarrow> ''frame_type'' \<notin> fst ` set (snd f) \<and> fst f \<noteq> []"
  shows "packetHasFrameType (collectSlogAttrs (packetAttrs pt pn fs)) ''connection_close'' \<longleftrightarrow>
      ''connection_close'' \<in> fst ` set (take 12 fs)"
    and "fs \<noteq> [] \<Longrightarrow> packetFrameTypes (collectSlogAttrs (packetAttrs pt pn fs)) = ''['' @ join '' '' (map fst (take 12 fs)) @ '']''"
proof -
  have k: "mget [] (collectSlogAttrs (packetAttrs pt pn fs)) (frameKey j) = (if j < length fs then fst (fs ! j) else [])" for j
    using flattenValues_frames [of fs _ 0 j] assms
    by (simp add: collectSlogAttrs_def packetAttrs_def mget_def frameKey_def)
  have m: "map (\<lambda>i. mget [] (collectSlogAttrs (packetAttrs pt pn fs)) (frameKey i)) [0..<12] =
      map fst (take 12 fs) @ replicate (12 - length fs) []"
    by (rule nth_equalityI) (auto simp: k nth_append)
  have "packetHasFrameType (collectSlogAttrs (packetAttrs pt pn fs)) ''connection_close'' \<longleftrightarrow>
      ''connection_close'' \<in> set (map (\<lambda>i. mget [] (collectSlogAttrs (packetAttrs pt pn fs)) (frameKey i)) [0..<12])"
    unfolding packetHasFrameType_def list_ex_iff set_map image_iff by metis
  then show "packetHasFrameType (collectSlogAttrs (packetAttrs pt pn fs)) ''connection_close'' \<longleftrightarrow>
      ''connection_close'' \<in> fst ` set (take 12 fs)"
    unfolding m by auto
  have t: "filter (\<lambda>t. t \<noteq> []) (map (\<lambda>i. mget [] (collectSlogAttrs (packetAttrs pt pn fs)) (frameKey i)) [0..<12]) = map fst (take 12 fs)"
    using assms unfolding m by (auto simp: filter_id_conv dest: in_set_takeD)
  show "fs \<noteq> [] \<Longrightarrow> packetFrameTypes (collectSlogAttrs (packetAttrs pt pn fs)) = ''['' @ join '' '' (map fst (take 12 fs)) @ '']''"
    unfolding packetFrameTypes_def Let_def t by simp
qed

end
