(* ===== verification/Spec2Isabelle.thy ===== *)
theory Spec2Isabelle
  imports H3_Dial H2_Raw Warm_Standby Probes Tun_Device Unit_Build Debug_Log
begin

text \<open>
  Verification of \<^verbatim>\<open>outline-cli-ws\<close>: an Outline (Shadowsocks) client whose tunnels run
  over WebSockets, carried by HTTP/1.1, HTTP/2 or HTTP/3, with a load balancer over several
  upstreams and two front ends, a SOCKS5 server and a TUN device. All file names below are under
  \<^verbatim>\<open>src/internal\<close> unless they are given in full.

  \<^bold>\<open>The parts and how they interact.\<close> \<^verbatim>\<open>main\<close> loads the configuration, builds the load balancer and
  starts the background tasks and front ends. A front end accepts a flow, asks the load balancer
  for an upstream, dials a WebSocket to it (or takes a warm one), wraps it as a stream or as a
  packet connection, adds the Shadowsocks cipher and copies bytes or datagrams. Failures are
  reported to the load balancer, whose health checks bring an upstream back.

  \<^bold>\<open>The Go library.\<close>
  \<^item> \<open>Go_Prelude\<close>: bytes, error values with \<^verbatim>\<open>errors.Is\<close>, readers, \<^verbatim>\<open>io.ReadFull\<close>,
    \<^verbatim>\<open>int64\<close> wrap-around (\<open>i64\<close>), decimal and hexadecimal printing. \<open>Go_Text\<close>,
    \<open>Go_Url\<close>, \<open>Net_Addr\<close>: strings, maps, URLs, addresses, with the round trips used elsewhere.
    \<open>Go_Float\<close>: \<^verbatim>\<open>float64\<close> with rounding to nearest.
  \<^item> \<open>Stream_IO\<close>: the contracts \<open>io_writer\<close> and \<open>io_reader\<close> and the loop that writes a buffer in full.
    \<open>Codec\<close>: the contract of a decoder that inverts an encoder. \<open>Effects\<close>: the lists of what an operation
    opens, writes to and closes, from which what is left open and what was sent are computed.

  \<^bold>\<open>WebSockets.\<close>
  \<^item> \<open>Ws_Frame\<close> (\<^verbatim>\<open>readFrame\<close>, \<^verbatim>\<open>buildFrame\<close> of \<^verbatim>\<open>ws_h2.go\<close>): the two are inverse in both
    directions, and what is accepted respects the 64 MiB cap and the expected mask bit.
  \<^item> \<open>Framed_Conn\<close> (\<^verbatim>\<open>framedWSConn\<close> of \<^verbatim>\<open>ws_h2.go\<close>): \<^verbatim>\<open>Read\<close> refines the meaning of a sequence of
    frames (\<open>deliver\<close>), answers pings and the close of the peer, and nothing is written after the
    close frame.
  \<^item> \<open>Ws_Conn\<close> (\<^verbatim>\<open>ws_api.go\<close>, \<^verbatim>\<open>ws_coder.go\<close>, \<^verbatim>\<open>WSStreamConn\<close> of \<^verbatim>\<open>outline_tcp.go\<close>, \<^verbatim>\<open>ws_packet_conn.go\<close>):
    the interface \<^verbatim>\<open>WSConn\<close> as a record of methods and the views on top of it. The contract
    \<open>ws_messages\<close> gives that a stream yields exactly the binary messages, for every buffer size.

  \<^bold>\<open>Transports.\<close>
  \<^item> \<open>Transport\<close> (\<^verbatim>\<open>ws.go\<close>, \<^verbatim>\<open>dialRFC8441\<close> of \<^verbatim>\<open>ws_h2.go\<close>): the hints in a URL, and for every
    outcome of the diallers exactly which transports are tried, in which order.
  \<^item> \<open>H2_Raw\<close> (\<^verbatim>\<open>rfc8441_raw_h2.go\<close>): the handshake, the read pump and writing over HTTP/2. Messages
    are on the wire unchanged when a write returns, every byte is credited at the end of the stream,
    but as long as the stream is open a server that respects flow control sends no more than 65535 bytes,
    because credit is sent in batches of 64 KiB (the step relation \<open>h2_flow\<close>).
  \<^item> \<open>H3_Varint\<close>, \<open>H3_Stream\<close>, \<open>H3_Qpack\<close>, \<open>H3_Control\<close>, \<open>H3_Dial\<close> (\<^verbatim>\<open>ws_h3.go\<close>,
    \<^verbatim>\<open>ws_h3_qpack_min.go\<close>, \<^verbatim>\<open>h3_healthcheck.go\<close>): integers, DATA frames with the reused buffer, the
    header codec, the control streams, the dial and its health check, with the fields the server gets and
    what a dial leaves open. \<open>Ws_Over_H3\<close> stacks
    \<^verbatim>\<open>framedWSConn\<close> on \<^verbatim>\<open>h3wsStream\<close>. The contracts \<open>quic_stream\<close> and \<open>quic_conn\<close> are what is
    assumed of the QUIC package.
  \<^item> This theory: dial, framing, DATA frames and streams together, \<open>h3_tunnel\<close>.

  \<^bold>\<open>The load balancer\<close> (\<^verbatim>\<open>lb.go\<close>, \<^verbatim>\<open>warm_standby.go\<close>, \<^verbatim>\<open>active_probe.go\<close>, \<^verbatim>\<open>metrics.go\<close>).
  \<^item> \<open>Lb_Types\<close>: its records. \<open>Lb_Select\<close>: scores and choices; a choice is usable and best, and the
    current upstream is left only for a gain. \<open>Lb_Health\<close>: intervals, thresholds, slots and the
    step relation \<open>hc_step\<close> of the concurrent checks with its invariants. \<open>Probes\<close>: the HTTP and DNS
    probes. \<open>Warm_Standby\<close>: the step relation \<open>sb_step\<close> of all slot operations; each connection has
    one owner, and a warm TCP connection is in fact never used. \<open>Metrics\<close>: counters and their text.

  \<^bold>\<open>Front ends.\<close>
  \<^item> \<open>Socks\<close> (\<^verbatim>\<open>socksaddr.go\<close>, messages of \<^verbatim>\<open>socks5.go\<close>, \<^verbatim>\<open>outline_udp.go\<close>): address codecs, requests and
    datagrams. \<open>Front_End\<close> (\<^verbatim>\<open>socks5.go\<close>, \<^verbatim>\<open>outline_tcp.go\<close>, \<^verbatim>\<open>outline_dial.go\<close>): whole sessions:
    what the client gets, what goes to the upstream, and that everything is closed.
  \<^item> \<open>Udp_Session\<close> (\<^verbatim>\<open>outline_udp_session.go\<close>): subscriptions as the step relation \<open>us_step\<close>.
    \<open>Udp_Ports\<close> (\<^verbatim>\<open>tun_udp_porttable.go\<close>): the table of port sessions as \<open>pt_step\<close>.
    \<open>Tun_Device\<close> (\<^verbatim>\<open>tun_native.go\<close>): namespaces, pumps and the life of the device; whatever
    fails, no file stays open and no thread locked.

  \<^bold>\<open>Start and diagnostics.\<close> \<open>Load_Config\<close> (\<^verbatim>\<open>config.go\<close>, \<^verbatim>\<open>src/cmd/outline-cli-ws/main.go\<close>): defaults, which
  parts start, the accept loop. \<open>Unit_Build\<close> (\<^verbatim>\<open>unit_stubs.go\<close>): the copy of \<^verbatim>\<open>normalizeHostPort\<close> that
  tests of the unit build run, which differs from the program's. \<open>Debug_Log\<close> (\<^verbatim>\<open>ws_debug.go\<close>,
  \<^verbatim>\<open>ws_payload_debug.go\<close>, \<^verbatim>\<open>ws_h3_qlog_debug.go\<close>): how much debug output there is and what it shows.

  \<^bold>\<open>Conventions.\<close> A struct is a record, an operation a function from the state to a result and the
  next state; an error is \<open>Inl\<close> of an \<open>err\<close>, a panic the error \<open>Panic\<close>. What the network, the clock, the
  random source or a third-party package does is an argument: a function, or a record of inputs
  (\<open>quicIn\<close>, \<open>nsIn\<close> and the like) with one field per call. A context is the sequence of answers it gives to the
  checks of one call. Code that runs under one lock is one step; where a lock is released in
  between, the pieces are steps of an inductive relation, and properties hold for every
  interleaving. A connection, channel or session that is shared is a number into a store. An
  operation that opens connections returns the list of its effects beside its result, in the
  order of the code, with deferred calls last.

  \<^bold>\<open>Bounds and termination.\<close> Loops over input are recursive functions with a measure, the bytes left to
  read. Loops that may run for ever, because a reader may return nothing or a peer may send
  messages that are skipped (\<open>readFullLoop\<close>, \<open>fillLoop\<close>, \<open>packet_ReadLoop\<close>, \<open>copyFrom\<close>, \<open>aliveLoop\<close>), are
  partial functions in the option type; the statements about them say that they return, and with what. Fuel occurs once,
  in \<open>topRounds\<close>: a round adds an upstream or ends the loop, so one more than the number of upstreams is
  enough, which the lemmas about it use. \<open>goMaxAlloc\<close> is the largest slice Go allocates; statements about
  written data require lengths below it. Durations are \<^verbatim>\<open>int64\<close> with wrap-around where the code adds
  or multiplies them, instants are unbounded. Counters in telemetry wrap at 64 bits; counters of check
  results and of logged packets do not.

  \<^bold>\<open>Not modelled.\<close>
  \<^item> Third-party code: QUIC and HTTP/2 framing, HPACK, Huffman decoding, \<^verbatim>\<open>coder/websocket\<close> (with
    \<^verbatim>\<open>dialCoderWebSocket\<close>, which only calls it), the Shadowsocks ciphers, YAML, gVisor and the TUN driver
    are arguments, with the contracts stated as locales or hypotheses.
  \<^item> System calls: \<^verbatim>\<open>setSocketMark\<close> (\<^verbatim>\<open>fwmark_linux.go\<close>, \<^verbatim>\<open>fwmark_other.go\<close>) is one call of
    \<^verbatim>\<open>setsockopt\<close>; opening sockets and files are inputs.
  \<^item> Flags, signals and the text of ordinary log lines (\<^verbatim>\<open>udpCandidateSummary\<close>, \<^verbatim>\<open>h3DescribeErr\<close>), which
    depend on printing of arbitrary Go values and change no state.
  \<^item> Timers as such: the ticker of \<^verbatim>\<open>RunHealthChecks\<close> and the wait of \<^verbatim>\<open>waitSettings\<close> appear as the times and
    observations that the steps get as inputs.
  \<^item> Pools of buffers, which only save allocations, and real parallelism on the memory of a process:
    the accesses are assumed to be ordered by the locks the code takes.
  \<^item> \<^verbatim>\<open>tun_native_other.go\<close>, \<^verbatim>\<open>udp_common.go\<close>, the remaining stubs of the unit build and
    \<^verbatim>\<open>src/pkg/outlinews\<close>: fixed values, type aliases and forwarding functions.
\<close>

section \<open>A tunnel over HTTP/3, end to end\<close>

text \<open>
  What \<^verbatim>\<open>io.Copy\<close> does with a stream as its destination: the chunks are written one
  after the other until a write fails.
\<close>

primrec copyTo ::
  "'c wsconn \<Rightarrow> bytes list \<Rightarrow> 'c WSStreamConn \<times> telemetry \<Rightarrow> err option \<times> 'c WSStreamConn \<times> telemetry" where
  "copyTo W [] st = (None, st)"
| "copyTo W (p # ps) st =
     (case stream_Write W None p st of
        (Inl e, st') \<Rightarrow> (Some e, st')
      | (Inr _, st') \<Rightarrow> copyTo W ps st')"

lemma copyTo_writeMsgs:
  assumes "\<not> scanceled w" and "copyTo (framedWS io rnd) ps (w, tel) = (None, w', tel')"
  shows "writeMsgs io rnd (sc w) (map (Pair WSMessageBinary) ps) = (None, sc w')"
  using assms
proof (induction ps arbitrary: w tel)
  case Nil
  then show ?case by simp
next
  case (Cons p ps)
  obtain r c1 where c1: "conn_Write io rnd None (sc w) WSMessageBinary p = (r, c1)" by fastforce
  with Cons.prems have "r = None"
    and "copyTo (framedWS io rnd) ps (w\<lparr>sc := c1\<rparr>, observeIO ''out'' (upstreamName w) (protoOf w) (length p) tel) = (None, w', tel')"
    by (auto simp: stream_Write_def framedWS_def ownCtx_def split: option.splits)
  with Cons.IH [OF _ this(2)] Cons.prems(1) c1 show ?case by simp
qed

text \<open>
  One stream of a connection is a stream for the layer above: what was on it before the first
  \<open>L\<close> bytes, here the request, stays in front.
\<close>

context quic_conn
begin

lemma stream_after:
  "quic_stream (qw i) (\<lambda>c. drop (length pre) (sentOn i c)) (\<lambda>c. i \<in> opened c \<and> take (length pre) (sentOn i c) = pre)
     goMaxAlloc (qflush i) (\<lambda>c. drop (length pre) (sentOn i c))"
proof
  fix s p n s'
  assume g: "i \<in> opened s \<and> take (length pre) (sentOn i s) = pre" and l: "length p \<le> goMaxAlloc"
    and w: "qw i s p = ((n, None), s')"
  from g have "length pre \<le> length (sentOn i s)" by (metis nat_le_linear take_all)
  with qw_ok [OF _ l w] g
  show "(i \<in> opened s' \<and> take (length pre) (sentOn i s') = pre) \<and> 0 \<le> n \<and> n \<le> int (length p) \<and>
      drop (length pre) (sentOn i s') = drop (length pre) (sentOn i s) @ take (nat n) p"
    by simp
next
  fix s s'
  assume "i \<in> opened s \<and> take (length pre) (sentOn i s) = pre" and "qflush i s = (None, s')"
  then show "(i \<in> opened s' \<and> take (length pre) (sentOn i s') = pre) \<and>
      drop (length pre) (sentOn i s') = drop (length pre) (sentOn i s) \<and>
      drop (length pre) (sentOn i s') = drop (length pre) (sentOn i s')"
    using flush_keeps [of i s None s'] by simp
qed (simp add: h3MaxDataFrameSize_def goMaxAlloc_def)

lemma upload_after:
  fixes h :: "'c h3wsStream"
  assumes "i \<in> opened (h3_s h)" and "sentOn i (h3_s h) = pre"
    and "\<And>n. \<exists>key. rnd n = Inr key \<and> length key = 4"
    and "\<And>m. m \<in> set ms \<Longrightarrow> length (snd m) + 14 \<le> h3MaxDataFrameSize"
    and "strm c = h" and "writeMsgs (h3_io (qw i) (qflush i) cerr) rnd c ms = (None, c')"
  shows "\<exists>sent. sentOn i (h3_s (strm c')) = pre @ sent \<and>
    decodeN (readFrame True) (length ms) (h3_stream h3MaxDataFrameSize (Reader sent EOF)) =
      Inr (map (\<lambda>(t, d). (t AND 0x0F, d, True)) ms, Reader [] EOF)"
  using quic_stream.h3_messages_decoded [OF stream_after [of i pre] assms(3) _ _ assms(4,6)] assms(1,2,5)
  by (metis append_take_drop_id drop_all order_refl take_all)

end

text \<open>
  C8. A tunnel over HTTP/3, from the dial to the bytes, in both directions. Over a QUIC connection
  that keeps its contract, let the request be sent on stream \<open>st\<close> and the server accept it with
  status 200, after any frames of other types. Then the dial succeeds. If the payloads of the DATA
  frames that follow are, however they are cut into frames, the server's WebSocket frames up to a
  close, then copying from the stream over the connection ends with \<^verbatim>\<open>io.EOF\<close> and yields
  exactly the data of the binary messages. And when all writes of a copy to the stream succeed,
  \<open>st\<close> carries the request followed by DATA frames from which a server reads the copied chunks,
  each as one binary message, and nothing else.
\<close>

theorem h3_tunnel:
  assumes "quic_conn (qNewUni inp) (qWrite inp) (qFlush inp) opened sentOn"
    and "quic_conn (qNewStream inp) (qWrite inp) (qFlush inp) opened sentOn"
    and "Scheme u = ''wss''" and "qListen inp = None" and "qDial inp (h3Addr u) = Inr c0"
    and "h3SendRequest inp u (h3Authority u) profile c0 = Inr (st, c)" and "qDone inp = None"
    and "length (requestFrame u (h3Authority u)) \<le> goMaxAlloc" and "length (h3Authority u) \<le> goMaxAlloc"
    and "length (cleanedRequestURI u) \<le> goMaxAlloc" and "length (vget (urlQuery u) ''origin'') \<le> goMaxAlloc"
    and "\<And>ft p. (ft, p) \<in> set fs \<Longrightarrow> ft < 2 ^ 62 \<and> ft \<noteq> h3FrameHeaders \<and> length p \<le> goMaxAlloc"
    and "\<And>p. p \<in> set ps \<Longrightarrow> length p \<le> h3MaxDataFrameSize"
    and "qReply inp = Reader (concat (map h3Frame (fs @ [(h3FrameHeaders, h3EncodeHeaders [('':status'', ''200'')])])) @
           concat (map dataFrame ps)) EOF"
    and "concat ps = concat (map wire_enc ws) @ zs" and "\<And>x. x \<in> set ws \<Longrightarrow> wire_valid False x"
    and "msgsOf (map wire_view ws) = (ms, PeerClosed reason)"
    and "\<And>i j k. ctxs i j k = None" and "0 < n"
    and "\<And>i. \<exists>key. rnd i = Inr key \<and> length key = 4"
    and "\<And>p. p \<in> set chunks \<Longrightarrow> length p + 14 \<le> h3MaxDataFrameSize"
    and "W = framedWS (h3_io (qWrite inp st) (qFlush inp st) cerr) rnd"
  shows "\<exists>conn kept. dialRFC9220Profile inp u profile = (Inr conn, kept) \<and>
    copyFrom W ctxs 0 n (NewWSStreamConn conn upstream ''tcp'', tel) = Some (EOF, binaryData ms) \<and>
    (\<forall>w tel'. copyTo W chunks (NewWSStreamConn conn upstream ''tcp'', tel) = (None, w, tel') \<longrightarrow>
      (\<exists>sent. sentOn st (h3_s (strm (sc w))) = requestFrame u (h3Authority u) @ sent \<and>
        decodeN (readFrame True) (length chunks) (h3_stream h3MaxDataFrameSize (Reader sent EOF)) =
          Inr (map (\<lambda>p. (WSMessageBinary, p, True)) chunks, Reader [] EOF)))"
proof -
  obtain conn kept where d: "dialRFC9220Profile inp u profile = (Inr conn, kept)" "h3_s (strm conn) = c"
    "br conn = Reader (concat (map wire_enc ws) @ zs) EOF"
    using dial_accepted_conn [OF assms(3-7,12-14)] assms(15) by auto
  have on: "st \<in> opened c" "sentOn st c = requestFrame u (h3Authority u)"
    using h3SendRequest_sent [OF assms(1,2,6,8)] by simp_all
  have down: "copyFrom W ctxs 0 n (NewWSStreamConn conn upstream ''tcp'', tel) = Some (EOF, binaryData ms)"
    using framedMessages.copyFrom_all [where ctxs = ctxs and w = "NewWSStreamConn conn upstream ''tcp''" and n = n, OF assms(18)]
      readAll_msgsOf [OF assms(16,17) d(3)] assms(19,22)
    by (simp add: NewWSStreamConn_def pending_def)
  have up: "\<exists>sent. sentOn st (h3_s (strm (sc w))) = requestFrame u (h3Authority u) @ sent \<and>
      decodeN (readFrame True) (length chunks) (h3_stream h3MaxDataFrameSize (Reader sent EOF)) =
        Inr (map (\<lambda>p. (WSMessageBinary, p, True)) chunks, Reader [] EOF)"
    if "copyTo W chunks (NewWSStreamConn conn upstream ''tcp'', tel) = (None, w, tel')" for w tel'
  proof -
    have m: "writeMsgs (h3_io (qWrite inp st) (qFlush inp st) cerr) rnd conn (map (Pair WSMessageBinary) chunks) = (None, sc w)"
      using copyTo_writeMsgs [OF _ that [unfolded assms(22)]] by (simp add: NewWSStreamConn_def)
    have l: "length (snd m) + 14 \<le> h3MaxDataFrameSize" if "m \<in> set (map (Pair WSMessageBinary) chunks)" for m
      using that assms(21) by auto
    from quic_conn.upload_after [OF assms(2) on [folded d(2)] assms(20) l refl m] show ?thesis
      by (simp add: comp_def)
  qed
  from d(1) down up show ?thesis by blast
qed

definition tunnel_reply :: bytes where
  "tunnel_reply = h3Frame (h3FrameHeaders, h3EncodeHeaders [('':status'', ''200'')]) @
     concat (map dataFrame [take 3 (concat (map wire_enc server_frames)), drop 3 (concat (map wire_enc server_frames))])"

definition tunnel_ws :: "bytes list h3wsStream framedWSConn wsconn" where
  "tunnel_ws = framedWS (h3_io (qc_write 1) (qc_flush 1) (\<lambda>_. None)) (\<lambda>_. Inr [1, 2, 3, 4])"

lemma tunnel_example_writes:
  assumes "dialRFC9220Profile (quic_example tunnel_reply) h3_url_example h3ClientStreamsControlOnly = (Inr conn, kept)"
  shows "\<exists>w tel'. copyTo tunnel_ws [[5, 6]] (NewWSStreamConn conn ''u'' ''tcp'', tel) = (None, w, tel')"
proof -
  obtain rest c1 where "conn = newFramedWSConn (h3_contents (h3Stream rest [c1, requestFrame h3_url_example (h3Authority h3_url_example)]))
      (h3Stream rest [c1, requestFrame h3_url_example (h3Authority h3_url_example)])"
    using assms quic_example_sends [of tunnel_reply h3_url_example "h3Authority h3_url_example"]
    by (cases rule: dial_cases) (auto simp: quic_example_def)
  then show ?thesis
    by (simp add: tunnel_ws_def stream_Write_def framedWS_def h3_io_def NewWSStreamConn_def ownCtx_def newFramedWSConn_def
        h3Stream_def conn_Write_def writeRaw_def buildFrame_def frameHeader_def applyMask_def h3Write_def dataFrame_def
        appendVarint_def writeLoop.simps qc_write_def qc_flush_def)
qed

theorem h3_tunnel_witness:
  "\<exists>conn kept w tel'. dialRFC9220Profile (quic_example tunnel_reply) h3_url_example h3ClientStreamsControlOnly = (Inr conn, kept) \<and>
     copyFrom tunnel_ws (\<lambda>i j k. None) 0 2 (NewWSStreamConn conn ''u'' ''tcp'', noMetrics) = Some (EOF, [1, 2, 3, 4]) \<and>
     copyTo tunnel_ws [[5, 6]] (NewWSStreamConn conn ''u'' ''tcp'', noMetrics) = (None, w, tel') \<and>
     (\<exists>sent. h3_s (strm (sc w)) ! 1 = requestFrame h3_url_example (h3Authority h3_url_example) @ sent \<and>
       decodeN (readFrame True) 1 (h3_stream h3MaxDataFrameSize (Reader sent EOF)) = Inr ([(2, [5, 6], True)], Reader [] EOF))"
proof -
  let ?i = "quic_example tunnel_reply" and ?u = h3_url_example
  let ?ps = "[take 3 (concat (map wire_enc server_frames)), drop 3 (concat (map wire_enc server_frames))]"
  have q: "quic_conn qc_new qc_write qc_flush (\<lambda>c. {..<length c}) (\<lambda>i c. c ! i)"
    by unfold_locales
  have s: "h3SendRequest ?i ?u (h3Authority ?u) h3ClientStreamsControlOnly [] = Inr (1, [concat controlPieces, requestFrame ?u (h3Authority ?u)])"
    by (rule quic_example_sends)
  have u: "h3Authority ?u = ''h''" "cleanedRequestURI ?u = ''/''" "vget (urlQuery ?u) ''origin'' = []" by code_simp+
  have l: "length (requestFrame ?u (h3Authority ?u)) \<le> 1000" "length (concat (map wire_enc server_frames)) \<le> 100" by code_simp+
  have v: "wire_valid False x" if "x \<in> set server_frames" for x
    using that by (auto simp: server_frames_def wire_valid_def wsMaxFrame_def)
  have m: "msgsOf (map wire_view server_frames) =
      ([(WSMessageBinary, [1, 2, 3]), (WSMessageText, [9]), (WSMessageBinary, [4])], PeerClosed [])"
    by code_simp
  have "\<exists>conn kept. dialRFC9220Profile ?i ?u h3ClientStreamsControlOnly = (Inr conn, kept) \<and>
    copyFrom tunnel_ws (\<lambda>i j k. None) 0 2 (NewWSStreamConn conn ''u'' ''tcp'', noMetrics) =
      Some (EOF, binaryData [(WSMessageBinary, [1, 2, 3]), (WSMessageText, [9]), (WSMessageBinary, [4])]) \<and>
    (\<forall>w tel'. copyTo tunnel_ws [[5, 6]] (NewWSStreamConn conn ''u'' ''tcp'', noMetrics) = (None, w, tel') \<longrightarrow>
      (\<exists>sent. h3_s (strm (sc w)) ! 1 = requestFrame ?u (h3Authority ?u) @ sent \<and>
        decodeN (readFrame True) (length [[5, 6 :: byte]]) (h3_stream h3MaxDataFrameSize (Reader sent EOF)) =
          Inr (map (\<lambda>p. (WSMessageBinary, p, True)) [[5, 6]], Reader [] EOF)))"
    by (rule h3_tunnel [where inp = ?i and u = ?u and fs = "[]" and ps = ?ps and zs = "[]"
          and opened = "\<lambda>c. {..<length c}" and sentOn = "\<lambda>i c. c ! i" and st = 1, OF _ _ _ _ _ s _ _ _ _ _ _ _ _ _ v m])
      (use q u l in \<open>auto simp: quic_example_def tunnel_reply_def tunnel_ws_def h3_url_example_def goMaxAlloc_def h3MaxDataFrameSize_def\<close>)
  then obtain conn kept where d: "dialRFC9220Profile ?i ?u h3ClientStreamsControlOnly = (Inr conn, kept)"
    "copyFrom tunnel_ws (\<lambda>i j k. None) 0 2 (NewWSStreamConn conn ''u'' ''tcp'', noMetrics) = Some (EOF, [1, 2, 3, 4])"
    "\<And>w tel'. copyTo tunnel_ws [[5, 6]] (NewWSStreamConn conn ''u'' ''tcp'', noMetrics) = (None, w, tel') \<Longrightarrow>
      \<exists>sent. h3_s (strm (sc w)) ! 1 = requestFrame ?u (h3Authority ?u) @ sent \<and>
        decodeN (readFrame True) 1 (h3_stream h3MaxDataFrameSize (Reader sent EOF)) = Inr ([(2, [5, 6], True)], Reader [] EOF)"
    by (auto simp: binaryData_def)
  with tunnel_example_writes [OF d(1)] show ?thesis by metis
qed

end
